(* ===== verification/Prelude.thy ===== *)
theory Prelude
  imports Main "HOL-Library.Signed_Division" "HOL-Library.Sublist" "HOL-Library.Monad_Syntax"
begin

text \<open>
  What every theory of the development shares: the named collections of facts its proofs use,
  Go's rules for indexing, slicing and integer arithmetic where they differ from HOL's, and generic
  lemmas on lists, options and maps.

  A Go \<open>string\<close> and a \<open>[]byte\<close> are sequences of bytes, so both are \<open>string\<close>
  here: a \<open>char\<close> of Isabelle is an 8-bit value. A run-time panic (an index or a slice bound out of
  range, a division by zero) is the value \<open>None\<close>. An \<open>int\<close> or \<open>int64\<close> of the
  source is an \<open>int\<close>; where a value can leave the 64-bit range the code's conversion is written
  out in the theory concerned.
\<close>

section \<open>Collections of facts\<close>

named_theorems go_simps "unfolding rules of the Go primitives"
named_theorems wf_intros "preservation of the components' invariants"
named_theorems frame_simps "fields an operation leaves unchanged"

type_synonym bytes = string

section \<open>Indexing and slicing\<close>

text \<open>\<open>xs[i]\<close>, \<open>xs[i] = v\<close> and \<open>xs[lo:hi]\<close>, with Go's bounds checks.\<close>

definition go_index :: "'a list \<Rightarrow> int \<Rightarrow> 'a option" where
  "go_index xs i = (if 0 \<le> i \<and> i < int (length xs) then Some (xs ! nat i) else None)"

definition go_store :: "'a list \<Rightarrow> int \<Rightarrow> 'a \<Rightarrow> 'a list option" where
  "go_store xs i v = (if 0 \<le> i \<and> i < int (length xs) then Some (xs[nat i := v]) else None)"

definition go_slice :: "'a list \<Rightarrow> int \<Rightarrow> int \<Rightarrow> 'a list option" where
  "go_slice xs lo hi =
     (if 0 \<le> lo \<and> lo \<le> hi \<and> hi \<le> int (length xs)
      then Some (take (nat (hi - lo)) (drop (nat lo) xs)) else None)"

text \<open>\<open>a % b\<close> truncates towards zero and panics on a zero divisor.\<close>

definition go_mod :: "int \<Rightarrow> int \<Rightarrow> int option" where
  "go_mod a b = (if b = 0 then None else Some (a smod b))"

lemma go_index_in [go_simps]:
  "0 \<le> i \<Longrightarrow> i < int (length xs) \<Longrightarrow> go_index xs i = Some (xs ! nat i)"
  by (simp add: go_index_def)

lemma go_store_in [go_simps]:
  "0 \<le> i \<Longrightarrow> i < int (length xs) \<Longrightarrow> go_store xs i v = Some (xs[nat i := v])"
  by (simp add: go_store_def)

lemma go_slice_suffix [go_simps]:
  "0 \<le> lo \<Longrightarrow> lo \<le> int (length xs) \<Longrightarrow> go_slice xs lo (int (length xs)) = Some (drop (nat lo) xs)"
  by (simp add: go_slice_def nat_diff_distrib)

lemma go_slice_prefix [go_simps]:
  "0 \<le> hi \<Longrightarrow> hi \<le> int (length xs) \<Longrightarrow> go_slice xs 0 hi = Some (take (nat hi) xs)"
  by (simp add: go_slice_def)

lemma smod_nonneg: "0 \<le> a \<Longrightarrow> 0 < b \<Longrightarrow> a smod b = (a mod b :: int)"
  by (cases "a = 0") (simp_all add: signed_modulo_int_def sgn_if)

lemma go_mod_pos [go_simps]: "0 \<le> a \<Longrightarrow> 0 < b \<Longrightarrow> go_mod a b = Some (a mod b)"
  by (simp add: go_mod_def smod_nonneg)

section \<open>Lists, options and maps\<close>

text \<open>Run a partial function over a list, left to right, stopping at the first panic.\<close>

primrec collect :: "('a \<Rightarrow> 'b option) \<Rightarrow> 'a list \<Rightarrow> 'b list option" where
  "collect f [] = Some []"
| "collect f (x # xs) =
     (case f x of None \<Rightarrow> None
      | Some y \<Rightarrow> (case collect f xs of None \<Rightarrow> None | Some ys \<Rightarrow> Some (y # ys)))"

lemma collect_Some_map: "(\<And>x. x \<in> set xs \<Longrightarrow> f x = Some (g x)) \<Longrightarrow> collect f xs = Some (map g xs)"
  by (induction xs) simp_all

lemma take_eq_map_nth: "n \<le> length xs \<Longrightarrow> take n xs = map (\<lambda>i. xs ! i) [0..<n]"
  by (simp add: list_eq_iff_nth_eq)

lemma drop_take_eq_map_nth:
  "k + n \<le> length xs \<Longrightarrow> take n (drop k xs) = map (\<lambda>i. xs ! (k + i)) [0..<n]"
  by (simp add: list_eq_iff_nth_eq)

definition last_n :: "nat \<Rightarrow> 'a list \<Rightarrow> 'a list" where
  "last_n n xs = drop (length xs - n) xs"

lemma length_last_n [simp]: "length (last_n n xs) = min n (length xs)"
  by (simp add: last_n_def)

lemma last_n_all [simp]: "length xs \<le> n \<Longrightarrow> last_n n xs = xs"
  by (simp add: last_n_def)

lemma suffix_last_n: "suffix (last_n n xs) xs"
  by (simp add: last_n_def suffix_drop)

text \<open>\<open>delete(m, k)\<close> and the size of a Go map.\<close>

definition map_delete :: "'k \<Rightarrow> ('k \<rightharpoonup> 'v) \<Rightarrow> ('k \<rightharpoonup> 'v)" where
  "map_delete k m = m(k := None)"

lemma map_delete_apply [simp]: "map_delete k m j = (if j = k then None else m j)"
  by (simp add: map_delete_def)

lemma dom_map_delete [simp]: "dom (map_delete k m) = dom m - {k}"
  by (auto simp: map_delete_def)

lemma card_dom_upd_le: "finite (dom m) \<Longrightarrow> card (dom (m(k \<mapsto> v))) \<le> Suc (card (dom m))"
  by (simp add: card_insert_if)

lemma card_dom_delete_le: "finite (dom m) \<Longrightarrow> card (dom (map_delete k m)) \<le> card (dom m)"
  by (simp add: card_Diff1_le)

end
