(* ===== verification/Go_Strings.thy ===== *)
theory Go_Strings
  imports Prelude
begin

text \<open>
  The parts of Go's \<open>unicode/utf8\<close>, \<open>strings\<close> and \<open>strconv\<close> packages the
  program uses, on byte strings. A string is read as its sequence of decoded runes, each with the bytes
  it was decoded from (\<open>runes\<close>); an invalid byte decodes to U+FFFD with width 1, as
  \<open>utf8.DecodeRuneInString\<close> does.
\<close>

section \<open>UTF-8\<close>

type_synonym chunk = "int \<times> bytes"

definition code :: "char \<Rightarrow> int" where
  "code c = of_char c"

lemma code_Char [code, simp]:
  "code (Char b0 b1 b2 b3 b4 b5 b6 b7) =
     of_bool b0 + 2 * (of_bool b1 + 2 * (of_bool b2 + 2 * (of_bool b3 + 2 * (of_bool b4
       + 2 * (of_bool b5 + 2 * (of_bool b6 + 2 * of_bool b7))))))"
  by (simp add: code_def of_char_Char)

lemma code_bounds: "0 \<le> code c" "code c < 256"
  by (cases c; simp)+

lemma inj_code: "code c = code d \<Longrightarrow> c = d"
  by (simp add: code_def)

definition runeError :: int where
  "runeError = 0xFFFD"

fun is_cont :: "char \<Rightarrow> bool" where
  "is_cont c = (0x80 \<le> code c \<and> code c \<le> 0xBF)"

text \<open>The range of the second byte, after the first byte \<open>b\<close> of a three or four byte form.\<close>

fun second_ok :: "int \<Rightarrow> char \<Rightarrow> bool" where
  "second_ok b c =
     (let x = code c in
      (if b = 0xE0 then 0xA0 \<le> x \<and> x \<le> 0xBF
       else if b = 0xED then 0x80 \<le> x \<and> x \<le> 0x9F
       else if b = 0xF0 then 0x90 \<le> x \<and> x \<le> 0xBF
       else if b = 0xF4 then 0x80 \<le> x \<and> x \<le> 0x8F
       else 0x80 \<le> x \<and> x \<le> 0xBF))"

fun decode_rune :: "bytes \<Rightarrow> int \<times> nat" where
  "decode_rune [] = (runeError, 0)"
| "decode_rune (c # cs) =
     (let b = code c in
      if b < 0x80 then (b, 1)
      else if 0xC2 \<le> b \<and> b \<le> 0xDF then
        (case cs of c1 # _ \<Rightarrow>
           if is_cont c1 then ((b - 0xC0) * 64 + (code c1 - 0x80), 2) else (runeError, 1)
         | _ \<Rightarrow> (runeError, 1))
      else if 0xE0 \<le> b \<and> b \<le> 0xEF then
        (case cs of c1 # c2 # _ \<Rightarrow>
           if second_ok b c1 \<and> is_cont c2
           then ((b - 0xE0) * 4096 + (code c1 - 0x80) * 64 + (code c2 - 0x80), 3)
           else (runeError, 1)
         | _ \<Rightarrow> (runeError, 1))
      else if 0xF0 \<le> b \<and> b \<le> 0xF4 then
        (case cs of c1 # c2 # c3 # _ \<Rightarrow>
           if second_ok b c1 \<and> is_cont c2 \<and> is_cont c3
           then ((b - 0xF0) * 262144 + (code c1 - 0x80) * 4096 + (code c2 - 0x80) * 64
                   + (code c3 - 0x80), 4)
           else (runeError, 1)
         | _ \<Rightarrow> (runeError, 1))
      else (runeError, 1))"

lemma decode_rune_width: "s \<noteq> [] \<Longrightarrow> 1 \<le> snd (decode_rune s) \<and> snd (decode_rune s) \<le> length s"
  by (cases s) (auto simp: Let_def split: list.splits)

function runes :: "bytes \<Rightarrow> chunk list" where
  "runes [] = []"
| "runes (c # cs) =
     (let (r, w) = decode_rune (c # cs)
      in (r, take w (c # cs)) # runes (drop w (c # cs)))"
  by pat_completeness auto
termination
proof (relation "measure length")
  fix c :: char and cs :: bytes and p r w
  assume "p = decode_rune (c # cs)" and "(r, w) = p"
  then have "1 \<le> w" using decode_rune_width [of "c # cs"] by (metis list.distinct(1) snd_conv)
  then show "(drop w (c # cs), c # cs) \<in> measure length" by simp
qed simp

declare runes.simps(2) [simp del]

definition bytes_of :: "chunk list \<Rightarrow> bytes" where
  "bytes_of cs = concat (map snd cs)"

lemma bytes_of_simps [simp]:
  "bytes_of [] = []" "bytes_of (c # cs) = snd c @ bytes_of cs"
  "bytes_of (xs @ ys) = bytes_of xs @ bytes_of ys"
  by (simp_all add: bytes_of_def)

lemma runes_Cons:
  "runes (c # cs) = (fst (decode_rune (c # cs)), take (snd (decode_rune (c # cs))) (c # cs))
     # runes (drop (snd (decode_rune (c # cs))) (c # cs))"
  by (simp only: runes.simps(2) Let_def split_def)

lemma runes_induct [case_names Nil Cons]:
  assumes "P []"
    and "\<And>c cs. P (drop (snd (decode_rune (c # cs))) (c # cs)) \<Longrightarrow> P (c # cs)"
  shows "P s"
proof (induction s rule: length_induct)
  case (1 s)
  show ?case
  proof (cases s)
    case Nil
    with assms(1) show ?thesis by simp
  next
    case (Cons c cs)
    have "P (drop (snd (decode_rune (c # cs))) (c # cs))"
      using 1 Cons decode_rune_width [of "c # cs"] by auto
    with Cons show ?thesis using assms(2) by simp
  qed
qed

declare decode_rune.simps(2) [simp del] is_cont.simps [simp del] second_ok.simps [simp del]

lemma bytes_of_runes [simp]: "bytes_of (runes s) = s"
  by (induction s rule: runes_induct) (simp_all add: runes_Cons)

definition ascii :: "bytes \<Rightarrow> bool" where
  "ascii s \<longleftrightarrow> list_all (\<lambda>c. code c < 0x80) s"

lemma ascii_Cons [simp]: "ascii (c # s) \<longleftrightarrow> code c < 0x80 \<and> ascii s"
  and ascii_Nil [simp]: "ascii []"
  by (simp_all add: ascii_def)

lemma runes_ascii_Cons: "code c < 0x80 \<Longrightarrow> runes (c # s) = (code c, [c]) # runes s"
  by (simp add: runes_Cons decode_rune.simps(2))

lemma runes_ascii: "ascii s \<Longrightarrow> runes s = map (\<lambda>c. (code c, [c])) s"
  by (induction s) (simp_all add: runes_ascii_Cons)

lemma runes_ascii_append: "ascii s \<Longrightarrow> runes (s @ t) = map (\<lambda>c. (code c, [c])) s @ runes t"
  by (induction s) (simp_all add: runes_ascii_Cons)

text \<open>
  A chunk is \<open>valid\<close> when it is not the one-byte error decoding. Decoding a valid chunk looks
  at its own bytes only, so valid chunks can be cut out and joined freely.
\<close>

definition valid_chunk :: "chunk \<Rightarrow> bool" where
  "valid_chunk c \<longleftrightarrow> \<not> (fst c = runeError \<and> length (snd c) = 1)"

definition utf8_chunk :: "chunk \<Rightarrow> bool" where
  "utf8_chunk c \<longleftrightarrow> snd c \<noteq> [] \<and> (\<forall>t. decode_rune (snd c @ t) = (fst c, length (snd c)))"

lemma decode_rune_cases:
  assumes "decode_rune (c # cs) = (r, w)"
  obtains (one) "code c < 0x80" "r = code c" "w = 1"
  | (two) c1 t where "\<not> code c < 0x80" "cs = c1 # t" "w = 2"
      "0xC2 \<le> code c \<and> code c \<le> 0xDF" "is_cont c1"
  | (three) c1 c2 t where "\<not> code c < 0x80" "cs = c1 # c2 # t" "w = 3"
      "0xE0 \<le> code c \<and> code c \<le> 0xEF" "second_ok (code c) c1" "is_cont c2"
  | (four) c1 c2 c3 t where "\<not> code c < 0x80" "cs = c1 # c2 # c3 # t" "w = 4"
      "0xF0 \<le> code c \<and> code c \<le> 0xF4" "second_ok (code c) c1" "is_cont c2" "is_cont c3"
  | (bad) "r = runeError" "w = 1"
  using assms
  by (simp add: decode_rune.simps(2) Let_def split: if_split_asm list.split_asm)

lemma decode_valid_local:
  assumes "s \<noteq> []" and "decode_rune s = (r, w)" and "\<not> (r = runeError \<and> w = 1)"
  shows "decode_rune (take w s @ t) = (r, w)"
proof -
  obtain c cs where s: "s = c # cs" using assms(1) by (cases s) auto
  with assms(2) have d: "decode_rune (c # cs) = (r, w)" by simp
  from d show ?thesis
    by (cases rule: decode_rune_cases)
      (use d assms(3) in \<open>simp_all add: s decode_rune.simps(2) take_Cons'\<close>)
qed

lemma runes_utf8_chunks:
  "c \<in> set (runes s) \<Longrightarrow> valid_chunk c \<Longrightarrow> utf8_chunk c"
proof (induction s rule: runes_induct)
  case (Cons a s)
  let ?r = "fst (decode_rune (a # s))" and ?w = "snd (decode_rune (a # s))"
  have w: "1 \<le> ?w" "?w \<le> length (a # s)" using decode_rune_width [of "a # s"] by auto
  from Cons.prems(1) consider "c = (?r, take ?w (a # s))" | "c \<in> set (runes (drop ?w (a # s)))"
    by (auto simp: runes_Cons)
  then show ?case
  proof cases
    case 1
    with Cons.prems(2) w have "\<not> (?r = runeError \<and> ?w = 1)"
      by (auto simp: valid_chunk_def)
    then have "\<forall>t. decode_rune (take ?w (a # s) @ t) = (?r, ?w)"
      using decode_valid_local [of "a # s" ?r ?w] by simp
    with 1 w show ?thesis by (auto simp: utf8_chunk_def)
  next
    case 2
    then show ?thesis using Cons.IH Cons.prems(2) by simp
  qed
qed simp

lemma runes_utf8_append: "utf8_chunk c \<Longrightarrow> runes (snd c @ t) = c # runes t"
  by (cases c; cases "snd c") (auto simp: utf8_chunk_def runes_Cons)

lemma runes_bytes_of: "list_all utf8_chunk cs \<Longrightarrow> runes (bytes_of cs) = cs"
  by (induction cs) (simp_all add: runes_utf8_append)

lemma utf8_chunk_byte:
  assumes "utf8_chunk c" and "b \<in> set (snd c)" and "code b < 0x80"
  shows "fst c = code b"
proof -
  from assms(1,2) obtain a s where s: "snd c = a # s" by (cases "snd c") auto
  with assms(1) have "decode_rune ((a # s) @ []) = (fst c, length (a # s))"
    unfolding utf8_chunk_def by metis
  then have d: "decode_rune (a # s) = (fst c, length (a # s))" by simp
  then have "code a < 0x80 \<Longrightarrow> fst c = code a" by (simp add: decode_rune.simps(2))
  with d show ?thesis
    by (cases rule: decode_rune_cases)
      (use assms s in \<open>auto simp: is_cont.simps second_ok.simps Let_def split: if_splits\<close>)
qed

definition valid_utf8 :: "bytes \<Rightarrow> bool" where
  "valid_utf8 s \<longleftrightarrow> list_all valid_chunk (runes s)"

lemma valid_utf8_chunks: "valid_utf8 s \<Longrightarrow> list_all utf8_chunk (runes s)"
  by (auto simp: valid_utf8_def list_all_iff intro: runes_utf8_chunks)

text \<open>\<open>strings.ToValidUTF8(s, "")\<close>: the invalid bytes are left out.\<close>

definition ToValidUTF8 :: "bytes \<Rightarrow> bytes" where
  "ToValidUTF8 s = bytes_of (filter valid_chunk (runes s))"

lemma runes_ToValidUTF8: "runes (ToValidUTF8 s) = filter valid_chunk (runes s)"
  unfolding ToValidUTF8_def
  by (rule runes_bytes_of) (auto simp: list_all_iff intro: runes_utf8_chunks)

lemma valid_ToValidUTF8: "valid_utf8 (ToValidUTF8 s)"
  by (simp add: valid_utf8_def runes_ToValidUTF8 list_all_iff)

lemma ToValidUTF8_valid: "valid_utf8 s \<Longrightarrow> ToValidUTF8 s = s"
  by (simp add: ToValidUTF8_def valid_utf8_def list_all_iff filter_True)

lemma ascii_valid_utf8: "ascii s \<Longrightarrow> valid_utf8 s"
  by (auto simp: valid_utf8_def runes_ascii list_all_iff ascii_def valid_chunk_def runeError_def)

section \<open>Searching, cutting and joining\<close>

definition HasPrefix :: "bytes \<Rightarrow> bytes \<Rightarrow> bool" where
  "HasPrefix s p \<longleftrightarrow> take (length p) s = p"

definition HasSuffix :: "bytes \<Rightarrow> bytes \<Rightarrow> bool" where
  "HasSuffix s p \<longleftrightarrow> HasPrefix (rev s) (rev p)"

fun Contains :: "bytes \<Rightarrow> bytes \<Rightarrow> bool" where
  "Contains [] sub = (sub = [])"
| "Contains (c # s) sub = (HasPrefix (c # s) sub \<or> Contains s sub)"

definition TrimPrefix :: "bytes \<Rightarrow> bytes \<Rightarrow> bytes" where
  "TrimPrefix s p = (if HasPrefix s p then drop (length p) s else s)"

definition TrimSuffix :: "bytes \<Rightarrow> bytes \<Rightarrow> bytes" where
  "TrimSuffix s p = (if HasSuffix s p then take (length s - length p) s else s)"

text \<open>\<open>strings.ReplaceAll(s, old, "")\<close> for a non-empty \<open>old\<close>.\<close>

function DeleteAll :: "bytes \<Rightarrow> bytes \<Rightarrow> bytes" where
  "DeleteAll [] old = []"
| "DeleteAll (c # s) old =
     (if old \<noteq> [] \<and> HasPrefix (c # s) old then DeleteAll (drop (length old) (c # s)) old
      else c # DeleteAll s old)"
  by pat_completeness auto
termination
  by (relation "measure (\<lambda>(s, old). length s)") (auto simp: Suc_le_eq)

declare DeleteAll.simps(2) [simp del]

text \<open>ASCII part of \<open>strings.ToLower\<close>; \<open>filepath.Base\<close> on a slash-separated path.\<close>

definition ToLowerASCII :: "bytes \<Rightarrow> bytes" where
  "ToLowerASCII s = map (\<lambda>c. if 65 \<le> code c \<and> code c \<le> 90 then char_of (code c + 32) else c) s"

definition Base :: "bytes \<Rightarrow> bytes" where
  "Base path =
     (let sep = CHR 0x2F; p = rev (dropWhile (\<lambda>c. c = sep) (rev path))
      in if path = [] then ''.'' else if p = [] then [sep]
         else rev (takeWhile (\<lambda>c. c \<noteq> sep) (rev p)))"

lemma HasPrefix_iff: "HasPrefix s p \<longleftrightarrow> prefix p s"
  by (auto simp: HasPrefix_def prefix_def) (metis append_take_drop_id)

lemma HasSuffix_iff: "HasSuffix s p \<longleftrightarrow> suffix p s"
  by (simp add: HasSuffix_def HasPrefix_iff suffix_to_prefix)

lemma Contains_iff: "Contains s sub \<longleftrightarrow> (\<exists>u v. s = u @ sub @ v)"
proof (induction s)
  case (Cons c s)
  have "(\<exists>u v. c # s = u @ sub @ v) \<longleftrightarrow> prefix sub (c # s) \<or> (\<exists>u v. s = u @ sub @ v)"
    by (auto simp: prefix_def Cons_eq_append_conv)
  with Cons show ?case by (simp add: HasPrefix_iff)
qed simp

text \<open>\<open>strings.Split(s, sep)\<close> for a one-byte separator; \<open>strings.Join\<close>.\<close>

fun Split :: "char \<Rightarrow> bytes \<Rightarrow> bytes list" where
  "Split sep [] = [[]]"
| "Split sep (c # s) =
     (if c = sep then [] # Split sep s
      else (case Split sep s of [] \<Rightarrow> [[c]] | p # ps \<Rightarrow> (c # p) # ps))"

text \<open>\<open>strings.SplitN(s, sep, n)\<close>, \<open>n > 0\<close>: at most \<open>n\<close> parts, the last one whole.\<close>

fun SplitN :: "char \<Rightarrow> nat \<Rightarrow> bytes \<Rightarrow> bytes list" where
  "SplitN sep n [] = [[]]"
| "SplitN sep n (c # s) =
     (if n \<le> 1 then [c # s]
      else if c = sep then [] # SplitN sep (n - 1) s
      else (case SplitN sep n s of [] \<Rightarrow> [[c]] | p # ps \<Rightarrow> (c # p) # ps))"

fun Join :: "bytes list \<Rightarrow> bytes \<Rightarrow> bytes" where
  "Join [] sep = []"
| "Join [p] sep = p"
| "Join (p # ps) sep = p @ sep @ Join ps sep"

text \<open>\<open>strings.Cut(s, sep)\<close> for a one-byte separator.\<close>

fun Cut :: "bytes \<Rightarrow> char \<Rightarrow> bytes \<times> bytes \<times> bool" where
  "Cut [] sep = ([], [], False)"
| "Cut (c # s) sep =
     (if c = sep then ([], s, True)
      else (case Cut s sep of (k, v, ok) \<Rightarrow> if ok then (c # k, v, True) else (c # s, [], False)))"

lemma Split_nonempty [simp]: "Split sep s \<noteq> []"
  by (induction s) (auto split: list.split)

lemma Join_Cons: "ps \<noteq> [] \<Longrightarrow> Join (p # ps) sep = p @ sep @ Join ps sep"
  by (cases ps) simp_all

lemma Join_Split: "Join (Split sep s) [sep] = s"
proof (induction s)
  case (Cons c s)
  obtain p ps where ps: "Split sep s = p # ps" by (cases "Split sep s") auto
  with Cons show ?case by (cases ps) auto
qed simp

lemma Split_no_sep: "p \<in> set (Split sep s) \<Longrightarrow> sep \<notin> set p"
  by (induction s arbitrary: p) (fastforce split: list.splits if_splits)+

lemma Split_absent: "sep \<notin> set s \<Longrightarrow> Split sep s = [s]"
  by (induction s) auto

lemma Split_append_sep: "Split sep (s @ sep # t) = Split sep s @ Split sep t"
  by (induction s) (auto split: list.split)

lemma Split_Join:
  "ps \<noteq> [] \<Longrightarrow> \<forall>p \<in> set ps. sep \<notin> set p \<Longrightarrow> Split sep (Join ps [sep]) = ps"
  by (induction ps "[sep]" rule: Join.induct) (auto simp: Split_absent Split_append_sep)

lemma Join_contains: "\<exists>u v. Join (ps @ p # qs) sep = u @ p @ v"
proof (induction ps)
  case Nil
  show ?case by (cases qs) (auto intro: exI [of _ "[]"])
next
  case (Cons q ps)
  then obtain u v where "Join (ps @ p # qs) sep = u @ p @ v" by blast
  then have "Join ((q # ps) @ p # qs) sep = (q @ sep @ u) @ p @ v" by (simp add: Join_Cons)
  then show ?case by blast
qed

lemma length_SplitN: "0 < n \<Longrightarrow> length (SplitN sep n s) \<le> n \<and> SplitN sep n s \<noteq> []"
proof (induction sep n s rule: SplitN.induct)
  case (2 sep n c s)
  then show ?case by (cases "n \<le> 1"; cases "c = sep") (auto split: list.split)
qed simp

lemma Cut_found: "Cut s sep = (k, v, True) \<Longrightarrow> s = k @ sep # v \<and> sep \<notin> set k"
  by (induction s arbitrary: k v) (auto split: if_splits prod.splits)

lemma Cut_first: "sep \<notin> set k \<Longrightarrow> Cut (k @ sep # v) sep = (k, v, True)"
  by (induction k) auto

lemma Cut_absent: "sep \<notin> set s \<Longrightarrow> Cut s sep = (s, [], False)"
  by (induction s) auto

section \<open>Lines\<close>

text \<open>
  \<open>bufio.Scanner\<close> over a complete input, with a buffer of \<open>limit\<close> bytes: the lines before the first one that
  does not fit, and whether there is such a line. A final carriage return is dropped from each.
\<close>

definition drop_CR :: "bytes \<Rightarrow> bytes" where
  "drop_CR line = (if line \<noteq> [] \<and> last line = CHR 0x0D then butlast line else line)"

definition raw_lines :: "bytes \<Rightarrow> bytes list" where
  "raw_lines content = (let ls = Split CHR 0x0A content in if last ls = [] then butlast ls else ls)"

definition scan_max :: "nat \<Rightarrow> bytes \<Rightarrow> bytes list \<times> bool" where
  "scan_max limit content =
     (let ls = raw_lines content; ok = takeWhile (\<lambda>l. length l < limit) ls
      in (map drop_CR ok, length ok < length ls))"

text \<open>The default buffer has 64 KB.\<close>

definition scan_file :: "bytes \<Rightarrow> bytes list \<times> bool" where
  "scan_file content = scan_max (64 * 1024) content"

definition lines_text :: "bytes list \<Rightarrow> bytes" where
  "lines_text ls = concat (map (\<lambda>l. l @ [CHR 0x0A]) ls)"

lemma lines_text_simps [simp]:
  "lines_text [] = []" "lines_text (l # ls) = l @ CHR 0x0A # lines_text ls" "lines_text (ls @ ms) = lines_text ls @ lines_text ms"
  by (simp_all add: lines_text_def)

lemma lines_text_Nil [simp]: "lines_text ls = [] \<longleftrightarrow> ls = []"
  by (cases ls) simp_all

lemma Split_lines_text: "\<forall>l \<in> set ls. CHR 0x0A \<notin> set l \<Longrightarrow> Split CHR 0x0A (lines_text ls @ s) = ls @ Split CHR 0x0A s"
  by (induction ls) (simp_all add: Split_append_sep Split_absent)

lemma raw_lines_text:
  "\<forall>l \<in> set ls. CHR 0x0A \<notin> set l \<Longrightarrow> CHR 0x0A \<notin> set s \<Longrightarrow> raw_lines (lines_text ls @ s) = (if s = [] then ls else ls @ [s])"
  by (simp add: raw_lines_def Split_lines_text Split_absent Let_def)

lemma lines_text_inj:
  assumes "lines_text ls = lines_text ms" and "\<forall>l \<in> set ls. CHR 0x0A \<notin> set l" and "\<forall>l \<in> set ms. CHR 0x0A \<notin> set l"
  shows "ls = ms"
  using raw_lines_text [OF assms(2), of "[]"] raw_lines_text [OF assms(3), of "[]"] assms(1) by simp

text \<open>A line a scanner gives back as it was written.\<close>

definition good_line :: "nat \<Rightarrow> bytes \<Rightarrow> bool" where
  "good_line limit l \<longleftrightarrow> CHR 0x0A \<notin> set l \<and> length l < limit \<and> (l = [] \<or> last l \<noteq> CHR 0x0D)"

lemma scan_max_text:
  assumes "\<forall>l \<in> set ls. good_line limit l"
  shows "scan_max limit (lines_text ls) = (ls, False)"
proof -
  have "raw_lines (lines_text ls) = ls"
    using raw_lines_text [of ls "[]"] assms by (simp add: good_line_def)
  moreover have "takeWhile (\<lambda>l. length l < limit) ls = ls" using assms by (simp add: takeWhile_eq_all_conv good_line_def)
  moreover have "map drop_CR ls = ls" using assms by (intro map_idI) (auto simp: drop_CR_def good_line_def)
  ultimately show ?thesis unfolding scan_max_def by (simp only: Let_def) simp
qed

lemma scan_max_lines: "l \<in> set (fst (scan_max limit content)) \<Longrightarrow> CHR 0x0A \<notin> set l \<and> length l < limit"
  by (auto simp: scan_max_def raw_lines_def Let_def drop_CR_def dest!: set_takeWhileD split: if_splits
      dest: in_set_butlastD Split_no_sep)

section \<open>White space\<close>

text \<open>\<open>unicode.IsSpace\<close>; \<open>strings.TrimSpace\<close>, \<open>strings.TrimRight(s, "\n")\<close>, \<open>strings.Fields\<close>.\<close>

definition IsSpace :: "int \<Rightarrow> bool" where
  "IsSpace r \<longleftrightarrow> (9 \<le> r \<and> r \<le> 13) \<or> r = 32 \<or> r = 0x85 \<or> r = 0xA0 \<or> r = 0x1680
     \<or> (0x2000 \<le> r \<and> r \<le> 0x200A) \<or> r = 0x2028 \<or> r = 0x2029 \<or> r = 0x202F \<or> r = 0x205F
     \<or> r = 0x3000"

definition trim_right_chunks :: "(chunk \<Rightarrow> bool) \<Rightarrow> chunk list \<Rightarrow> chunk list" where
  "trim_right_chunks P cs = rev (dropWhile P (rev cs))"

definition TrimSpace :: "bytes \<Rightarrow> bytes" where
  "TrimSpace s = bytes_of (trim_right_chunks (\<lambda>c. IsSpace (fst c))
                             (dropWhile (\<lambda>c. IsSpace (fst c)) (runes s)))"

definition TrimRight :: "bytes \<Rightarrow> char list \<Rightarrow> bytes" where
  "TrimRight s cutset = rev (dropWhile (\<lambda>c. c \<in> set cutset) (rev s))"

fun fields_of :: "chunk list \<Rightarrow> chunk list \<Rightarrow> bytes list" where
  "fields_of [] cur = (if cur = [] then [] else [bytes_of (rev cur)])"
| "fields_of (c # cs) cur =
     (if IsSpace (fst c)
      then (if cur = [] then fields_of cs [] else bytes_of (rev cur) # fields_of cs [])
      else fields_of cs (c # cur))"

definition Fields :: "bytes \<Rightarrow> bytes list" where
  "Fields s = fields_of (runes s) []"

section \<open>Decimal numbers\<close>

definition maxInt :: int where "maxInt = 2 ^ 63 - 1"
definition minInt :: int where "minInt = - (2 ^ 63)"

definition digit_val :: "char \<Rightarrow> int option" where
  "digit_val c = (if 48 \<le> code c \<and> code c \<le> 57 then Some (code c - 48) else None)"

datatype num_error = ErrSyntax | ErrRange

text \<open>
  \<open>strconv.Atoi\<close>: the value together with the error. The value that comes with an error is the one
  the function returns: 0 for a syntax error, the nearest 64-bit bound for an overflow.
\<close>

fun parse_uint :: "int \<Rightarrow> bytes \<Rightarrow> num_error + int" where
  "parse_uint n [] = Inr n"
| "parse_uint n (c # cs) =
     (case digit_val c of
        None \<Rightarrow> Inl ErrSyntax
      | Some d \<Rightarrow> if 10 * n + d > 2 ^ 64 - 1 then Inl ErrRange else parse_uint (10 * n + d) cs)"

definition Atoi :: "bytes \<Rightarrow> int \<times> num_error option" where
  "Atoi s =
     (let neg = (s \<noteq> [] \<and> hd s = CHR ''-'');
          ds = (if s \<noteq> [] \<and> (hd s = CHR ''-'' \<or> hd s = CHR ''+'') then tl s else s)
      in if ds = [] then (0, Some ErrSyntax)
         else (case parse_uint 0 ds of
                 Inl ErrSyntax \<Rightarrow> (0, Some ErrSyntax)
               | Inl ErrRange \<Rightarrow> (if neg then minInt else maxInt, Some ErrRange)
               | Inr n \<Rightarrow> if neg then (if n > 2 ^ 63 then (minInt, Some ErrRange) else (- n, None))
                          else (if n > maxInt then (maxInt, Some ErrRange) else (n, None))))"

text \<open>\<open>%d\<close>.\<close>

fun dec_nat :: "nat \<Rightarrow> bytes" where
  "dec_nat n = (if n < 10 then [char_of (48 + n)] else dec_nat (n div 10) @ [char_of (48 + n mod 10)])"

declare dec_nat.simps [simp del]

definition dec :: "int \<Rightarrow> bytes" where
  "dec n = (if n < 0 then CHR ''-'' # dec_nat (nat (- n)) else dec_nat (nat n))"

section \<open>Where runes can be cut\<close>

text \<open>A byte of ASCII never belongs to the decoding of the bytes before it.\<close>

lemma decode_rune_ascii_next:
  assumes "code d < 0x80"
  shows "decode_rune (c # cs @ d # t) = decode_rune (c # cs)"
proof -
  have no: "\<not> is_cont d" "\<not> second_ok b d" for b
    using assms by (auto simp: is_cont.simps second_ok.simps Let_def)
  show ?thesis
    using no by (cases cs; cases "tl cs"; cases "tl (tl cs)") (auto simp: decode_rune.simps(2) Let_def split: list.split)
qed

lemma runes_append_ascii: "code d < 0x80 \<Longrightarrow> runes (s @ d # t) = runes s @ runes (d # t)"
proof (induction s rule: runes_induct)
  case (Cons c cs)
  let ?w = "snd (decode_rune (c # cs))"
  have w: "?w \<le> length (c # cs)" using decode_rune_width [of "c # cs"] by simp
  have "runes ((c # cs) @ d # t) = (fst (decode_rune (c # cs)), take ?w (c # cs @ d # t))
      # runes (drop ?w (c # cs @ d # t))"
    by (simp only: append_Cons runes_Cons decode_rune_ascii_next [OF Cons.prems])
  also have "take ?w (c # cs @ d # t) = take ?w (c # cs)" using w take_append [of ?w "c # cs" "d # t"] by simp
  also have "drop ?w (c # cs @ d # t) = drop ?w (c # cs) @ d # t" using w drop_append [of ?w "c # cs" "d # t"] by simp
  finally show ?case using Cons.IH [OF Cons.prems] by (simp add: runes_Cons)
qed simp

lemma runes_snoc_ascii: "code d < 0x80 \<Longrightarrow> runes (s @ [d]) = runes s @ [(code d, [d])]"
  using runes_append_ascii [of d s "[]"] by (simp add: runes_ascii_Cons)

lemma decode_rune_ascii:
  assumes "decode_rune (c # cs) = (r, w)" and "r < 0x80"
  shows "r = code c \<and> w = 1"
  using assms(1)
proof (cases rule: decode_rune_cases)
  case (two c1 t)
  then show ?thesis using assms by (simp add: decode_rune.simps(2) Let_def is_cont.simps)
next
  case (three c1 c2 t)
  then show ?thesis using assms
    by (simp add: decode_rune.simps(2) Let_def is_cont.simps second_ok.simps split: if_split_asm)
next
  case (four c1 c2 c3 t)
  then show ?thesis using assms
    by (simp add: decode_rune.simps(2) Let_def is_cont.simps second_ok.simps split: if_split_asm)
next
  case bad
  with assms(2) show ?thesis by (simp add: runeError_def)
qed simp

lemma runes_ascii_chunk:
  "c \<in> set (runes s) \<Longrightarrow> fst c < 0x80 \<Longrightarrow> \<exists>b \<in> set s. c = (code b, [b])"
proof (induction s rule: runes_induct)
  case (Cons a s)
  let ?r = "fst (decode_rune (a # s))" and ?w = "snd (decode_rune (a # s))"
  from Cons.prems(1) consider "c = (?r, take ?w (a # s))" | "c \<in> set (runes (drop ?w (a # s)))"
    by (auto simp: runes_Cons)
  then show ?case
  proof cases
    case 1
    then have "?r = code a \<and> ?w = 1" using decode_rune_ascii [of a s ?r ?w] Cons.prems(2) by simp
    with 1 show ?thesis by simp
  next
    case 2
    then show ?thesis using Cons.IH [OF 2 Cons.prems(2)] by (meson in_set_dropD)
  qed
qed simp

lemma TrimSpace_word_newline:
  assumes "code c < 0x80" "\<not> IsSpace (code c)" "code d < 0x80" "\<not> IsSpace (code d)"
  shows "TrimSpace (c # s @ d # [CHR 0x0A]) = c # s @ [d]"
    and "TrimSpace (c # s @ [d]) = c # s @ [d]"
proof -
  have r: "runes (c # s @ [d]) = (code c, [c]) # runes s @ [(code d, [d])]"
    using assms(1,3) by (simp add: runes_ascii_Cons runes_snoc_ascii)
  have rn: "runes (c # s @ d # [CHR 0x0A]) = runes (c # s @ [d]) @ [(10, [CHR 0x0A])]"
    using runes_snoc_ascii [of "CHR 0x0A" "c # s @ [d]"] by simp
  have sp: "IsSpace 10" by (simp add: IsSpace_def)
  show "TrimSpace (c # s @ [d]) = c # s @ [d]"
    unfolding TrimSpace_def trim_right_chunks_def r using assms by simp
  show "TrimSpace (c # s @ d # [CHR 0x0A]) = c # s @ [d]"
    unfolding TrimSpace_def trim_right_chunks_def rn r using assms sp by simp
qed

text \<open>\<open>strings.LastIndex(s, sub)\<close>; \<open>None\<close> is the result -1.\<close>

fun LastIndex :: "bytes \<Rightarrow> bytes \<Rightarrow> nat option" where
  "LastIndex [] sub = (if sub = [] then Some 0 else None)"
| "LastIndex (c # s) sub =
     (case LastIndex s sub of
        Some i \<Rightarrow> Some (Suc i)
      | None \<Rightarrow> if HasPrefix (c # s) sub then Some 0 else None)"

lemma LastIndex_append: "LastIndex t sub = Some i \<Longrightarrow> LastIndex (s @ t) sub = Some (length s + i)"
  by (induction s) simp_all

lemma TrimRight_id: "s = [] \<or> last s \<notin> set cs \<Longrightarrow> TrimRight s cs = s"
  by (cases s rule: rev_cases) (simp_all add: TrimRight_def)

lemma TrimRight_append: "set t \<subseteq> set cs \<Longrightarrow> s = [] \<or> last s \<notin> set cs \<Longrightarrow> TrimRight (s @ t) cs = s"
  by (cases s rule: rev_cases) (auto simp: TrimRight_def dropWhile_append)


end
