(* ===== verification/Ring_Buffer.thy ===== *)
theory Ring_Buffer
  imports Go_Strings
begin

text \<open>
  \<open>internal/buffer/ring.go\<close> and \<open>internal/buffer/config.go\<close>: the circular byte buffer that
  holds a session's output, its cursors, and the size chosen from the environment.

  Every method body runs under the mutex, so it is one function of the buffer's state; a run-time panic
  (an index out of range, a division by a zero size) is \<open>None\<close>. The notification channel of
  capacity one is the boolean \<open>rb_notify\<close>. \<open>holds h rb\<close> is the abstraction: \<open>h\<close> is
  everything ever written, of which the buffer still has the last \<open>rb_size\<close> bytes.
\<close>

section \<open>State and operations\<close>

record ring_buffer =
  rb_buf :: bytes
  rb_size :: int
  rb_head :: int
  rb_written :: int
  rb_mark :: int
  rb_notify :: bool

definition NewRingBuffer :: "int \<Rightarrow> ring_buffer option" where
  "NewRingBuffer sz =
     (if sz < 0 then None
      else Some \<lparr>rb_buf = replicate (nat sz) (CHR 0x00), rb_size = sz, rb_head = 0, rb_written = 0,
                 rb_mark = 0, rb_notify = False\<rparr>)"

definition rb_put :: "ring_buffer \<Rightarrow> char \<Rightarrow> ring_buffer option" where
  "rb_put rb b =
     do { buf' \<leftarrow> go_store (rb_buf rb) (rb_head rb) b;
          head' \<leftarrow> go_mod (rb_head rb + 1) (rb_size rb);
          Some (rb\<lparr>rb_buf := buf', rb_head := head', rb_written := rb_written rb + 1\<rparr>) }"

fun rb_put_all :: "ring_buffer \<Rightarrow> bytes \<Rightarrow> ring_buffer option" where
  "rb_put_all rb [] = Some rb"
| "rb_put_all rb (b # p) = do { rb' \<leftarrow> rb_put rb b; rb_put_all rb' p }"

definition Write :: "ring_buffer \<Rightarrow> bytes \<Rightarrow> (ring_buffer \<times> int) option" where
  "Write rb p = do { rb' \<leftarrow> rb_put_all rb p; Some (rb'\<lparr>rb_notify := True\<rparr>, int (length p)) }"

definition Snapshot :: "ring_buffer \<Rightarrow> int" where
  "Snapshot rb = rb_written rb"

definition IsTruncated :: "ring_buffer \<Rightarrow> int \<Rightarrow> bool" where
  "IsTruncated rb snapshot = (snapshot < rb_written rb - rb_size rb)"

definition rb_available :: "ring_buffer \<Rightarrow> int" where
  "rb_available rb = (if rb_written rb > rb_size rb then rb_size rb else rb_written rb)"

text \<open>
  The copy loop shared by the readers: \<open>count\<close> bytes from \<open>back\<close> bytes behind the head,
  \<open>start := (head - back + size*2) % size\<close>, then \<open>out[i] = buf[(start+i) % size]\<close>.
\<close>

definition rb_copy :: "ring_buffer \<Rightarrow> int \<Rightarrow> int \<Rightarrow> bytes option" where
  "rb_copy rb back count =
     do { start \<leftarrow> go_mod (rb_head rb - back + rb_size rb * 2) (rb_size rb);
          collect (\<lambda>i. do { j \<leftarrow> go_mod (start + int i) (rb_size rb); go_index (rb_buf rb) j })
            [0..<nat count] }"

definition ReadSinceMax :: "ring_buffer \<Rightarrow> int \<Rightarrow> int \<Rightarrow> (bytes \<times> int \<times> bool) option" where
  "ReadSinceMax rb snapshot maxBytes =
     (let oldest = rb_written rb - rb_available rb;
          s1 = (if snapshot < oldest then oldest else snapshot);
          s2 = (if s1 > rb_written rb then rb_written rb else s1);
          count = rb_written rb - s2
      in if count \<le> 0 then Some ([], s2, False)
         else
           let c1 = (if count > rb_size rb then rb_size rb else count);
               hasMore = (maxBytes > 0 \<and> c1 > maxBytes);
               c2 = (if hasMore then maxBytes else c1)
           in do { out \<leftarrow> rb_copy rb (rb_written rb - s2) c2;
                   Some (out, s2 + c2, hasMore) })"

definition ReadSince :: "ring_buffer \<Rightarrow> int \<Rightarrow> bytes option" where
  "ReadSince rb snapshot =
     (let oldest = rb_written rb - rb_available rb;
          s1 = (if snapshot < oldest then oldest else snapshot);
          count = rb_written rb - s1
      in if count \<le> 0 then Some []
         else let c1 = (if count > rb_size rb then rb_size rb else count) in rb_copy rb c1 c1)"

definition rb_String :: "ring_buffer \<Rightarrow> bytes option" where
  "rb_String rb =
     (let available = rb_available rb
      in if available = 0 then Some [] else rb_copy rb available available)"

definition Since :: "ring_buffer \<Rightarrow> bytes option" where
  "Since rb = ReadSince rb (rb_mark rb)"

definition MarkSnapshot :: "ring_buffer \<Rightarrow> int" where
  "MarkSnapshot rb = rb_mark rb"

definition Mark :: "ring_buffer \<Rightarrow> ring_buffer" where
  "Mark rb = rb\<lparr>rb_mark := rb_written rb\<rparr>"

definition AdvanceMarkBy :: "ring_buffer \<Rightarrow> int \<Rightarrow> ring_buffer" where
  "AdvanceMarkBy rb n =
     (let m = rb_mark rb + n in rb\<lparr>rb_mark := (if m > rb_written rb then rb_written rb else m)\<rparr>)"

text \<open>
  \<open>Wait\<close> is a \<open>select\<close> between the notification and the context: \<open>None\<close> while neither is
  ready, and when both are ready either branch may run, which \<open>pick\<close> decides.
\<close>

definition Wait :: "ring_buffer \<Rightarrow> bool \<Rightarrow> bool \<Rightarrow> (bool \<times> ring_buffer) option" where
  "Wait rb ctxDone pick =
     (if rb_notify rb \<and> (\<not> ctxDone \<or> pick) then Some (True, rb\<lparr>rb_notify := False\<rparr>)
      else if ctxDone then Some (False, rb) else None)"

definition Tail :: "ring_buffer \<Rightarrow> int \<Rightarrow> bytes list option" where
  "Tail rb n =
     do { content \<leftarrow> rb_String rb;
          let parts = Split (CHR 0x0A) content;
          let parts = (if parts \<noteq> [] \<and> last parts = [] then butlast parts else parts);
          if int (length parts) \<le> n then Some parts
          else go_slice parts (int (length parts) - n) (int (length parts)) }"

subsection \<open>The size chosen from the environment\<close>

definition DefaultBufferSize :: int where "DefaultBufferSize = 1024 * 1024"
definition MinBufferSize :: int where "MinBufferSize = 64 * 1024"
definition MaxBufferSize :: int where "MaxBufferSize = 32 * 1024 * 1024"

text \<open>\<open>val\<close> is what \<open>os.Getenv("PTY_MCP_BUFFER_SIZE")\<close> returns.\<close>

definition BufferSizeFromEnv :: "bytes \<Rightarrow> int" where
  "BufferSizeFromEnv val =
     (if val = [] then DefaultBufferSize
      else case Atoi val of
        (_, Some _) \<Rightarrow> DefaultBufferSize
      | (sz, None) \<Rightarrow>
          if sz < MinBufferSize then MinBufferSize
          else if sz > MaxBufferSize then MaxBufferSize else sz)"

lemmas ring_ops = Snapshot_def IsTruncated_def MarkSnapshot_def Mark_def AdvanceMarkBy_def Since_def

section \<open>The abstraction to the written history\<close>

definition rb_wf :: "ring_buffer \<Rightarrow> bool" where
  "rb_wf rb \<longleftrightarrow> 0 < rb_size rb \<and> int (length (rb_buf rb)) = rb_size rb
     \<and> 0 \<le> rb_written rb \<and> rb_head rb = rb_written rb mod rb_size rb
     \<and> 0 \<le> rb_mark rb \<and> rb_mark rb \<le> rb_written rb"

definition holds :: "bytes \<Rightarrow> ring_buffer \<Rightarrow> bool" where
  "holds h rb \<longleftrightarrow> rb_wf rb \<and> rb_written rb = int (length h)
     \<and> (\<forall>i < length h. length h \<le> i + length (rb_buf rb)
          \<longrightarrow> rb_buf rb ! (i mod length (rb_buf rb)) = h ! i)"

lemma holds_wf: "holds h rb \<Longrightarrow> rb_wf rb"
  by (simp add: holds_def)

lemma holds_written: "holds h rb \<Longrightarrow> rb_written rb = int (length h)"
  by (simp add: holds_def)

lemma rb_wf_size: "rb_wf rb \<Longrightarrow> rb_size rb = int (length (rb_buf rb)) \<and> 0 < length (rb_buf rb)"
  by (auto simp: rb_wf_def)

lemma rb_wf_head: "rb_wf rb \<Longrightarrow> 0 \<le> rb_head rb \<and> rb_head rb < rb_size rb"
  by (simp add: rb_wf_def)

lemma NewRingBuffer_holds:
  "0 < sz \<Longrightarrow> \<exists>rb. NewRingBuffer sz = Some rb \<and> holds [] rb \<and> rb_size rb = sz \<and> rb_mark rb = 0"
  by (simp add: NewRingBuffer_def holds_def rb_wf_def)

text \<open>One byte: the store hits the oldest cell, every cell still promised keeps its byte.\<close>

lemma rb_put_holds:
  assumes "holds h rb"
  shows "\<exists>rb'. rb_put rb b = Some rb' \<and> holds (h @ [b]) rb'
           \<and> rb_size rb' = rb_size rb \<and> rb_mark rb' = rb_mark rb"
proof -
  let ?n = "length (rb_buf rb)" and ?w = "length h"
  have wf: "rb_wf rb" and w: "rb_written rb = int ?w" using assms by (simp_all add: holds_def)
  have sz: "rb_size rb = int ?n" "0 < ?n" using rb_wf_size [OF wf] by simp_all
  have hd: "rb_head rb = int (?w mod ?n)" using wf w sz by (simp add: rb_wf_def zmod_int)
  let ?rb = "rb\<lparr>rb_buf := (rb_buf rb)[?w mod ?n := b], rb_head := (rb_head rb + 1) mod rb_size rb,
               rb_written := rb_written rb + 1\<rparr>"
  have put: "rb_put rb b = Some ?rb"
    using sz by (simp add: rb_put_def hd go_store_def go_mod_pos)
  have cell: "(rb_buf rb)[?w mod ?n := b] ! (i mod ?n) = (h @ [b]) ! i"
    if i: "i < Suc ?w" "Suc ?w \<le> i + ?n" for i
  proof (cases "i = ?w")
    case True
    with sz show ?thesis by simp
  next
    case False
    with i have lt: "i < ?w" "?w \<le> i + ?n" "?w - i < ?n" by auto
    have "i mod ?n \<noteq> ?w mod ?n"
    proof
      assume "i mod ?n = ?w mod ?n"
      then have "?n dvd ?w - i" using lt(1) by (metis mod_eq_dvd_iff_nat less_imp_le)
      with lt show False by (auto dest: dvd_imp_le)
    qed
    moreover have "rb_buf rb ! (i mod ?n) = h ! i" using assms lt by (simp add: holds_def)
    ultimately show ?thesis using lt by (simp add: nth_append)
  qed
  have "holds (h @ [b]) ?rb"
    using wf w sz cell by (simp add: holds_def rb_wf_def hd mod_add_left_eq zmod_int)
  with put show ?thesis by simp
qed

lemma rb_put_all_holds:
  "holds h rb \<Longrightarrow> \<exists>rb'. rb_put_all rb p = Some rb' \<and> holds (h @ p) rb'
     \<and> rb_size rb' = rb_size rb \<and> rb_mark rb' = rb_mark rb"
proof (induction p arbitrary: h rb)
  case (Cons b p)
  obtain rb1 where 1: "rb_put rb b = Some rb1" "holds (h @ [b]) rb1"
      "rb_size rb1 = rb_size rb" "rb_mark rb1 = rb_mark rb"
    using rb_put_holds [OF Cons.prems] by blast
  from Cons.IH [OF 1(2)] 1 show ?case by simp
qed simp

lemma Write_holds:
  assumes "holds h rb"
  obtains rb' where "Write rb p = Some (rb', int (length p))" "holds (h @ p) rb'"
    "rb_size rb' = rb_size rb" "rb_mark rb' = rb_mark rb" "rb_notify rb'"
proof -
  obtain rb1 where 1: "rb_put_all rb p = Some rb1" "holds (h @ p) rb1"
      "rb_size rb1 = rb_size rb" "rb_mark rb1 = rb_mark rb"
    using rb_put_all_holds [OF assms] by blast
  show thesis
    by (rule that [of "rb1\<lparr>rb_notify := True\<rparr>"])
      (use 1 in \<open>simp_all add: Write_def holds_def rb_wf_def\<close>)
qed

section \<open>Reading\<close>

lemma rb_available_nonneg: "rb_wf rb \<Longrightarrow> 0 \<le> rb_available rb \<and> rb_available rb \<le> rb_size rb"
  by (auto simp: rb_available_def rb_wf_def)

text \<open>The copy loop never indexes out of range and returns the bytes of the history.\<close>

lemma rb_copy_holds:
  assumes "holds h rb" and "0 \<le> count" and "count \<le> back" and "back \<le> rb_available rb"
  shows "rb_copy rb back count = Some (take (nat count) (drop (length h - nat back) h))"
proof -
  let ?n = "length (rb_buf rb)" and ?w = "length h"
  have wf: "rb_wf rb" and w: "rb_written rb = int ?w" using assms(1) by (simp_all add: holds_def)
  have sz: "rb_size rb = int ?n" "0 < ?n" using rb_wf_size [OF wf] by simp_all
  obtain bk where bk: "back = int bk" using assms(2,3) by (metis nonneg_int_cases order_trans)
  obtain ct where ct: "count = int ct" using assms(2) by (metis nonneg_int_cases)
  have le: "bk \<le> ?w" "bk \<le> ?n" "ct \<le> bk"
    using assms(3,4) w sz by (auto simp: rb_available_def bk ct split: if_splits)
  have hd: "rb_head rb = int ?w mod int ?n" using wf w sz by (simp add: rb_wf_def)
  define start where "start = (rb_head rb - back + rb_size rb * 2) mod rb_size rb"
  have start: "go_mod (rb_head rb - back + rb_size rb * 2) (rb_size rb) = Some start"
    unfolding start_def using rb_wf_head [OF wf] le sz by (intro go_mod_pos) (auto simp: bk)
  have start_eq: "start = (int ?w - int bk) mod int ?n"
    by (simp add: start_def hd sz bk mod_diff_left_eq)
  have start_nn: "0 \<le> start" using sz by (simp add: start_eq)
  have cell: "(do { j \<leftarrow> go_mod (start + int i) (rb_size rb); go_index (rb_buf rb) j })
      = Some (h ! (?w - bk + i))" if i: "i < ct" for i
  proof -
    have "(start + int i) mod int ?n = ((int ?w - int bk) + int i) mod int ?n"
      by (simp add: start_eq mod_add_left_eq)
    also have "(int ?w - int bk) + int i = int (?w - bk + i)" using le by simp
    finally have "(start + int i) mod int ?n = int ((?w - bk + i) mod ?n)" by (simp add: zmod_int)
    then have "go_mod (start + int i) (rb_size rb) = Some (int ((?w - bk + i) mod ?n))"
      using start_nn sz by (simp add: go_mod_pos)
    moreover have "rb_buf rb ! ((?w - bk + i) mod ?n) = h ! (?w - bk + i)"
      using assms(1) i le by (simp add: holds_def)
    ultimately show ?thesis using sz by (simp add: go_index_def)
  qed
  have "collect (\<lambda>i. do { j \<leftarrow> go_mod (start + int i) (rb_size rb); go_index (rb_buf rb) j }) [0..<ct]
      = Some (map (\<lambda>i. h ! (?w - bk + i)) [0..<ct])"
    by (rule collect_Some_map) (use cell in auto)
  moreover have "take ct (drop (?w - bk) h) = map (\<lambda>i. h ! (?w - bk + i)) [0..<ct]"
    using le by (intro drop_take_eq_map_nth) simp
  ultimately show ?thesis by (simp add: rb_copy_def start [unfolded bk] bk ct)
qed

text \<open>The oldest position still readable, and a cursor clamped to the readable range.\<close>

definition rb_oldest :: "ring_buffer \<Rightarrow> int" where
  "rb_oldest rb = max 0 (rb_written rb - rb_size rb)"

definition rb_clamp :: "ring_buffer \<Rightarrow> int \<Rightarrow> int" where
  "rb_clamp rb s = min (max s (rb_oldest rb)) (rb_written rb)"

lemma rb_oldest_eq: "rb_wf rb \<Longrightarrow> rb_written rb - rb_available rb = rb_oldest rb"
  by (auto simp: rb_oldest_def rb_available_def rb_wf_def)

lemma rb_oldest_bounds: "rb_wf rb \<Longrightarrow> 0 \<le> rb_oldest rb \<and> rb_oldest rb \<le> rb_written rb
    \<and> rb_written rb - rb_oldest rb \<le> rb_size rb"
  by (auto simp: rb_oldest_def rb_wf_def)

lemma rb_clamp_bounds:
  "rb_wf rb \<Longrightarrow> rb_oldest rb \<le> rb_clamp rb s \<and> rb_clamp rb s \<le> rb_written rb \<and> 0 \<le> rb_clamp rb s"
  using rb_oldest_bounds [of rb] by (auto simp: rb_clamp_def)

lemma rb_clamp_id: "rb_oldest rb \<le> s \<Longrightarrow> s \<le> rb_written rb \<Longrightarrow> rb_clamp rb s = s"
  by (simp add: rb_clamp_def)

text \<open>The readers in terms of the clamped cursor, whatever the buffer holds.\<close>

lemma ReadSince_clamp:
  "rb_wf rb \<Longrightarrow> ReadSince rb s =
     (let k = rb_written rb - rb_clamp rb s in if k = 0 then Some [] else rb_copy rb k k)"
  by (auto simp: ReadSince_def rb_available_def rb_clamp_def rb_oldest_def rb_wf_def Let_def)

lemma ReadSinceMax_clamp:
  "rb_wf rb \<Longrightarrow> ReadSinceMax rb s m =
     (let c = rb_clamp rb s; k = rb_written rb - c; more = (0 < m \<and> m < k);
          n = (if more then m else k)
      in if k = 0 then Some ([], c, False)
         else do { out \<leftarrow> rb_copy rb k n; Some (out, c + n, more) })"
  by (auto simp: ReadSinceMax_def rb_available_def rb_clamp_def rb_oldest_def rb_wf_def Let_def)

lemma rb_String_oldest:
  "rb_wf rb \<Longrightarrow> rb_String rb =
     (let k = rb_written rb - rb_oldest rb in if k = 0 then Some [] else rb_copy rb k k)"
  by (auto simp: rb_String_def rb_available_def rb_oldest_def rb_wf_def Let_def)

lemma rb_copy_cursor:
  assumes "holds h rb" and "rb_oldest rb \<le> c" and "c \<le> rb_written rb"
    and "0 \<le> n" and "n \<le> rb_written rb - c"
  shows "rb_copy rb (rb_written rb - c) n = Some (take (nat n) (drop (nat c) h))"
proof -
  have wf: "rb_wf rb" and w: "rb_written rb = int (length h)" using assms(1) by (simp_all add: holds_def)
  have c0: "0 \<le> c" using assms(2) rb_oldest_bounds [OF wf] by simp
  have "rb_written rb - c \<le> rb_available rb" using assms(2) rb_oldest_eq [OF wf] by simp
  moreover have "length h - nat (rb_written rb - c) = nat c" using w c0 assms(3) by simp
  ultimately show ?thesis using rb_copy_holds [OF assms(1,4,5)] by simp
qed

lemma ReadSince_holds:
  assumes "holds h rb"
  shows "ReadSince rb s = Some (drop (nat (rb_clamp rb s)) h)"
proof -
  have wf: "rb_wf rb" and w: "rb_written rb = int (length h)" using assms by (simp_all add: holds_def)
  note c = rb_clamp_bounds [OF wf, of s]
  show ?thesis
    using c w rb_copy_cursor [OF assms, of "rb_clamp rb s" "rb_written rb - rb_clamp rb s"]
    by (auto simp: ReadSince_clamp [OF wf] Let_def)
qed

lemma ReadSinceMax_holds:
  assumes "holds h rb"
  shows "ReadSinceMax rb s m =
    (let c = rb_clamp rb s; rest = drop (nat c) h
     in if 0 < m \<and> m < int (length rest) then Some (take (nat m) rest, c + m, True)
        else Some (rest, int (length h), False))"
proof -
  have wf: "rb_wf rb" and w: "rb_written rb = int (length h)" using assms by (simp_all add: holds_def)
  let ?c = "rb_clamp rb s"
  note c = rb_clamp_bounds [OF wf, of s]
  have len: "int (length (drop (nat ?c) h)) = rb_written rb - ?c" using c w by auto
  have all: "rb_copy rb (rb_written rb - ?c) (rb_written rb - ?c) = Some (drop (nat ?c) h)"
    using c len rb_copy_cursor [OF assms, of ?c "rb_written rb - ?c"] by simp
  show ?thesis
    using c w all rb_copy_cursor [OF assms, of ?c m]
    by (auto simp: ReadSinceMax_clamp [OF wf] Let_def len simp del: length_drop)
qed

lemma rb_String_holds:
  assumes "holds h rb"
  shows "rb_String rb = Some (drop (nat (rb_oldest rb)) h)"
proof -
  have wf: "rb_wf rb" and w: "rb_written rb = int (length h)" using assms by (simp_all add: holds_def)
  note c = rb_oldest_bounds [OF wf]
  show ?thesis
    using c w rb_copy_cursor [OF assms, of "rb_oldest rb" "rb_written rb - rb_oldest rb"]
    by (auto simp: rb_String_oldest [OF wf] Let_def)
qed

section \<open>The interface the readers rely on\<close>

text \<open>
  What a reader of session output may assume of the log it reads: writes append to the history, a read
  from a cursor that has not been overrun returns everything after it, and an overrun is reported.
\<close>

locale output_log =
  fixes hist :: "bytes \<Rightarrow> 'b \<Rightarrow> bool"
    and put :: "'b \<Rightarrow> bytes \<Rightarrow> 'b option"
    and read :: "'b \<Rightarrow> int \<Rightarrow> bytes option"
    and top :: "'b \<Rightarrow> int"
    and lost :: "'b \<Rightarrow> int \<Rightarrow> bool"
    and cap :: "'b \<Rightarrow> int"
  assumes put_hist: "hist h b \<Longrightarrow> \<exists>b'. put b p = Some b' \<and> hist (h @ p) b' \<and> cap b' = cap b"
    and top_hist: "hist h b \<Longrightarrow> top b = int (length h)"
    and lost_iff: "hist h b \<Longrightarrow> lost b s \<longleftrightarrow> s < int (length h) - cap b"
    and read_kept: "hist h b \<Longrightarrow> 0 \<le> s \<Longrightarrow> s \<le> top b \<Longrightarrow> \<not> lost b s \<Longrightarrow> read b s = Some (drop (nat s) h)"
    and read_lost: "hist h b \<Longrightarrow> lost b s \<Longrightarrow> 0 \<le> s \<Longrightarrow> read b s = Some (last_n (nat (cap b)) h)"
begin

text \<open>Reading from the top of the log after a write that fits returns exactly what was written.\<close>

lemma read_fresh:
  assumes "hist h b" and "put b p = Some b'" and "int (length p) \<le> cap b"
  shows "read b' (top b) = Some p" and "hist (h @ p) b'" and "\<not> lost b' (top b)"
proof -
  from put_hist [OF assms(1), of p] assms(2) have h': "hist (h @ p) b'" "cap b' = cap b" by auto
  then show "hist (h @ p) b'" by simp
  show nl: "\<not> lost b' (top b)" using h' assms(3) by (simp add: lost_iff top_hist [OF assms(1)])
  have "read b' (top b) = Some (drop (nat (top b)) (h @ p))"
    by (rule read_kept) (use h' nl assms(1) in \<open>simp_all add: top_hist\<close>)
  then show "read b' (top b) = Some p" by (simp add: top_hist [OF assms(1)])
qed

text \<open>A reader that takes its next cursor from \<open>top\<close> skips what was written after its read.\<close>

lemma read_then_top_skips:
  assumes "hist h b" and "put b p = Some b'" and "0 \<le> s" and "s \<le> top b" and "\<not> lost b s"
  shows "read b s = Some (drop (nat s) h)" and "read b' (top b') = Some []"
proof -
  show "read b s = Some (drop (nat s) h)" by (rule read_kept [OF assms(1,3,4,5)])
  from put_hist [OF assms(1), of p] assms(2) have h': "hist (h @ p) b'" by auto
  then have t: "top b' = int (length (h @ p))" by (rule top_hist)
  show "read b' (top b') = Some []"
  proof (cases "lost b' (top b')")
    case True
    then have "cap b' < 0" using lost_iff [OF h'] t by simp
    then show ?thesis using read_lost [OF h' True] t by (simp add: last_n_def)
  next
    case False
    then show ?thesis using read_kept [OF h', of "top b'"] t by simp
  qed
qed

lemma read_never_fails: "hist h b \<Longrightarrow> 0 \<le> s \<Longrightarrow> s \<le> top b \<Longrightarrow> \<exists>out. read b s = Some out \<and> suffix out h"
  using read_kept read_lost suffix_last_n suffix_drop by (cases "lost b s") blast+

end

text \<open>A log with a mark: the position up to which the session's default reads have consumed it.\<close>

locale marked_log = output_log +
  fixes mark :: "'b \<Rightarrow> int" and advance :: "'b \<Rightarrow> int \<Rightarrow> 'b"
  assumes mark_range: "hist h b \<Longrightarrow> 0 \<le> mark b \<and> mark b \<le> top b"
    and put_mark: "put b p = Some b' \<Longrightarrow> hist h b \<Longrightarrow> mark b' = mark b"
    and advance_hist: "hist h b \<Longrightarrow> 0 \<le> n \<Longrightarrow> hist h (advance b n) \<and> cap (advance b n) = cap b"
    and advance_mark: "hist h b \<Longrightarrow> 0 \<le> n \<Longrightarrow> mark (advance b n) = min (mark b + n) (top b)"
begin

text \<open>
  Advancing by what was read consumes exactly that: bytes written between the read and the advance are
  all there for the next read.
\<close>

lemma advance_keeps_racing_write:
  assumes h: "hist h b" and r: "read b (mark b) = Some out" and nl: "\<not> lost b (mark b)"
    and w: "put b p = Some b'" and fit: "int (length p) \<le> cap b"
  shows "read (advance b' (int (length out))) (mark (advance b' (int (length out)))) = Some p"
proof -
  from put_hist [OF h, of p] w have h': "hist (h @ p) b'" and c': "cap b' = cap b" by auto
  have m: "0 \<le> mark b" "mark b \<le> int (length h)" using mark_range [OF h] top_hist [OF h] by auto
  have out: "out = drop (nat (mark b)) h"
    using r read_kept [OF h m(1) _ nl] m top_hist [OF h] by simp
  let ?a = "advance b' (int (length out))"
  have a: "hist (h @ p) ?a" "cap ?a = cap b" using advance_hist [OF h'] c' by simp_all
  have am: "mark ?a = int (length h)"
    using advance_mark [OF h', of "int (length out)"] put_mark [OF w h] m top_hist [OF h']
    by (simp add: out)
  have "\<not> lost ?a (mark ?a)" using a fit by (simp add: lost_iff am)
  then have "read ?a (mark ?a) = Some (drop (nat (mark ?a)) (h @ p))"
    using read_kept [OF a(1)] am top_hist [OF a(1)] by simp
  then show ?thesis by (simp add: am)
qed

end

text \<open>The ring buffer provides both.\<close>

definition rb_write :: "ring_buffer \<Rightarrow> bytes \<Rightarrow> ring_buffer option" where
  "rb_write rb p = map_option fst (Write rb p)"

lemma rb_write_holds:
  assumes "holds h rb"
  shows "\<exists>rb'. rb_write rb p = Some rb' \<and> holds (h @ p) rb' \<and> rb_size rb' = rb_size rb
     \<and> rb_mark rb' = rb_mark rb"
  by (rule Write_holds [OF assms, of p]) (simp add: rb_write_def)

interpretation ring: marked_log holds rb_write ReadSince Snapshot IsTruncated rb_size rb_mark AdvanceMarkBy
proof unfold_locales
  fix h b s
  assume h: "holds h b"
  show "Snapshot b = int (length h)" using h by (simp add: Snapshot_def holds_def)
  show "IsTruncated b s \<longleftrightarrow> s < int (length h) - rb_size b" using h by (simp add: IsTruncated_def holds_def)
  show "ReadSince b s = Some (drop (nat s) h)" if "0 \<le> s" "s \<le> Snapshot b" "\<not> IsTruncated b s"
    using that h by (simp add: ReadSince_holds rb_clamp_def rb_oldest_def IsTruncated_def Snapshot_def)
  show "ReadSince b s = Some (last_n (nat (rb_size b)) h)" if "IsTruncated b s" "0 \<le> s"
  proof -
    have "rb_clamp b s = rb_written b - rb_size b"
      using that h holds_wf [OF h] by (auto simp: rb_clamp_def rb_oldest_def IsTruncated_def rb_wf_def)
    moreover have "nat (rb_written b - rb_size b) = length h - nat (rb_size b)"
      using holds_written [OF h] holds_wf [OF h] by (simp add: rb_wf_def nat_diff_distrib')
    ultimately show ?thesis using ReadSince_holds [OF h, of s] by (simp add: last_n_def)
  qed
  show "0 \<le> rb_mark b \<and> rb_mark b \<le> Snapshot b" using holds_wf [OF h] by (simp add: rb_wf_def Snapshot_def)
next
  fix h b p show "holds h b \<Longrightarrow> \<exists>b'. rb_write b p = Some b' \<and> holds (h @ p) b' \<and> rb_size b' = rb_size b"
    using rb_write_holds by blast
next
  fix h b p b' show "rb_write b p = Some b' \<Longrightarrow> holds h b \<Longrightarrow> rb_mark b' = rb_mark b"
    by (drule rb_write_holds [of h b p]) auto
next
  fix h b n assume h: "holds h b" and n: "0 \<le> (n::int)"
  show "holds h (AdvanceMarkBy b n) \<and> rb_size (AdvanceMarkBy b n) = rb_size b"
    using h n by (auto simp: holds_def rb_wf_def AdvanceMarkBy_def Let_def)
  show "rb_mark (AdvanceMarkBy b n) = min (rb_mark b + n) (Snapshot b)"
    by (simp add: AdvanceMarkBy_def Let_def Snapshot_def)
qed

lemma BufferSizeFromEnv_bounds:
  "MinBufferSize \<le> BufferSizeFromEnv val \<and> BufferSizeFromEnv val \<le> MaxBufferSize"
  by (auto simp: BufferSizeFromEnv_def MinBufferSize_def MaxBufferSize_def DefaultBufferSize_def
      split: option.split prod.split)

lemma BufferSizeFromEnv_new: "\<exists>rb. NewRingBuffer (BufferSizeFromEnv val) = Some rb \<and> holds [] rb"
  using NewRingBuffer_holds [of "BufferSizeFromEnv val"] BufferSizeFromEnv_bounds [of val]
  by (auto simp: MinBufferSize_def)

lemma Mark_holds [wf_intros]: "holds h rb \<Longrightarrow> holds h (Mark rb)"
  by (simp add: holds_def rb_wf_def Mark_def)

section \<open>Properties of the buffer\<close>

text \<open>C1. Writing through the circular array refines appending to the written history: from any
  buffer that holds \<open>h\<close>, \<open>Write\<close> never panics, reports the number of bytes it was given,
  leaves the mark alone, signals the readers, and the buffer then holds \<open>h\<close> followed by the new bytes.\<close>

theorem Write_refines_append:
  assumes "holds h rb"
  shows "\<exists>rb'. Write rb p = Some (rb', int (length p)) \<and> holds (h @ p) rb'
           \<and> rb_size rb' = rb_size rb \<and> rb_mark rb' = rb_mark rb \<and> rb_notify rb'"
  by (rule Write_holds [OF assms, of p]) blast

definition rb_sample :: ring_buffer where
  "rb_sample = \<lparr>rb_buf = ''eabcd'', rb_size = 5, rb_head = 1, rb_written = 11, rb_mark = 9,
                rb_notify = True\<rparr>"

lemma holds_sample: "holds ''XXXXXXabcde'' rb_sample"
  by code_simp

lemma Write_refines_append_witness:
  "\<exists>rb'. Write rb_sample ''fghijkl'' = Some (rb', 7) \<and> holds ''XXXXXXabcdefghijkl'' rb'
     \<and> rb_size rb' = 5 \<and> rb_mark rb' = 9 \<and> rb_notify rb'"
  using Write_refines_append [OF holds_sample, of "''fghijkl''"] by (simp add: rb_sample_def)

text \<open>C15. An incremental read is exact: for every cursor (stale, negative or in the future) and
  every limit, \<open>ReadSinceMax\<close> does not panic, returns the retained history after the clamped cursor
  cut at the limit, moves the cursor by what it returned, and reports \<open>hasMore\<close> exactly when the
  limit cut something off; following the returned cursor therefore loses and repeats nothing.\<close>

theorem ReadSinceMax_exact:
  assumes "holds h rb"
  shows "\<exists>out c more. ReadSinceMax rb s m = Some (out, c, more)
    \<and> c = rb_clamp rb s + int (length out)
    \<and> (0 < m \<longrightarrow> int (length out) \<le> m)
    \<and> (more \<longleftrightarrow> c < rb_written rb)
    \<and> ReadSince rb s = Some (out @ drop (nat c) h)
    \<and> ReadSince rb c = Some (drop (nat c) h)"
proof -
  let ?c = "rb_clamp rb s" and ?r = "drop (nat (rb_clamp rb s)) h"
  note b = rb_clamp_bounds [OF holds_wf [OF assms], of s]
  note w = holds_written [OF assms]
  have rs: "ReadSince rb s = Some ?r" by (rule ReadSince_holds [OF assms])
  have at: "ReadSince rb c = Some (drop (nat c) h)" if "?c \<le> c" "c \<le> rb_written rb" for c
    using ReadSince_holds [OF assms, of c] b that by (simp add: rb_clamp_id)
  have len: "int (length ?r) = int (length h) - ?c" using b w by auto
  show ?thesis
  proof (cases "0 < m \<and> m < int (length ?r)")
    case True
    have e: "ReadSinceMax rb s m = Some (take (nat m) ?r, ?c + m, True)"
      using True by (simp only: ReadSinceMax_holds [OF assms] Let_def if_True simp_thms)
    have "nat m < length ?r" using True by (simp add: nat_less_iff del: length_drop)
    with True have l: "int (length (take (nat m) ?r)) = m" by (simp del: length_drop)
    have "drop (nat (?c + m)) h = drop (nat m) ?r" using b True by (simp add: nat_add_distrib add.commute)
    then have "?r = take (nat m) ?r @ drop (nat (?c + m)) h" by (metis append_take_drop_id)
    with True b w len l at [of "?c + m"] rs show ?thesis
      by - (intro exI conjI, rule e, auto simp del: length_take length_drop)
  next
    case False
    then have e: "ReadSinceMax rb s m = Some (?r, int (length h), False)"
      by (simp only: ReadSinceMax_holds [OF assms] Let_def if_False)
    from False b w len at [of "rb_written rb"] rs show ?thesis
      by - (intro exI conjI, rule e, auto simp del: length_drop)
  qed
qed

lemma ReadSinceMax_exact_witness:
  "\<exists>out c more. ReadSinceMax rb_sample (-100) 2 = Some (out, c, more)
    \<and> c = 6 + int (length out) \<and> int (length out) \<le> 2 \<and> (more \<longleftrightarrow> c < 11)
    \<and> ReadSince rb_sample (-100) = Some (out @ drop (nat c) ''XXXXXXabcde'')
    \<and> ReadSince rb_sample c = Some (drop (nat c) ''XXXXXXabcde'')"
  using ReadSinceMax_exact [OF holds_sample, of "-100" 2]
  by (simp add: rb_clamp_def rb_oldest_def rb_sample_def)

text \<open>The default read loses nothing to a racing writer: if output arrives between \<open>Since\<close>
  and the \<open>AdvanceMarkBy\<close> that consumes it, the next \<open>Since\<close> returns exactly that output
  (when the mark had not been overrun and the new output fits in the buffer).\<close>

theorem AdvanceMarkBy_no_skip:
  assumes "holds h rb" and "Since rb = Some out" and "\<not> IsTruncated rb (MarkSnapshot rb)"
    and "rb_write rb p = Some rb'" and "int (length p) \<le> rb_size rb"
  shows "Since (AdvanceMarkBy rb' (int (length out))) = Some p"
  using ring.advance_keeps_racing_write [of h rb out p rb'] assms
  by (simp add: Since_def MarkSnapshot_def)

lemma AdvanceMarkBy_no_skip_witness:
  "Since (AdvanceMarkBy (fst (the (Write rb_sample ''fg''))) 2) = Some ''fg''"
proof -
  have s: "Since rb_sample = Some ''de''"
    using ReadSince_holds [OF holds_sample, of 9]
    by (simp add: Since_def rb_sample_def rb_clamp_def rb_oldest_def)
  have t: "\<not> IsTruncated rb_sample (MarkSnapshot rb_sample)"
    by (simp add: IsTruncated_def MarkSnapshot_def rb_sample_def)
  obtain rb' where w: "Write rb_sample ''fg'' = Some (rb', 2)"
    using Write_refines_append [OF holds_sample, of "''fg''"] by auto
  then have "rb_write rb_sample ''fg'' = Some rb'" by (simp add: rb_write_def)
  with w show ?thesis
    using AdvanceMarkBy_no_skip [OF holds_sample s t, of "''fg''" rb'] by (simp add: rb_sample_def)
qed

text \<open>After an overrun the default read repeats itself: when the mark lies \<open>lag\<close> bytes behind
  the oldest retained byte, \<open>Since\<close> returns the whole buffer, but the \<open>AdvanceMarkBy\<close> that
  should consume it starts from the stale mark, so the next \<open>Since\<close> returns the last
  \<open>min lag size\<close> bytes of the same output again.\<close>

theorem overrun_output_repeats:
  assumes "holds h rb" and "IsTruncated rb (MarkSnapshot rb)" and "Since rb = Some out"
    and "lag = rb_written rb - rb_size rb - MarkSnapshot rb"
  shows "Since (AdvanceMarkBy rb (int (length out))) = Some (last_n (nat (min lag (rb_size rb))) out)"
proof -
  let ?a = "AdvanceMarkBy rb (int (length out))"
  have wf: "rb_wf rb" and w: "rb_written rb = int (length h)" using assms(1) by (simp_all add: holds_def)
  have lag: "0 < lag" "rb_mark rb = int (length h) - rb_size rb - lag" "0 \<le> rb_mark rb" "0 < rb_size rb"
    using assms(2,4) w wf by (auto simp: IsTruncated_def MarkSnapshot_def rb_wf_def)
  have out: "out = last_n (nat (rb_size rb)) h"
    using assms(2,3) ring.read_lost [OF assms(1), of "rb_mark rb"] lag(3)
    by (simp add: Since_def MarkSnapshot_def)
  have len: "int (length out) = rb_size rb" using lag by (simp add: out)
  have ha: "holds h ?a" "rb_size ?a = rb_size rb" "rb_written ?a = int (length h)"
    using ring.advance_hist [OF assms(1), of "int (length out)"] by (simp_all add: holds_def)
  have m: "rb_mark ?a = int (length h) - lag"
    using lag w by (simp add: AdvanceMarkBy_def Let_def len)
  have c: "rb_clamp ?a (rb_mark ?a) = int (length h) - min lag (rb_size rb)"
    using lag ha by (auto simp: rb_clamp_def rb_oldest_def m)
  have "Since ?a = Some (drop (nat (int (length h) - min lag (rb_size rb))) h)"
    by (simp add: Since_def ReadSince_holds [OF ha(1)] c)
  also have "drop (nat (int (length h) - min lag (rb_size rb))) h
      = last_n (nat (min lag (rb_size rb))) (last_n (nat (rb_size rb)) h)"
    using lag by (simp add: last_n_def) (smt (verit) nat_diff_distrib' add.commute nat_int)
  finally show ?thesis by (simp add: out)
qed

lemma overrun_output_repeats_witness:
  "Since (AdvanceMarkBy (rb_sample\<lparr>rb_mark := 3\<rparr>) 5) = Some ''cde''"
proof -
  have h: "holds ''XXXXXXabcde'' (rb_sample\<lparr>rb_mark := 3\<rparr>)" by code_simp
  have t: "IsTruncated (rb_sample\<lparr>rb_mark := 3\<rparr>) (MarkSnapshot (rb_sample\<lparr>rb_mark := 3\<rparr>))" by code_simp
  have s: "Since (rb_sample\<lparr>rb_mark := 3\<rparr>) = Some ''abcde''" by code_simp
  show ?thesis using overrun_output_repeats [OF h t s refl]
    by (simp add: MarkSnapshot_def rb_sample_def last_n_def)
qed

text \<open>\<open>Tail\<close> returns the last \<open>n\<close> lines of the retained output without panicking when
  \<open>n\<close> is not negative; the empty piece after a final newline is not a line.\<close>

theorem Tail_last_lines:
  assumes "holds h rb" and "content = drop (nat (rb_oldest rb)) h"
    and "lines = (if last (Split (CHR 0x0A) content) = [] then butlast (Split (CHR 0x0A) content)
                  else Split (CHR 0x0A) content)"
  shows "Tail rb (int n) = Some (last_n n lines)"
proof -
  have "go_slice lines (int (length lines) - int n) (int (length lines))
      = Some (drop (length lines - n) lines)" if "n < length lines"
    using that go_slice_suffix [of "int (length lines) - int n" lines] by (simp add: nat_diff_distrib')
  then show ?thesis
    using rb_String_holds [OF assms(1)] assms(2,3)
    by (auto simp: Tail_def Let_def last_n_def)
qed

lemma Tail_last_lines_witness: "Tail rb_sample 1 = Some [''abcde'']"
  using Tail_last_lines [OF holds_sample refl refl, of 1]
  by (simp add: rb_oldest_def rb_sample_def last_n_def)

text \<open>The configured buffer size is always inside the advertised range, whatever the environment
  variable holds, and a number in the range is taken as it is.\<close>

theorem BufferSizeFromEnv_range:
  "MinBufferSize \<le> BufferSizeFromEnv val \<and> BufferSizeFromEnv val \<le> MaxBufferSize
   \<and> (\<exists>rb. NewRingBuffer (BufferSizeFromEnv val) = Some rb \<and> holds [] rb)
   \<and> (Atoi val = (sz, None) \<and> MinBufferSize \<le> sz \<and> sz \<le> MaxBufferSize \<longrightarrow> BufferSizeFromEnv val = sz)"
proof -
  show ?thesis using BufferSizeFromEnv_bounds [of val] BufferSizeFromEnv_new [of val]
    by (auto simp: BufferSizeFromEnv_def Atoi_def split: if_splits)
qed

lemma BufferSizeFromEnv_range_witness: "BufferSizeFromEnv ''70000'' = 70000"
proof -
  have "Atoi ''70000'' = (70000, None)" by code_simp
  then show ?thesis
    using BufferSizeFromEnv_range [of "''70000''" 70000] by (simp add: MinBufferSize_def MaxBufferSize_def)
qed

end
