(* ===== verification/Regex.thy ===== *)
theory Regex
  imports Go_Strings
begin

text \<open>
  The part of Go's \<open>regexp\<close> package the program uses, over decoded runes: character classes,
  concatenation, alternation, greedy and lazy repetition, one capture group, and the anchors
  \<open>^\<close>, \<open>$\<close> with and without the multi-line flag. \<open>rxm\<close> enumerates the matches
  at a position in leftmost-first (Perl) priority order; its first element is the match Go's engine
  reports. Repetition is run with as much fuel as runes are left, which is enough because an
  iteration that consumes nothing is not repeated (\<open>rxm_iff_mt\<close>).
\<close>

section \<open>Expressions and their matches\<close>

datatype rx =
    REps
  | RCls "int \<Rightarrow> bool"
  | RSeq rx rx
  | RAlt rx rx
  | RStar rx
  | RLazy rx
  | RGrp rx
  | RBol
  | REol
  | REot

text \<open>
  A position: the rune before it (for the anchors), the runes after it, and what the capture group
  holds.
\<close>

datatype pos = Pos (before: "int option") (rest: "chunk list") (captured: "chunk list option")

definition shorter :: "pos \<Rightarrow> pos \<Rightarrow> bool" where
  "shorter s t \<longleftrightarrow> length (rest t) < length (rest s)"

primrec rep :: "bool \<Rightarrow> nat \<Rightarrow> (pos \<Rightarrow> pos list) \<Rightarrow> pos \<Rightarrow> pos list" where
  "rep greedy 0 m s = [s]"
| "rep greedy (Suc n) m s =
     (let more = concat (map (rep greedy n m) (filter (shorter s) (m s)))
      in if greedy then more @ [s] else s # more)"

primrec rxm :: "rx \<Rightarrow> pos \<Rightarrow> pos list" where
  "rxm REps s = [s]"
| "rxm (RCls P) s =
     (case s of Pos p cs g \<Rightarrow>
        (case cs of [] \<Rightarrow> [] | c # cs' \<Rightarrow> if P (fst c) then [Pos (Some (fst c)) cs' g] else []))"
| "rxm (RSeq a b) s = concat (map (rxm b) (rxm a s))"
| "rxm (RAlt a b) s = rxm a s @ rxm b s"
| "rxm (RStar a) s = rep True (length (rest s)) (rxm a) s"
| "rxm (RLazy a) s = rep False (length (rest s)) (rxm a) s"
| "rxm (RGrp a) s =
     map (\<lambda>t. Pos (before t) (rest t) (Some (take (length (rest s) - length (rest t)) (rest s)))) (rxm a s)"
| "rxm RBol s = (case s of Pos p cs g \<Rightarrow> if p = None \<or> p = Some 10 then [s] else [])"
| "rxm REol s = (case s of Pos p cs g \<Rightarrow> if cs = [] \<or> fst (hd cs) = 10 then [s] else [])"
| "rxm REot s = (case s of Pos p cs g \<Rightarrow> if cs = [] then [s] else [])"

subsection \<open>Derived forms\<close>

definition rplus :: "rx \<Rightarrow> rx" where "rplus a = RSeq a (RStar a)"
definition ropt :: "rx \<Rightarrow> rx" where "ropt a = RAlt a REps"

fun rseq :: "rx list \<Rightarrow> rx" where
  "rseq [] = REps"
| "rseq [a] = a"
| "rseq (a # as) = RSeq a (rseq as)"

fun ralt :: "rx list \<Rightarrow> rx" where
  "ralt [] = RCls (\<lambda>_. False)"
| "ralt [a] = a"
| "ralt (a # as) = RAlt a (ralt as)"

definition rchar :: "char \<Rightarrow> rx" where "rchar c = RCls (\<lambda>r. r = code c)"
definition rrange :: "int \<Rightarrow> int \<Rightarrow> rx" where "rrange lo hi = RCls (\<lambda>r. lo \<le> r \<and> r \<le> hi)"
definition rany :: rx where "rany = RCls (\<lambda>r. r \<noteq> 10)"
definition rrune :: rx where "rrune = RCls (\<lambda>r. True)"
definition rnot :: "int list \<Rightarrow> rx" where "rnot rs = RCls (\<lambda>r. r \<notin> set rs)"
definition roneof :: "bytes \<Rightarrow> rx" where "roneof cs = RCls (\<lambda>r. \<exists>c \<in> set cs. r = code c)"
definition rlit :: "bytes \<Rightarrow> rx" where "rlit s = rseq (map rchar s)"

definition is_space_class :: "int \<Rightarrow> bool" where
  "is_space_class r \<longleftrightarrow> r = 9 \<or> r = 10 \<or> r = 12 \<or> r = 13 \<or> r = 32"

definition rspace :: rx where "rspace = RCls is_space_class"
definition rnspace :: rx where "rnspace = RCls (\<lambda>r. \<not> is_space_class r)"
definition rdigit :: rx where "rdigit = rrange 48 57"

text \<open>
  Under \<open>(?i)\<close> a letter also matches its other case, and \<open>k\<close>, \<open>s\<close> and \<open>\w\<close>
  the two non-ASCII runes that fold to ASCII letters (U+212A and U+017F).
\<close>

definition fold_eq :: "int \<Rightarrow> int \<Rightarrow> bool" where
  "fold_eq a r \<longleftrightarrow> r = a
     \<or> (97 \<le> a \<and> a \<le> 122 \<and> r + 32 = a) \<or> (65 \<le> a \<and> a \<le> 90 \<and> r = a + 32)
     \<or> ((a = 107 \<or> a = 75) \<and> r = 0x212A) \<or> ((a = 115 \<or> a = 83) \<and> r = 0x17F)"

definition rchari :: "char \<Rightarrow> rx" where "rchari c = RCls (fold_eq (code c))"
definition rliti :: "bytes \<Rightarrow> rx" where "rliti s = rseq (map rchari s)"

definition rwordi :: rx where
  "rwordi = RCls (\<lambda>r. (48 \<le> r \<and> r \<le> 57) \<or> (65 \<le> r \<and> r \<le> 90) \<or> r = 95
                     \<or> (97 \<le> r \<and> r \<le> 122) \<or> r = 0x17F \<or> r = 0x212A)"

section \<open>The enumeration is complete\<close>

inductive mt :: "rx \<Rightarrow> pos \<Rightarrow> pos \<Rightarrow> bool" where
  Eps: "mt REps s s"
| Cls: "P (fst c) \<Longrightarrow> mt (RCls P) (Pos p (c # cs) g) (Pos (Some (fst c)) cs g)"
| Seq: "mt a s t \<Longrightarrow> mt b t u \<Longrightarrow> mt (RSeq a b) s u"
| AltL: "mt a s t \<Longrightarrow> mt (RAlt a b) s t"
| AltR: "mt b s t \<Longrightarrow> mt (RAlt a b) s t"
| Star0: "mt (RStar a) s s"
| StarS: "mt a s t \<Longrightarrow> shorter s t \<Longrightarrow> mt (RStar a) t u \<Longrightarrow> mt (RStar a) s u"
| Lazy0: "mt (RLazy a) s s"
| LazyS: "mt a s t \<Longrightarrow> shorter s t \<Longrightarrow> mt (RLazy a) t u \<Longrightarrow> mt (RLazy a) s u"
| Grp: "mt a s t \<Longrightarrow> mt (RGrp a) s
     (Pos (before t) (rest t) (Some (take (length (rest s) - length (rest t)) (rest s))))"
| Bol: "p = None \<or> p = Some 10 \<Longrightarrow> mt RBol (Pos p cs g) (Pos p cs g)"
| Eol: "cs = [] \<or> fst (hd cs) = 10 \<Longrightarrow> mt REol (Pos p cs g) (Pos p cs g)"
| Eot: "mt REot (Pos p [] g) (Pos p [] g)"

inductive_cases mt_starE: "mt (RStar a) s t"
inductive_cases mt_lazyE: "mt (RLazy a) s t"
inductive_simps mt_simps: "mt REps s t" "mt (RCls P) s t" "mt (RSeq a b) s t" "mt (RAlt a b) s t"
  "mt (RGrp a) s t" "mt RBol s t" "mt REol s t" "mt REot s t"

lemma rep_sound:
  assumes "\<And>s t. t \<in> set (m s) \<Longrightarrow> mt a s t"
  shows "t \<in> set (rep gr n m s) \<Longrightarrow> mt (if gr then RStar a else RLazy a) s t"
proof (induction n arbitrary: s)
  case 0
  then show ?case by (auto intro: mt.intros)
next
  case (Suc n)
  from Suc.prems consider "t = s" | u where "u \<in> set (m s)" "shorter s u" "t \<in> set (rep gr n m u)"
    by (auto simp: Let_def split: if_splits)
  then show ?case
  proof cases
    case 1
    then show ?thesis by (auto intro: mt.intros)
  next
    case 2
    then show ?thesis using Suc.IH assms by (cases gr) (auto intro: mt.StarS mt.LazyS)
  qed
qed

lemma rep_complete:
  assumes "\<And>s t. mt a s t \<Longrightarrow> t \<in> set (m s)"
  shows "mt (if gr then RStar a else RLazy a) s t \<Longrightarrow> length (rest s) \<le> n \<Longrightarrow> t \<in> set (rep gr n m s)"
proof (induction n arbitrary: s)
  case 0
  then have "t = s" by (auto simp: shorter_def elim: mt_starE mt_lazyE split: if_splits)
  then show ?case by simp
next
  case (Suc n)
  from Suc.prems(1) consider "t = s"
    | u where "mt a s u" "shorter s u" "mt (if gr then RStar a else RLazy a) u t"
    by (cases gr) (auto elim: mt_starE mt_lazyE)
  then show ?case
  proof cases
    case 1
    then show ?thesis by (simp add: Let_def)
  next
    case 2
    with Suc.prems(2) have "t \<in> set (rep gr n m u)" by (intro Suc.IH) (auto simp: shorter_def)
    with 2 assms show ?thesis by (auto simp: Let_def)
  qed
qed

theorem rxm_iff_mt: "t \<in> set (rxm r s) \<longleftrightarrow> mt r s t"
proof (induction r arbitrary: s t)
  case (RStar a)
  show ?case
    using rep_sound [of "rxm a" a t True] rep_complete [of a "rxm a" True s t] RStar by auto
next
  case (RLazy a)
  show ?case
    using rep_sound [of "rxm a" a t False] rep_complete [of a "rxm a" False s t] RLazy by auto
next
  case (RCls P)
  show ?case by (cases s) (auto simp: mt_simps split: list.splits)
next
  case (RGrp a)
  then show ?case by (force simp: mt_simps)
qed (auto simp: mt_simps)

section \<open>What a match consumes\<close>

lemma mt_suffix: "mt r s t \<Longrightarrow> suffix (rest t) (rest s)"
  by (induction rule: mt.induct) (auto simp: suffix_ConsI dest: suffix_order.trans)

fun nullable :: "rx \<Rightarrow> bool" where
  "nullable (RCls P) = False"
| "nullable (RSeq a b) = (nullable a \<and> nullable b)"
| "nullable (RAlt a b) = (nullable a \<or> nullable b)"
| "nullable (RGrp a) = nullable a"
| "nullable _ = True"

lemma mt_consumes: "mt r s t \<Longrightarrow> \<not> nullable r \<Longrightarrow> length (rest t) < length (rest s)"
proof (induction rule: mt.induct)
  case (Seq a s t b u)
  from Seq.hyps have "length (rest t) \<le> length (rest s)" "length (rest u) \<le> length (rest t)"
    by (auto dest!: mt_suffix suffix_length_le)
  with Seq show ?case by (cases "nullable a") auto
qed auto

section \<open>\<open>MatchString\<close> and \<open>ReplaceAllString\<close>\<close>

fun match_from :: "rx \<Rightarrow> int option \<Rightarrow> chunk list \<Rightarrow> bool" where
  "match_from r p [] = (rxm r (Pos p [] None) \<noteq> [])"
| "match_from r p (c # cs) = (rxm r (Pos p (c # cs) None) \<noteq> [] \<or> match_from r (Some (fst c)) cs)"

definition MatchString :: "rx \<Rightarrow> bytes \<Rightarrow> bool" where
  "MatchString r s = match_from r None (runes s)"

text \<open>
  \<open>f\<close> maps the captured runes to the replacement. The program's expressions never match the empty
  string (\<open>\<not> nullable\<close>), which is the only case Go treats differently from this loop.
\<close>

function replace_from :: "rx \<Rightarrow> (chunk list option \<Rightarrow> chunk list) \<Rightarrow> int option \<Rightarrow> chunk list \<Rightarrow> chunk list" where
  "replace_from r f p [] = []"
| "replace_from r f p (c # cs) =
     (case rxm r (Pos p (c # cs) None) of
        [] \<Rightarrow> c # replace_from r f (Some (fst c)) cs
      | t # _ \<Rightarrow>
          if length (rest t) < length (c # cs)
          then f (captured t) @ replace_from r f (before t) (rest t)
          else c # replace_from r f (Some (fst c)) cs)"
  by pat_completeness auto
termination
  by (relation "measure (\<lambda>(r, f, p, cs). length cs)") auto

definition ReplaceAllString :: "rx \<Rightarrow> bytes \<Rightarrow> (chunk list option \<Rightarrow> chunk list) \<Rightarrow> bytes" where
  "ReplaceAllString r s f = bytes_of (replace_from r f None (runes s))"

lemma replace_from_nomatch: "\<not> match_from r p cs \<Longrightarrow> replace_from r f p cs = cs"
  by (induction r p cs rule: match_from.induct) auto

text \<open>A rune at which the expression always matches does not survive the replacement.\<close>

lemma replace_from_deletes:
  assumes always: "\<And>p d cs. fst d = x \<Longrightarrow> rxm r (Pos p (d # cs) None) \<noteq> []"
    and "\<not> nullable r" and repl: "\<And>g. x \<notin> fst ` set (f g)"
  shows "x \<notin> fst ` set (replace_from r f p cs)"
proof (induction "length cs" arbitrary: p cs rule: less_induct)
  case less
  show ?case
  proof (cases cs)
    case (Cons d ds)
    show ?thesis
    proof (cases "rxm r (Pos p (d # ds) None)")
      case Nil
      with always [of d p ds] have "fst d \<noteq> x" by auto
      with Nil Cons less show ?thesis by auto
    next
      case (Cons t ts)
      then have "mt r (Pos p (d # ds) None) t" by (simp flip: rxm_iff_mt)
      then have "length (rest t) < length (d # ds)" using mt_consumes assms(2) by fastforce
      with Cons \<open>cs = d # ds\<close> less repl show ?thesis by (simp add: image_Un)
    qed
  qed simp
qed

lemma replace_from_subset: "set (replace_from r f p cs) \<subseteq> set cs \<union> (\<Union>g. set (f g))"
proof (induction "length cs" arbitrary: p cs rule: less_induct)
  case less
  show ?case
  proof (cases cs)
    case (Cons d ds)
    show ?thesis
    proof (cases "rxm r (Pos p (d # ds) None)")
      case Nil
      with Cons less [of ds "Some (fst d)"] show ?thesis by auto
    next
      case (Cons t ts)
      then have "mt r (Pos p (d # ds) None) t" by (simp flip: rxm_iff_mt)
      then have "set (rest t) \<subseteq> set (d # ds)" by (auto dest!: mt_suffix set_mono_suffix)
      with Cons \<open>cs = d # ds\<close> less [of "rest t" "before t"] less [of ds "Some (fst d)"]
      show ?thesis by auto
    qed
  qed simp
qed

section \<open>Locality and the greedy choice\<close>

text \<open>
  An expression without \<open>^\<close> does not look at what precedes the position, so a match from the
  same rest has the same rest, in the same order of priority.
\<close>

fun no_bol :: "rx \<Rightarrow> bool" where
  "no_bol (RSeq a b) = (no_bol a \<and> no_bol b)"
| "no_bol (RAlt a b) = (no_bol a \<and> no_bol b)"
| "no_bol (RStar a) = no_bol a"
| "no_bol (RLazy a) = no_bol a"
| "no_bol (RGrp a) = no_bol a"
| "no_bol RBol = False"
| "no_bol _ = True"

definition same_rest :: "pos \<Rightarrow> pos \<Rightarrow> bool" where
  "same_rest s t \<longleftrightarrow> rest s = rest t \<and> captured s = captured t"

lemma same_rest_Pos [simp]: "same_rest (Pos p cs g) (Pos q cs g)"
  by (simp add: same_rest_def)

lemma list_all2_concat_map:
  "list_all2 R xs ys \<Longrightarrow> (\<And>x y. R x y \<Longrightarrow> list_all2 R (f x) (f y))
    \<Longrightarrow> list_all2 R (concat (map f xs)) (concat (map f ys))"
  by (induction rule: list_all2_induct) (auto intro: list_all2_appendI)

lemma list_all2_filter_shorter:
  "list_all2 same_rest xs ys \<Longrightarrow> same_rest s t
    \<Longrightarrow> list_all2 same_rest (filter (shorter s) xs) (filter (shorter t) ys)"
  by (induction rule: list_all2_induct) (auto simp: same_rest_def shorter_def)

lemma rep_same_rest:
  assumes m: "\<And>s t. same_rest s t \<Longrightarrow> list_all2 same_rest (m s) (m t)"
  shows "same_rest s t \<Longrightarrow> list_all2 same_rest (rep gr n m s) (rep gr n m t)"
proof (induction n arbitrary: s t)
  case (Suc n)
  have "list_all2 same_rest (concat (map (rep gr n m) (filter (shorter s) (m s))))
          (concat (map (rep gr n m) (filter (shorter t) (m t))))"
    using Suc by (intro list_all2_concat_map list_all2_filter_shorter m) auto
  with Suc.prems show ?case by (auto simp: Let_def intro!: list_all2_appendI)
qed simp

lemma rxm_same_rest: "no_bol r \<Longrightarrow> same_rest s t \<Longrightarrow> list_all2 same_rest (rxm r s) (rxm r t)"
proof (induction r arbitrary: s t)
  case (RSeq a b)
  then show ?case by (auto intro!: list_all2_concat_map)
next
  case (RAlt a b)
  then show ?case by (auto intro: list_all2_appendI)
next
  case (RStar a)
  moreover from RStar.prems have "length (rest s) = length (rest t)" by (simp add: same_rest_def)
  ultimately show ?case using rep_same_rest [of "rxm a"] by simp
next
  case (RLazy a)
  moreover from RLazy.prems have "length (rest s) = length (rest t)" by (simp add: same_rest_def)
  ultimately show ?case using rep_same_rest [of "rxm a"] by simp
next
  case (RGrp a)
  then have "list_all2 same_rest (rxm a s) (rxm a t)" by simp
  then show ?case using RGrp.prems(2)
    by (auto simp: list_all2_map1 list_all2_map2 same_rest_def elim!: list_all2_mono)
qed (auto simp: same_rest_def split: pos.splits list.splits)

lemma replace_from_before:
  assumes "no_bol r"
  shows "replace_from r f p cs = replace_from r f q cs"
proof (induction "length cs" arbitrary: p q cs rule: less_induct)
  case less
  show ?case
  proof (cases cs)
    case (Cons d ds)
    have m: "list_all2 same_rest (rxm r (Pos p cs None)) (rxm r (Pos q cs None))"
      by (rule rxm_same_rest [OF assms]) simp
    show ?thesis
    proof (cases "rxm r (Pos p cs None)")
      case Nil
      with m Cons show ?thesis by simp
    next
      case c: (Cons t ts)
      with m obtain u us where u: "rxm r (Pos q cs None) = u # us" "rest u = rest t" "captured u = captured t"
        by (auto simp: list_all2_Cons1 same_rest_def)
      show ?thesis
      proof (cases "length (rest t) < length cs")
        case True
        with c u Cons less [OF True, of "before t" "before u"] show ?thesis by simp
      qed (use c u Cons in simp)
    qed
  qed simp
qed

text \<open>The preferred match: of a sequence, and of a greedy run over a class.\<close>

lemma rxm_seq_first:
  "rxm a s = t # ts \<Longrightarrow> rxm b t = u # us \<Longrightarrow> \<exists>vs. rxm (RSeq a b) s = u # vs"
  by simp

lemma rep_run:
  assumes "list_all (\<lambda>c. P (fst c)) us" and "ds = [] \<or> \<not> P (fst (hd ds))" and "length us \<le> n"
  shows "\<exists>p' ts. rep True n (rxm (RCls P)) (Pos p (us @ ds) g) = Pos p' ds g # ts"
  using assms
proof (induction us arbitrary: p n)
  case Nil
  then show ?case by (cases n) (auto simp: Let_def split: list.split)
next
  case (Cons u us)
  then obtain m where n: "n = Suc m" by (cases n) auto
  have step: "filter (shorter (Pos p (u # us @ ds) g)) (rxm (RCls P) (Pos p (u # us @ ds) g))
      = [Pos (Some (fst u)) (us @ ds) g]"
    using Cons.prems(1) by (simp add: shorter_def)
  have "list_all (\<lambda>c. P (fst c)) us" "length us \<le> m" using Cons.prems n by simp_all
  from Cons.IH [OF this(1) Cons.prems(2) this(2)] obtain p' ts where
    "rep True m (rxm (RCls P)) (Pos (Some (fst u)) (us @ ds) g) = Pos p' ds g # ts" by blast
  then show ?case by (simp only: n append_Cons rep.simps step) simp
qed

lemma rxm_star_run:
  "list_all (\<lambda>c. P (fst c)) us \<Longrightarrow> ds = [] \<or> \<not> P (fst (hd ds)) \<Longrightarrow>
    \<exists>p' ts. rxm (RStar (RCls P)) (Pos p (us @ ds) g) = Pos p' ds g # ts"
  using rep_run [of P us ds "length us + length ds" p g] by auto

lemma replace_from_match:
  assumes "rxm r (Pos p (us @ ds) None) = Pos p' ds g # ts" and "us \<noteq> []"
  shows "replace_from r f p (us @ ds) = f g @ replace_from r f p' ds"
  using assms by (cases us) simp_all

lemma replace_from_skip:
  assumes "list_all (\<lambda>c. \<forall>p ds. rxm r (Pos p (c # ds) None) = []) us"
  shows "\<exists>q. replace_from r f p (us @ ds) = us @ replace_from r f q ds"
  using assms by (induction us arbitrary: p) auto

end
