(* ===== verification/Terminal.thy ===== *)
theory Terminal
  imports Regex
begin

text \<open>
  \<open>internal/pty/helper.go\<close>: cleaning terminal output (\<open>StripANSI\<close>), recognising a prompt
  (\<open>HasPrompt\<close>) and waiting for output to settle (\<open>WaitForSettle\<close>,
  \<open>WaitForSettleCtx\<close>). Clock readings and the outputs the loop observes are the environment's
  and come as a list of polls; times are in milliseconds.
\<close>

section \<open>Cleaning terminal output\<close>

abbreviation ESC :: char where "ESC \<equiv> CHR 0x1B"
abbreviation CR :: char where "CR \<equiv> CHR 0x0D"
abbreviation LF :: char where "LF \<equiv> CHR 0x0A"

definition csiSequence :: rx where
  "csiSequence = rseq [rchar ESC, rchar (CHR ''[''), RStar (rrange 0x30 0x3F), RStar (rrange 0x20 0x2F),
                       rrange 0x40 0x7E]"

definition stBody :: rx where
  "stBody = RStar (RAlt (rnot [0x1B]) (RSeq (rchar ESC) (rnot [0x5C])))"

definition ansiEscape :: rx where
  "ansiEscape = ralt [
     csiSequence,
     rseq [rchar ESC, rchar (CHR '']''), RStar (rnot [0x07, 0x1B]),
           RAlt (rchar (CHR 0x07)) (RSeq (rchar ESC) (rchar (CHR 0x5C)))],
     rseq [rchar ESC, rchar (CHR ''P''), stBody, rchar ESC, rchar (CHR 0x5C)],
     rseq [rchar ESC, RCls (\<lambda>r. r = 0x58 \<or> r = 0x5E \<or> r = 0x5F), stBody, rchar ESC, rchar (CHR 0x5C)],
     rseq [rchar ESC, roneof ''()'', roneof ''AB012''],
     rseq [rchar ESC, RStar (rrange 0x20 0x2F), rrange 0x30 0x7E],
     rchar CR,
     RCls (\<lambda>r. r = 0xFFFD)]"

definition StripANSI :: "bytes \<Rightarrow> bytes" where
  "StripANSI s = ReplaceAllString ansiEscape (ToValidUTF8 s) (\<lambda>_. [])"

section \<open>Prompts\<close>

definition commonPrompts :: "rx list" where
  "commonPrompts = [
     rseq [rchar (CHR ''$''), RStar rspace, REot],
     rseq [rchar (CHR ''#''), RStar rspace, REot],
     rseq [rlit ''>>>'', RStar rspace, REot],
     rseq [rchar (CHR ''>''), RStar rspace, REot],
     rseq [rlit ''=>'', RStar rspace, REot],
     rseq [rchar (CHR ''[''), RStar rany, rchar (CHR '']''), RStar rspace, roneof ''#$>'', RStar rspace, REot],
     rseq [rliti ''select'', RStar rany, rchar (CHR '':''), RStar rspace, REot],
     rseq [rliti ''password'', RStar rany, rchar (CHR '':''), RStar rspace, REot],
     rseq [rliti ''login'', RStar rany, rchar (CHR '':''), RStar rspace, REot]]"

definition HasPrompt :: "bytes \<Rightarrow> bool" where
  "HasPrompt output =
     (let lines = Split LF (TrimRight output [LF])
      in if lines = [] then False
         else let lastLine = TrimSpace (last lines)
              in list_ex (\<lambda>p. MatchString p lastLine) commonPrompts)"

section \<open>Waiting for output to settle\<close>

text \<open>
  One turn of the loop: the clock at the loop's test, whether the context is done when the timer is
  awaited, the output then read, and the clock once it has been read.
\<close>

record poll =
  p_now :: int
  p_done :: bool
  p_out :: bytes
  p_seen :: int

text \<open>
  The loop over the polls. A list that ends stands for a loop test that finds the deadline passed;
  \<open>final\<close> is what \<open>getOutput()\<close> returns on the way out. The result carries whether the
  loop stopped because the context was done.
\<close>

fun settle_loop :: "int \<Rightarrow> int \<Rightarrow> bytes \<Rightarrow> int \<Rightarrow> bool \<Rightarrow> poll list \<Rightarrow> bytes \<Rightarrow> bytes \<times> bool" where
  "settle_loop deadline settle lst lastChange hasOutput [] final = (final, False)"
| "settle_loop deadline settle lst lastChange hasOutput (q # qs) final =
     (if \<not> p_now q < deadline then (final, False)
      else if p_done q then (final, False)
      else if p_out q \<noteq> lst
        then settle_loop deadline settle (p_out q) (p_seen q) (hasOutput \<or> p_out q \<noteq> []) qs final
      else if hasOutput \<and> settle \<le> p_seen q - lastChange then (p_out q, True)
      else if hasOutput \<and> HasPrompt (StripANSI (p_out q)) then (p_out q, True)
      else settle_loop deadline settle lst lastChange hasOutput qs final)"

definition WaitForSettleCtx :: "int \<Rightarrow> int \<Rightarrow> int \<Rightarrow> bytes \<Rightarrow> poll list \<Rightarrow> bytes \<Rightarrow> bytes \<times> bool" where
  "WaitForSettleCtx settle timeout start first polls final =
     settle_loop (start + timeout) settle first start (first \<noteq> []) polls final"

text \<open>\<open>WaitForSettle\<close> sleeps instead of waiting on a timer and a context: no poll is cancelled.\<close>

definition WaitForSettle :: "int \<Rightarrow> int \<Rightarrow> int \<Rightarrow> bytes \<Rightarrow> poll list \<Rightarrow> bytes \<Rightarrow> bytes \<times> bool" where
  "WaitForSettle settle timeout start first polls final =
     settle_loop (start + timeout) settle first start (first \<noteq> [])
       (map (\<lambda>q. q\<lparr>p_done := False\<rparr>) polls) final"

lemmas rx_forms = rchar_def rrange_def rnot_def roneof_def rplus_def ropt_def rany_def rrune_def
  rspace_def rnspace_def rdigit_def rchari_def rwordi_def rlit_def rliti_def

section \<open>What cleaning leaves and what it removes\<close>

definition clean_rune :: "int \<Rightarrow> bool" where
  "clean_rune r \<longleftrightarrow> r \<noteq> 0x1B \<and> r \<noteq> 0x0D \<and> r \<noteq> 0xFFFD"

lemma ansiEscape_proper: "\<not> nullable ansiEscape" "no_bol ansiEscape"
  by (simp_all add: ansiEscape_def csiSequence_def stBody_def rx_forms)

lemma ansiEscape_start: "clean_rune (fst c) \<Longrightarrow> rxm ansiEscape (Pos p (c # ds) g) = []"
  by (simp add: ansiEscape_def csiSequence_def rx_forms clean_rune_def)

lemma ansiEscape_always:
  "fst d = 0x0D \<or> fst d = 0xFFFD \<Longrightarrow> rxm ansiEscape (Pos p (d # cs) None) \<noteq> []"
  by (auto simp: ansiEscape_def csiSequence_def rx_forms)

lemma runes_StripANSI:
  "runes (StripANSI s) = replace_from ansiEscape (\<lambda>_. []) None (filter valid_chunk (runes s))"
proof -
  have "set (replace_from ansiEscape (\<lambda>_. []) None (filter valid_chunk (runes s))) \<subseteq> set (runes s) \<inter> Collect valid_chunk"
    using replace_from_subset [of ansiEscape "\<lambda>_. []"] by fastforce
  then have "list_all utf8_chunk (replace_from ansiEscape (\<lambda>_. []) None (filter valid_chunk (runes s)))"
    by (auto simp: list_all_iff intro: runes_utf8_chunks)
  then show ?thesis by (simp add: StripANSI_def ReplaceAllString_def runes_ToValidUTF8 runes_bytes_of)
qed

lemma clean_text_StripANSI:
  assumes "list_all (\<lambda>c. clean_rune (fst c)) (runes u)" and "runes (u @ t) = runes u @ runes t"
  shows "runes (StripANSI (u @ t)) = runes u @ runes (StripANSI t)"
proof -
  have v: "filter valid_chunk (runes u) = runes u"
    using assms(1) by (auto simp: filter_id_conv list_all_iff clean_rune_def valid_chunk_def runeError_def)
  obtain q where "replace_from ansiEscape (\<lambda>_. []) None (runes u @ filter valid_chunk (runes t))
      = runes u @ replace_from ansiEscape (\<lambda>_. []) q (filter valid_chunk (runes t))"
    using replace_from_skip [of ansiEscape "runes u" "\<lambda>_. []" None "filter valid_chunk (runes t)"] assms(1)
    by (auto simp: list_all_iff ansiEscape_start)
  then show ?thesis
    by (simp add: runes_StripANSI assms(2) v replace_from_before [OF ansiEscape_proper(2), of _ q _ None])
qed

lemma bytes_of_inj: "runes s = runes t \<Longrightarrow> s = t"
  by (metis bytes_of_runes)

definition csi :: "bytes \<Rightarrow> bytes \<Rightarrow> char \<Rightarrow> bytes" where
  "csi params imm final = ESC # CHR ''['' # params @ imm @ [final]"

lemma csi_match:
  assumes "list_all (\<lambda>c. 0x30 \<le> code c \<and> code c \<le> 0x3F) params"
    and "list_all (\<lambda>c. 0x20 \<le> code c \<and> code c \<le> 0x2F) imm"
    and "0x40 \<le> code final" "code final \<le> 0x7E"
  shows "\<exists>p' ts. rxm ansiEscape (Pos p (map (\<lambda>c. (code c, [c])) (csi params imm final) @ ds) None)
           = Pos p' ds None # ts"
proof -
  let ?m = "map (\<lambda>c. (code c, [c]))"
  let ?in = "\<lambda>lo hi (r::int). lo \<le> r \<and> r \<le> hi"
  let ?fin = "?m [final] @ ds"
  have i: "list_all (\<lambda>c. ?in 0x20 0x2F (fst c)) (?m imm)" using assms(2) by (simp add: list_all_iff)
  have pr: "list_all (\<lambda>c. ?in 0x30 0x3F (fst c)) (?m params)" using assms(1) by (simp add: list_all_iff)
  have "?m imm @ ?fin = [] \<or> \<not> ?in 0x30 0x3F (fst (hd (?m imm @ ?fin)))"
    using assms(2,3) by (cases imm) auto
  from rxm_star_run [OF pr this] obtain p1 t1 where 1: "rxm (RStar (RCls (?in 0x30 0x3F)))
      (Pos (Some (code (CHR ''[''))) (?m params @ ?m imm @ ?fin) None) = Pos p1 (?m imm @ ?fin) None # t1"
    by blast
  have "?fin = [] \<or> \<not> ?in 0x20 0x2F (fst (hd ?fin))" using assms(3) by auto
  from rxm_star_run [OF i this] obtain p2 t2 where 2: "rxm (RStar (RCls (?in 0x20 0x2F)))
      (Pos p1 (?m imm @ ?fin) None) = Pos p2 ?fin None # t2"
    by blast
  have 3: "rxm (RCls (?in 0x40 0x7E)) (Pos p2 ?fin None) = [Pos (Some (code final)) ds None]"
    using assms(3,4) by simp
  obtain t4 where 4: "rxm (RSeq (RStar (RCls (?in 0x20 0x2F))) (RCls (?in 0x40 0x7E)))
      (Pos p1 (?m imm @ ?fin) None) = Pos (Some (code final)) ds None # t4"
    using rxm_seq_first [OF 2 3] by blast
  obtain t5 where 5: "rxm (RSeq (RStar (RCls (?in 0x30 0x3F))) (RSeq (RStar (RCls (?in 0x20 0x2F))) (RCls (?in 0x40 0x7E))))
      (Pos (Some (code (CHR ''[''))) (?m params @ ?m imm @ ?fin) None) = Pos (Some (code final)) ds None # t5"
    using rxm_seq_first [OF 1 4] by blast
  have "\<exists>ts. rxm csiSequence (Pos p (?m (csi params imm final) @ ds) None) = Pos (Some (code final)) ds None # ts"
    using 5 by (simp add: csiSequence_def rchar_def rrange_def csi_def del: code_Char)
  then show ?thesis by (auto simp: ansiEscape_def)
qed

lemma csi_StripANSI:
  assumes "list_all (\<lambda>c. 0x30 \<le> code c \<and> code c \<le> 0x3F) params"
    and "list_all (\<lambda>c. 0x20 \<le> code c \<and> code c \<le> 0x2F) imm"
    and "0x40 \<le> code final" "code final \<le> 0x7E"
  shows "StripANSI (csi params imm final @ t) = StripANSI t"
proof -
  let ?m = "map (\<lambda>c. (code c, [c])) (csi params imm final)"
  have a: "ascii (csi params imm final)"
    using assms by (auto simp: csi_def ascii_def list_all_iff)
  then have v: "filter valid_chunk ?m = ?m"
    by (auto simp: filter_id_conv valid_chunk_def runeError_def ascii_def list_all_iff)
  obtain p' ts where "rxm ansiEscape (Pos None (?m @ filter valid_chunk (runes t)) None)
      = Pos p' (filter valid_chunk (runes t)) None # ts"
    using csi_match [OF assms] by blast
  from replace_from_match [OF this, of "\<lambda>_. []"] have "replace_from ansiEscape (\<lambda>_. []) None (?m @ filter valid_chunk (runes t))
      = replace_from ansiEscape (\<lambda>_. []) p' (filter valid_chunk (runes t))"
    unfolding csi_def list.map by (metis append_Nil list.distinct(1))
  then have "runes (StripANSI (csi params imm final @ t)) = runes (StripANSI t)"
    by (simp add: runes_StripANSI runes_ascii_append [OF a] v
        replace_from_before [OF ansiEscape_proper(2), of _ p' _ None])
  then show ?thesis by (rule bytes_of_inj)
qed

lemma replace_from_subseq: "subseq (replace_from r (\<lambda>_. []) p cs) cs"
proof (induction "length cs" arbitrary: p cs rule: less_induct)
  case less
  show ?case
  proof (cases cs)
    case (Cons d ds)
    show ?thesis
    proof (cases "rxm r (Pos p (d # ds) None)")
      case Nil
      with Cons less [of ds "Some (fst d)"] show ?thesis by simp
    next
      case (Cons t ts)
      then have "mt r (Pos p (d # ds) None) t" by (simp flip: rxm_iff_mt)
      then have "subseq (rest t) (d # ds)" by (auto dest!: mt_suffix)
      with Cons \<open>cs = d # ds\<close> less [of "rest t" "before t"] less [of ds "Some (fst d)"]
      show ?thesis by (auto intro: subseq_order.trans)
    qed
  qed simp
qed

lemma StripANSI_subseq: "subseq (runes (StripANSI s)) (filter valid_chunk (runes s))"
  unfolding runes_StripANSI by (rule replace_from_subseq)

lemma valid_StripANSI: "valid_utf8 (StripANSI s)"
proof -
  have "valid_chunk c" if "c \<in> set (runes (StripANSI s))" for c
    by (rule list_emb_set [OF StripANSI_subseq that]) simp
  then show ?thesis by (simp add: valid_utf8_def list_all_iff)
qed

text \<open>Cleaned output is valid UTF-8 without carriage returns or replacement characters, and it only
  ever leaves runes out: it is a subsequence of the runes it was given.\<close>

theorem StripANSI_output:
  "valid_utf8 (StripANSI s) \<and> CR \<notin> set (StripANSI s) \<and> 0xFFFD \<notin> fst ` set (runes (StripANSI s))
   \<and> subseq (runes (StripANSI s)) (runes s)"
proof -
  let ?v = "filter valid_chunk (runes s)" and ?o = "runes (StripANSI s)"
  have sub: "subseq ?o ?v" by (rule StripANSI_subseq)
  have gone: "x \<notin> fst ` set ?o" if "x = 0x0D \<or> x = 0xFFFD" for x
    unfolding runes_StripANSI
    by (rule replace_from_deletes [OF _ ansiEscape_proper(1)]) (use that ansiEscape_always in auto)
  have v: "valid_chunk c" if "c \<in> set ?o" for c
    using that valid_StripANSI by (simp add: valid_utf8_def list_all_iff)
  have "CR \<notin> set (StripANSI s)"
  proof
    assume "CR \<in> set (StripANSI s)"
    then have "CR \<in> set (bytes_of ?o)" by simp
    then obtain c where c: "c \<in> set ?o" "CR \<in> set (snd c)" by (auto simp: bytes_of_def)
    have "fst c = code CR"
      by (rule utf8_chunk_byte [OF runes_utf8_chunks [OF c(1) v [OF c(1)]] c(2)]) simp
    with c(1) gone [of 13] show False by force
  qed
  moreover have "valid_utf8 (StripANSI s)" by (rule valid_StripANSI)
  moreover have "subseq ?o (runes s)" using sub by (rule subseq_order.trans) simp
  ultimately show ?thesis using gone [of 65533] by blast
qed

text \<open>Colours and cursor movement disappear and the text around them stays: after any ASCII text
  without escapes, a CSI sequence (parameter bytes, intermediate bytes, a final byte) is removed whole, and
  cleaning goes on with what follows it as if the sequence had not been there.\<close>

theorem StripANSI_csi:
  assumes "ascii u" and "ESC \<notin> set u" and "CR \<notin> set u"
    and "list_all (\<lambda>c. 0x30 \<le> code c \<and> code c \<le> 0x3F) params"
    and "list_all (\<lambda>c. 0x20 \<le> code c \<and> code c \<le> 0x2F) imm"
    and "0x40 \<le> code final" "code final \<le> 0x7E"
  shows "StripANSI (u @ csi params imm final @ t) = u @ StripANSI t"
proof -
  have "clean_rune (code c)" if "c \<in> set u" for c
    using that assms(1-3) inj_code [of c ESC] inj_code [of c CR]
    by (auto simp: clean_rune_def ascii_def list_all_iff)
  then have r: "list_all (\<lambda>c. clean_rune (fst c)) (runes u)"
    using assms(1) by (simp add: runes_ascii list_all_iff)
  have a: "runes (u @ v) = runes u @ runes v" for v
    using runes_ascii_append [OF assms(1)] by (simp add: runes_ascii [OF assms(1)])
  have "runes (StripANSI (u @ csi params imm final @ t)) = runes u @ runes (StripANSI t)"
    using clean_text_StripANSI [OF r a] csi_StripANSI [OF assms(4-7)] by simp
  then show ?thesis by (intro bytes_of_inj) (simp add: a)
qed

lemma StripANSI_csi_witness:
  "StripANSI (''ls '' @ csi ''01;34'' '''' (CHR ''m'') @ ''src'' @ csi ''0'' '''' (CHR ''m'')) = ''ls src''"
  using StripANSI_csi [of "''ls ''" "''01;34''" "''''" "CHR ''m''" "''src'' @ csi ''0'' '''' (CHR ''m'')"]
    csi_StripANSI [of "''0''" "''''" "CHR ''m''" "''''"] by simp code_simp

section \<open>What settling means\<close>

text \<open>The outputs the loop has seen, each with the clock when it was seen.\<close>

definition observations :: "bytes \<Rightarrow> int \<Rightarrow> poll list \<Rightarrow> (int \<times> bytes) list" where
  "observations first start polls = (start, first) # map (\<lambda>q. (p_seen q, p_out q)) polls"

definition in_time :: "int \<Rightarrow> poll \<Rightarrow> bool" where
  "in_time deadline q \<longleftrightarrow> p_now q < deadline \<and> \<not> p_done q"

text \<open>\<open>settled past t out\<close>: \<open>out\<close> has been the output at every observation since \<open>t\<close>.\<close>

definition settled :: "(int \<times> bytes) list \<Rightarrow> int \<Rightarrow> bytes \<Rightarrow> bool" where
  "settled past t out \<longleftrightarrow>
     (\<exists>early same. past = early @ (t, out) # same \<and> list_all (\<lambda>ob. snd ob = out) same)"

definition produced :: "(int \<times> bytes) list \<Rightarrow> bool" where
  "produced past \<longleftrightarrow> list_ex (\<lambda>ob. snd ob \<noteq> []) past"

lemma settled_changed: "settled (past @ [(t, out)]) t out"
  unfolding settled_def by (intro exI [of _ past] exI [of _ "[]"]) simp

lemma settled_same: "settled past t out \<Longrightarrow> settled (past @ [(t', out)]) t out"
proof -
  assume "settled past t out"
  then obtain early same where "past = early @ (t, out) # same" "list_all (\<lambda>ob. snd ob = out) same"
    unfolding settled_def by blast
  then show "settled (past @ [(t', out)]) t out"
    unfolding settled_def by (intro exI [of _ early] exI [of _ "same @ [(t', out)]"]) simp
qed

lemma settle_loop_complete:
  assumes "settle_loop deadline settle lst lc ho qs final = (out, True)"
    and "settled past lc lst" and "ho \<Longrightarrow> produced past"
  shows "\<exists>pre q post. qs = pre @ q # post \<and> list_all (in_time deadline) (pre @ [q]) \<and> p_out q = out
    \<and> (let seen = past @ map (\<lambda>q. (p_seen q, p_out q)) pre in
        produced seen \<and> (\<exists>t. settled seen t out \<and> (settle \<le> p_seen q - t \<or> HasPrompt (StripANSI out))))"
  using assms
proof (induction deadline settle lst lc ho qs final arbitrary: past rule: settle_loop.induct)
  case (2 deadline settle lst lc ho q qs final)
  let ?seen = "past @ [(p_seen q, p_out q)]"
  have ok: "in_time deadline q" using "2.prems"(1) by (auto simp: in_time_def split: if_splits)
  have step: ?case if "\<exists>pre q' post. qs = pre @ q' # post \<and> list_all (in_time deadline) (pre @ [q']) \<and> p_out q' = out
    \<and> (let seen = ?seen @ map (\<lambda>q. (p_seen q, p_out q)) pre in
        produced seen \<and> (\<exists>t. settled seen t out \<and> (settle \<le> p_seen q' - t \<or> HasPrompt (StripANSI out))))"
  proof -
    from that obtain pre q' post where "qs = pre @ q' # post" "list_all (in_time deadline) (pre @ [q'])"
      "p_out q' = out" "let seen = ?seen @ map (\<lambda>q. (p_seen q, p_out q)) pre in
        produced seen \<and> (\<exists>t. settled seen t out \<and> (settle \<le> p_seen q' - t \<or> HasPrompt (StripANSI out)))"
      by blast
    then show ?thesis using ok by - (rule exI [of _ "q # pre"], auto)
  qed
  show ?case
  proof (cases "p_out q = lst")
    case False
    have "produced ?seen" if "ho \<or> p_out q \<noteq> []"
      using that "2.prems"(3) by (auto simp: produced_def)
    with False ok "2.prems"(1) show ?thesis
      by (intro step "2.IH"(1)) (auto simp: in_time_def settled_changed)
  next
    case same: True
    show ?thesis
    proof (cases "ho \<and> (settle \<le> p_seen q - lc \<or> HasPrompt (StripANSI (p_out q)))")
      case True
      then have "out = p_out q" using ok same "2.prems"(1) by (auto simp: in_time_def split: if_splits)
      with True same ok "2.prems"(2,3) show ?thesis by - (rule exI [of _ "[]"], auto)
    next
      case False
      with same ok "2.prems"(1) have "settle_loop deadline settle lst lc ho qs final = (out, True)"
        by (auto simp: in_time_def split: if_splits)
      with False same ok "2.prems"(2,3) show ?thesis
        by (intro step "2.IH"(2)) (auto simp: in_time_def settled_same produced_def)
    qed
  qed
qed simp

text \<open>\<open>WaitForSettleCtx\<close> reports completion only for output that really settled: it returned an
  output it had just read, before the deadline and with the context still open, some output had been
  produced, and that same output had been seen at every observation for at least the settle time, or it
  ends in a prompt and had been seen at the observation before as well.\<close>

theorem WaitForSettleCtx_complete:
  assumes "WaitForSettleCtx settle timeout start first polls final = (out, True)"
  shows "\<exists>pre q post. polls = pre @ q # post \<and> list_all (in_time (start + timeout)) (pre @ [q])
    \<and> p_out q = out \<and> produced (observations first start pre)
    \<and> (\<exists>t. settled (observations first start pre) t out
          \<and> (settle \<le> p_seen q - t \<or> HasPrompt (StripANSI out)))"
proof -
  have "settled [(start, first)] start first" using settled_changed [of "[]"] by simp
  from settle_loop_complete [OF assms [unfolded WaitForSettleCtx_def] this]
  show ?thesis by (simp add: observations_def produced_def Let_def)
qed

definition settle_polls :: "poll list" where
  "settle_polls = [\<lparr>p_now = 0, p_done = False, p_out = ''hi'', p_seen = 50\<rparr>,
                   \<lparr>p_now = 50, p_done = False, p_out = ''hi'', p_seen = 100\<rparr>,
                   \<lparr>p_now = 100, p_done = False, p_out = ''hi'', p_seen = 150\<rparr>]"

lemma WaitForSettleCtx_complete_witness:
  "\<exists>pre q post. settle_polls = pre @ q # post \<and> list_all (in_time 1000) (pre @ [q])
    \<and> p_out q = ''hi'' \<and> produced (observations [] 0 pre)
    \<and> (\<exists>t. settled (observations [] 0 pre) t ''hi''
          \<and> (100 \<le> p_seen q - t \<or> HasPrompt (StripANSI ''hi'')))"
proof -
  have "WaitForSettleCtx 100 1000 0 [] settle_polls [] = (''hi'', True)" by code_simp
  from WaitForSettleCtx_complete [OF this] show ?thesis by simp
qed

lemma settle_loop_quiet:
  assumes "list_all (in_time deadline) (same @ [q])" and "list_all (\<lambda>k. p_out k = lst) (same @ [q])"
    and "settle \<le> p_seen q - lc"
  shows "\<exists>out. settle_loop deadline settle lst lc True (same @ q # post) final = (out, True)"
  using assms by (induction same) (auto simp: in_time_def)

lemma settle_loop_settles:
  assumes "list_all (in_time deadline) (early @ k # same @ [q])" and "p_out k \<noteq> []"
    and "list_all (\<lambda>j. p_out j = p_out k) (same @ [q])" and "settle \<le> p_seen q - p_seen k"
    and "sorted_wrt (\<le>) (lc # map p_seen (early @ [k]))" and "lst \<noteq> [] \<Longrightarrow> ho"
  shows "\<exists>out. settle_loop deadline settle lst lc ho (early @ k # same @ q # post) final = (out, True)"
  using assms(1,5,6)
proof (induction early arbitrary: lst lc ho)
  case Nil
  have "\<exists>out. settle_loop deadline settle (p_out k) lc' True (same @ q # post) final = (out, True)"
    if "lc' \<le> p_seen k" for lc'
    by (rule settle_loop_quiet) (use Nil assms(3,4) that in auto)
  with Nil assms(2) show ?case by (auto simp: in_time_def)
next
  case (Cons e early)
  have "\<exists>out. settle_loop deadline settle lst' lc' ho' (early @ k # same @ q # post) final = (out, True)"
    if "lc' \<in> {lc, p_seen e}" "lst' \<noteq> [] \<Longrightarrow> ho'" for lst' lc' ho'
    by (rule Cons.IH) (use Cons.prems that in auto)
  with Cons.prems show ?case by (auto simp: in_time_def)
qed

text \<open>C39. \<open>WaitForSettleCtx\<close> does report completion when output settles: if, before the deadline and
  without cancellation, some non-empty output is read and every later read still returns it until the settle
  time has passed, the wait is complete.\<close>

theorem WaitForSettleCtx_settles:
  assumes "polls = early @ k # same @ q # post"
    and "list_all (in_time (start + timeout)) (early @ k # same @ [q])"
    and "p_out k \<noteq> []" and "list_all (\<lambda>j. p_out j = p_out k) (same @ [q])"
    and "settle \<le> p_seen q - p_seen k" and "sorted_wrt (\<le>) (start # map p_seen (early @ [k]))"
  shows "\<exists>out. WaitForSettleCtx settle timeout start first polls final = (out, True)"
  unfolding WaitForSettleCtx_def assms(1)
  by (rule settle_loop_settles [OF assms(2-6)]) simp

lemma WaitForSettleCtx_settles_witness:
  "\<exists>out. WaitForSettleCtx 100 1000 0 [] settle_polls [] = (out, True)"
proof -
  have p: "settle_polls = [] @ settle_polls ! 0 # [settle_polls ! 1] @ settle_polls ! 2 # []"
    by (simp add: settle_polls_def)
  show ?thesis
    by (rule WaitForSettleCtx_settles [OF p]) (simp_all add: settle_polls_def in_time_def)
qed

text \<open>Cancellation wins: from the turn on which the context is found done nothing is read any more, so
  the wait ends as it would have at that turn's deadline; without cancellation the two variants agree.\<close>

theorem WaitForSettleCtx_cancelled:
  "(p_done k \<longrightarrow> WaitForSettleCtx settle timeout start first (early @ k # post) final
                 = WaitForSettleCtx settle timeout start first early final)
   \<and> (list_all (\<lambda>q. \<not> p_done q) polls \<longrightarrow>
      WaitForSettleCtx settle timeout start first polls final = WaitForSettle settle timeout start first polls final)"
proof -
  have "p_done k \<Longrightarrow> settle_loop deadline settle lst lc ho (early @ k # post) final
      = settle_loop deadline settle lst lc ho early final" for deadline lst lc ho
    by (induction early arbitrary: lst lc ho) auto
  moreover have "list_all (\<lambda>q. \<not> p_done q) polls \<Longrightarrow> map (p_done_update (\<lambda>_. False)) polls = polls"
    by (induction polls) auto
  ultimately show ?thesis by (simp add: WaitForSettleCtx_def WaitForSettle_def)
qed

lemma WaitForSettleCtx_cancelled_witness:
  "WaitForSettleCtx 100 1000 0 [] (settle_polls @ (settle_polls ! 0)\<lparr>p_done := True\<rparr> # settle_polls) []
     = WaitForSettleCtx 100 1000 0 [] settle_polls []
   \<and> WaitForSettleCtx 100 1000 0 [] settle_polls [] = WaitForSettle 100 1000 0 [] settle_polls []"
  using WaitForSettleCtx_cancelled [of "(settle_polls ! 0)\<lparr>p_done := True\<rparr>" 100 1000 0 "[]" settle_polls settle_polls "[]" settle_polls]
  by (simp add: settle_polls_def)

end
