(* ===== verification/Go_Errors.thy ===== *)
theory Go_Errors
  imports Go_Strings
begin

text \<open>
  Go error values and their messages. A wrapped error (\<open>fmt.Errorf("...: %w", err)\<close>) keeps the
  wrapped one, as \<open>errors.As\<close> unwraps it. The typed errors of the program
  (\<open>session.SessionNotFoundError\<close>, \<open>session.SessionLimitError\<close>, \<open>mcp.ToolError\<close>)
  are constructors of their own; errors of libraries and of the operating system arrive as
  \<open>Errorf\<close> with their message.
\<close>

datatype go_error =
    Errorf bytes
  | Wrap bytes go_error
  | Canceled
  | DeadlineExceeded
  | SessionNotFoundError bytes
  | SessionLimitError
  | ToolError bytes bytes bool

text \<open>
  \<open>%q\<close>. The escapes of ASCII and of invalid bytes are Go's; a rune beyond ASCII is printed as it is,
  which Go does for the printable ones.
\<close>

definition hex_digit :: "int \<Rightarrow> char" where
  "hex_digit n = char_of (if n < 10 then 48 + n else 87 + n)"

definition hex2 :: "char \<Rightarrow> bytes" where
  "hex2 c = [hex_digit (code c div 16), hex_digit (code c mod 16)]"

text \<open>\<open>hex.EncodeToString\<close>.\<close>

definition EncodeToString :: "bytes \<Rightarrow> bytes" where
  "EncodeToString bs = concat (map hex2 bs)"

definition quote_chunk :: "chunk \<Rightarrow> bytes" where
  "quote_chunk c =
     (let r = fst c; bs = CHR 0x5C in
      if r = code (CHR 0x22) then [bs, CHR 0x22]
      else if r = code bs then [bs, bs]
      else if \<not> valid_chunk c then bs # CHR ''x'' # hex2 (hd (snd c))
      else if r = 7 then [bs, CHR ''a''] else if r = 8 then [bs, CHR ''b'']
      else if r = 9 then [bs, CHR ''t''] else if r = 10 then [bs, CHR ''n'']
      else if r = 11 then [bs, CHR ''v''] else if r = 12 then [bs, CHR ''f'']
      else if r = 13 then [bs, CHR ''r'']
      else if r < 32 \<or> r = 127 then bs # CHR ''x'' # hex2 (hd (snd c))
      else snd c)"

definition Quote :: "bytes \<Rightarrow> bytes" where
  "Quote s = CHR 0x22 # concat (map quote_chunk (runes s)) @ [CHR 0x22]"

definition maxSessions :: nat where "maxSessions = 50"

fun ErrorMsg :: "go_error \<Rightarrow> bytes" where
  "ErrorMsg (Errorf m) = m"
| "ErrorMsg (Wrap p e) = p @ '': '' @ ErrorMsg e"
| "ErrorMsg Canceled = ''context canceled''"
| "ErrorMsg DeadlineExceeded = ''context deadline exceeded''"
| "ErrorMsg (SessionNotFoundError ID) = ''session '' @ Quote ID @ '' not found''"
| "ErrorMsg SessionLimitError =
     ''session limit reached ('' @ dec (int maxSessions) @ '' max); close existing sessions first''"
| "ErrorMsg (ToolError cd msg retryable) = msg"

text \<open>The innermost error \<open>errors.As\<close> can reach through the wrappers.\<close>

fun unwrapped :: "go_error \<Rightarrow> go_error" where
  "unwrapped (Wrap p e) = unwrapped e"
| "unwrapped e = e"

lemma unwrapped_not_Wrap [simp]: "unwrapped e \<noteq> Wrap p e'"
  by (induction e) simp_all

type_synonym 'a result = "go_error + 'a"

end
