(* ===== verification/Pty_Session.thy ===== *)
theory Pty_Session
  imports Ring_Buffer Terminal Go_Errors
begin

text \<open>
  \<open>internal/aitx/ptysession.go\<close>: a process on a pseudo terminal. The environment decides what the
  terminal device answers: the bytes each read returns and its error, whether a write or the start of the
  command fails, and the clock. \<open>ps_tty\<close> collects what has been written to the device,
  \<open>ps_log\<close> what the session log has received (\<open>None\<close> when there is no log file).
\<close>

section \<open>State\<close>

record pty_session =
  ps_id :: bytes
  ps_name :: bytes
  ps_command :: bytes
  ps_args :: "bytes list"
  ps_env :: "bytes list"
  ps_buf :: ring_buffer
  ps_log :: "bytes option"
  ps_tty :: bytes
  ps_alive :: bool
  ps_closed :: bool
  ps_readDone :: bool
  ps_killed :: bool
  ps_logClosed :: bool
  ps_createdAt :: int
  ps_lastUsed :: int

section \<open>Reading the terminal device\<close>

definition dsrQuery :: bytes where "dsrQuery = ESC # ''[6n''"
definition dsrResponse :: bytes where "dsrResponse = ESC # ''[1;1R''"

text \<open>The writer of the read loop: the buffer, and the log when there is one (\<open>io.MultiWriter\<close>).\<close>

definition pty_output :: "pty_session \<Rightarrow> bytes \<Rightarrow> pty_session option" where
  "pty_output s chunk =
     do { r \<leftarrow> Write (ps_buf s) chunk;
          Some (s\<lparr>ps_buf := fst r, ps_log := map_option (\<lambda>l. l @ chunk) (ps_log s)\<rparr>) }"

text \<open>One turn of the background reader: the bytes one read of the device returned and whether it failed.\<close>

definition pty_read :: "pty_session \<Rightarrow> bytes \<Rightarrow> bool \<Rightarrow> pty_session option" where
  "pty_read s chunk failed =
     (let s1 = (if Contains chunk dsrQuery then s\<lparr>ps_tty := ps_tty s @ dsrResponse\<rparr> else s);
          chunk = (if Contains chunk dsrQuery then DeleteAll chunk dsrQuery else chunk)
      in do { s2 \<leftarrow> (if chunk = [] then Some s1 else pty_output s1 chunk);
              Some (if failed then s2\<lparr>ps_alive := False, ps_readDone := True\<rparr> else s2) })"

fun pty_reads :: "pty_session \<Rightarrow> bytes list \<Rightarrow> pty_session option" where
  "pty_reads s [] = Some s"
| "pty_reads s (c # cs) = do { s' \<leftarrow> pty_read s c False; pty_reads s' cs }"

definition pty_exited :: "pty_session \<Rightarrow> pty_session" where
  "pty_exited s = s\<lparr>ps_alive := False\<rparr>"

section \<open>Starting\<close>

definition isPowerShell :: "bytes \<Rightarrow> bool" where
  "isPowerShell command =
     (let base = ToLowerASCII (TrimSuffix (Base command) ''.exe'')
      in base = ''pwsh'' \<or> base = ''powershell'')"

definition powerShellEnv :: "bytes list" where
  "powerShellEnv = [''TERM=dumb'', ''NO_COLOR=1'', ''CLICOLOR=0'', ''TERM_PROGRAM='',
     ''DOTNET_SYSTEM_CONSOLE_ALLOW_ANSI_CONTROL_CODES=0'', ''VSCODE_SHELL_INTEGRATION=0'']"

definition inject :: "bytes list" where
  "inject = [''Remove-Module PSReadLine -Force -ErrorAction SilentlyContinue'' @ [CR],
     ''$PSStyle.OutputRendering = '' @ [CHR 0x27] @ ''PlainText'' @ [CHR 0x27, CR],
     ''$PSStyle.Progress.UseOSCIndicator = $false; $PSStyle.Progress.View = '' @ [CHR 0x27] @ ''Classic'' @ [CHR 0x27, CR],
     ''function global:prompt { '' @ [CHR 0x27] @ ''PS '' @ [CHR 0x27] @ '' + (Get-Location) + '' @ [CHR 0x27]
       @ ''> '' @ [CHR 0x27] @ '' }'' @ [CR]]"

fun inject_all :: "pty_session \<Rightarrow> (bytes \<times> bytes list) list \<Rightarrow> pty_session option" where
  "inject_all s [] = Some s"
| "inject_all s ((line, chunks) # ls) =
     do { s' \<leftarrow> pty_reads (s\<lparr>ps_tty := ps_tty s @ line\<rparr>) chunks; inject_all s' ls }"

text \<open>
  \<open>newPTYSession\<close>. \<open>startErr\<close> is what starting the command returned, \<open>bufVal\<close> the
  buffer size variable, \<open>environ\<close> the process environment, \<open>first\<close> the output that arrived
  while waiting for the initial prompt and \<open>replies\<close> what arrived after each injected line.
\<close>

definition newPTYSession ::
  "bytes \<Rightarrow> bytes \<Rightarrow> bytes \<Rightarrow> bool \<Rightarrow> bytes list \<Rightarrow> bytes \<Rightarrow> int \<Rightarrow> go_error option
     \<Rightarrow> bytes list \<Rightarrow> bytes list list \<Rightarrow> pty_session result option" where
  "newPTYSession sid nm cmd hasLog environ bufVal now startErr first replies =
     (let command = (if cmd = [] then ''/bin/bash'' else cmd);
          nm = (if nm = [] then command else nm);
          ps = isPowerShell command
      in case startErr of
           Some e \<Rightarrow> Some (Inl (Wrap (''start pty '' @ Quote command) e))
         | None \<Rightarrow>
             do { rb \<leftarrow> NewRingBuffer (BufferSizeFromEnv bufVal);
                  let s = \<lparr>ps_id = sid, ps_name = nm, ps_command = command,
                    ps_args = (if ps then [''-NoLogo'', ''-NoProfile''] else []),
                    ps_env = environ @ (if ps then powerShellEnv else [''TERM=xterm-256color'']),
                    ps_buf = rb, ps_log = (if hasLog then Some [] else None), ps_tty = [],
                    ps_alive = True, ps_closed = False, ps_readDone = False, ps_killed = False,
                    ps_logClosed = False, ps_createdAt = now, ps_lastUsed = now\<rparr>;
                  s \<leftarrow> pty_reads s first;
                  s \<leftarrow> (if ps
                     then do { s \<leftarrow> inject_all s (zip inject (replies @ replicate (length inject) [])); Some (s\<lparr>ps_buf := Mark (ps_buf s)\<rparr>) }
                     else Some s);
                  Some (Inr s) })"

section \<open>The session's methods\<close>

definition notAlive :: go_error where "notAlive = Errorf ''session is not alive''"

text \<open>\<open>err\<close> is what writing to the device returns.\<close>

definition pty_Write :: "int \<Rightarrow> go_error option \<Rightarrow> pty_session \<Rightarrow> bytes \<Rightarrow> pty_session \<times> go_error option" where
  "pty_Write now err s input =
     (if \<not> ps_alive s then (s, Some notAlive)
      else (s\<lparr>ps_buf := Mark (ps_buf s), ps_lastUsed := now,
              ps_tty := (if err = None then ps_tty s @ input @ [CR] else ps_tty s)\<rparr>, err))"

definition pty_WriteRaw :: "int \<Rightarrow> go_error option \<Rightarrow> pty_session \<Rightarrow> bytes \<Rightarrow> pty_session \<times> go_error option" where
  "pty_WriteRaw now err s data =
     (if \<not> ps_alive s then (s, Some notAlive)
      else (s\<lparr>ps_buf := Mark (ps_buf s), ps_lastUsed := now,
              ps_tty := (if err = None then ps_tty s @ data else ps_tty s)\<rparr>, err))"

text \<open>
  One turn of the settle loop run on a buffer others write to: the clock at the test, the output that
  arrives before the loop looks, whether the context is then done, and the clock when the output is read.
\<close>

record turn =
  t_now :: int
  t_arrivals :: "bytes list"
  t_done :: bool
  t_seen :: int

fun arrive :: "ring_buffer \<Rightarrow> bytes list \<Rightarrow> ring_buffer option" where
  "arrive rb [] = Some rb"
| "arrive rb (c # cs) = do { r \<leftarrow> Write rb c; arrive (fst r) cs }"

fun screen_loop ::
  "int \<Rightarrow> int \<Rightarrow> bytes \<Rightarrow> int \<Rightarrow> bool \<Rightarrow> ring_buffer \<Rightarrow> turn list \<Rightarrow> (bytes \<times> bool \<times> ring_buffer) option" where
  "screen_loop deadline settle lst lastChange hasOutput rb [] =
     do { out \<leftarrow> Since rb; Some (out, False, rb) }"
| "screen_loop deadline settle lst lastChange hasOutput rb (q # qs) =
     (if \<not> t_now q < deadline then do { out \<leftarrow> Since rb; Some (out, False, rb) }
      else do { rb \<leftarrow> arrive rb (t_arrivals q);
                out \<leftarrow> Since rb;
                if t_done q then Some (out, False, rb)
                else if out \<noteq> lst
                  then screen_loop deadline settle out (t_seen q) (hasOutput \<or> out \<noteq> []) rb qs
                else if hasOutput \<and> settle \<le> t_seen q - lastChange then Some (out, True, rb)
                else if hasOutput \<and> HasPrompt (StripANSI out) then Some (out, True, rb)
                else screen_loop deadline settle lst lastChange hasOutput rb qs })"

text \<open>
  The reading part shared by the sessions: settle, and consume what was read unless the context is done
  (\<open>cancelled\<close>). \<open>late\<close> is what arrives after the loop took its last look.
\<close>

definition read_screen ::
  "ring_buffer \<Rightarrow> bool \<Rightarrow> int \<Rightarrow> int \<Rightarrow> turn list \<Rightarrow> bytes list \<Rightarrow> (bytes \<times> bool \<times> ring_buffer) option" where
  "read_screen rb cancelled timeoutMs start turns late =
     (let timeoutMs = (if timeoutMs \<le> 0 then 5000 else timeoutMs)
      in do { first \<leftarrow> Since rb;
              (output, isComplete, rb) \<leftarrow> screen_loop (start + timeoutMs) 300 first start (first \<noteq> []) rb turns;
              rb \<leftarrow> arrive rb late;
              Some (if cancelled then ([], False, rb)
                    else (StripANSI output, isComplete, AdvanceMarkBy rb (int (length output)))) })"

definition pty_ReadScreen ::
  "pty_session \<Rightarrow> bool \<Rightarrow> int \<Rightarrow> int \<Rightarrow> turn list \<Rightarrow> bytes list \<Rightarrow> (bytes \<times> bool \<times> pty_session) option" where
  "pty_ReadScreen s cancelled timeoutMs start turns late =
     do { (out, complete, rb) \<leftarrow> read_screen (ps_buf s) cancelled timeoutMs start turns late;
          Some (out, complete, s\<lparr>ps_buf := rb, ps_lastUsed := start\<rparr>) }"

text \<open>\<open>Close\<close> runs once; with a log it waits for the read loop before it closes the log.\<close>

definition pty_Close :: "pty_session \<Rightarrow> pty_session \<times> go_error option" where
  "pty_Close s =
     (if ps_closed s then (s, None)
      else (s\<lparr>ps_closed := True, ps_alive := False, ps_killed := True,
              ps_readDone := (ps_readDone s \<or> ps_log s \<noteq> None), ps_logClosed := (ps_log s \<noteq> None)\<rparr>, None))"

text \<open>\<open>Resize\<close>: the size the device is set to; \<open>uint16(rows)\<close> truncates.\<close>

definition pty_Resize :: "int \<Rightarrow> int \<Rightarrow> int \<times> int" where
  "pty_Resize rows cols = (rows mod 2 ^ 16, cols mod 2 ^ 16)"

section \<open>What the operations do to the output\<close>

lemma arrive_holds:
  "holds h rb \<Longrightarrow> \<exists>rb'. arrive rb cs = Some rb' \<and> holds (h @ concat cs) rb'
     \<and> rb_size rb' = rb_size rb \<and> rb_mark rb' = rb_mark rb"
proof (induction cs arbitrary: h rb)
  case (Cons c cs)
  obtain rb1 where w: "Write rb c = Some (rb1, int (length c))" "holds (h @ c) rb1"
      "rb_size rb1 = rb_size rb" "rb_mark rb1 = rb_mark rb"
    using Write_holds [OF Cons.prems] by blast
  from Cons.IH [OF w(2)] w show ?case by simp
qed simp

definition arrived :: "turn list \<Rightarrow> bytes" where
  "arrived turns = concat (concat (map t_arrivals turns))"

lemma arrived_simps [simp]: "arrived [] = []" "arrived (q # qs) = concat (t_arrivals q) @ arrived qs"
  by (simp_all add: arrived_def)

lemma Since_holds: "holds h rb \<Longrightarrow> Since rb = Some (drop (nat (rb_clamp rb (rb_mark rb))) h)"
  by (simp add: Since_def ReadSince_holds)

lemma screen_loop_holds:
  "holds h rb \<Longrightarrow> \<exists>out c rb' k. screen_loop deadline settle lst lc ho rb turns = Some (out, c, rb')
     \<and> holds (h @ arrived (take k turns)) rb' \<and> rb_size rb' = rb_size rb \<and> rb_mark rb' = rb_mark rb
     \<and> Since rb' = Some out"
proof (induction turns arbitrary: h rb lst lc ho)
  case Nil
  then show ?case using Since_holds [OF Nil] by auto
next
  case (Cons q qs)
  note s0 = Since_holds [OF Cons.prems]
  obtain rb1 where a: "arrive rb (t_arrivals q) = Some rb1" "holds (h @ concat (t_arrivals q)) rb1"
      "rb_size rb1 = rb_size rb" "rb_mark rb1 = rb_mark rb"
    using arrive_holds [OF Cons.prems] by blast
  note s1 = Since_holds [OF a(2)]
  have more: "\<exists>out c rb' k. screen_loop deadline settle lst' lc' ho' rb1 qs = Some (out, c, rb')
     \<and> holds (h @ arrived (take k (q # qs))) rb' \<and> rb_size rb' = rb_size rb \<and> rb_mark rb' = rb_mark rb
     \<and> Since rb' = Some out" for lst' lc' ho'
  proof -
    from Cons.IH [OF a(2)] obtain out c rb' k where
      "screen_loop deadline settle lst' lc' ho' rb1 qs = Some (out, c, rb')"
      "holds ((h @ concat (t_arrivals q)) @ arrived (take k qs)) rb'" "rb_size rb' = rb_size rb1"
      "rb_mark rb' = rb_mark rb1" "Since rb' = Some out" by blast
    then show ?thesis using a by (intro exI [of _ out] exI [of _ c] exI [of _ rb'] exI [of _ "Suc k"]) simp
  qed
  have stop: "\<exists>rb' k. rb1 = rb' \<and> holds (h @ arrived (take k (q # qs))) rb'"
    using a(2) by (intro exI [of _ rb1] exI [of _ 1]) simp
  have stop0: "holds (h @ arrived (take 0 (q # qs))) rb" using Cons.prems by simp
  show ?case
  proof (cases "t_now q < deadline")
    case False
    with s0 stop0 show ?thesis
      by (intro exI [of _ "drop (nat (rb_clamp rb (rb_mark rb))) h"] exI [of _ False] exI [of _ rb] exI [of _ 0])
        simp
  next
    case True
    with a s1 stop more show ?thesis by (simp add: Let_def) blast
  qed
qed

text \<open>The observations the loop makes are polls in the sense of \<open>WaitForSettleCtx\<close>.\<close>

fun screen_polls :: "ring_buffer \<Rightarrow> turn list \<Rightarrow> poll list" where
  "screen_polls rb [] = []"
| "screen_polls rb (q # qs) =
     (case arrive rb (t_arrivals q) of None \<Rightarrow> []
      | Some rb' \<Rightarrow> (case Since rb' of None \<Rightarrow> []
          | Some out \<Rightarrow> \<lparr>p_now = t_now q, p_done = t_done q, p_out = out, p_seen = t_seen q\<rparr>
                        # screen_polls rb' qs))"

lemma screen_loop_is_settle:
  "screen_loop deadline settle lst lc ho rb turns = Some (out, c, rb') \<Longrightarrow>
     settle_loop deadline settle lst lc ho (screen_polls rb turns) out = (out, c)"
  by (induction deadline settle lst lc ho rb turns rule: screen_loop.induct)
    (auto split: if_splits bind_splits option.splits)

text \<open>What has not been read, when the mark has not been overrun.\<close>

lemma Since_unread:
  assumes "holds h rb" and "int (length h) - rb_mark rb \<le> rb_size rb"
  shows "Since rb = Some (drop (nat (rb_mark rb)) h)"
proof -
  have "rb_clamp rb (rb_mark rb) = rb_mark rb"
    using assms holds_wf [OF assms(1)] holds_written [OF assms(1)]
    by (intro rb_clamp_id) (auto simp: rb_oldest_def rb_wf_def)
  then show ?thesis using Since_holds [OF assms(1)] by simp
qed

lemma read_screen_holds:
  assumes h: "holds h rb"
    and fit: "int (length (h @ arrived turns @ concat late)) - rb_mark rb \<le> rb_size rb"
  obtains raw c rb' k where
    "read_screen rb cancelled timeoutMs start turns late
       = Some (if cancelled then ([], False, rb') else (StripANSI raw, c, rb'))"
    "raw = drop (nat (rb_mark rb)) (h @ arrived (take k turns))"
    "holds (h @ arrived (take k turns) @ concat late) rb'" "rb_size rb' = rb_size rb"
    "rb_mark rb' = (if cancelled then rb_mark rb else int (length (h @ arrived (take k turns))))"
    "Since rb' = Some (if cancelled then raw @ concat late else concat late)"
proof -
  let ?t = "if timeoutMs \<le> 0 then 5000 else timeoutMs"
  let ?first = "drop (nat (rb_clamp rb (rb_mark rb))) h"
  obtain out c rb1 k where l: "screen_loop (start + ?t) 300 ?first start (?first \<noteq> []) rb turns = Some (out, c, rb1)"
      "holds (h @ arrived (take k turns)) rb1" "rb_size rb1 = rb_size rb" "rb_mark rb1 = rb_mark rb"
      "Since rb1 = Some out"
    using screen_loop_holds [OF h] by blast
  obtain rb2 where a: "arrive rb1 late = Some rb2" "holds ((h @ arrived (take k turns)) @ concat late) rb2"
      "rb_size rb2 = rb_size rb" "rb_mark rb2 = rb_mark rb"
    using arrive_holds [OF l(2)] l by fastforce
  let ?h = "h @ arrived (take k turns)"
  have "arrived turns = arrived (take k turns) @ arrived (drop k turns)"
    by (simp add: arrived_def) (metis append_take_drop_id concat_append map_append)
  then have fit': "int (length (?h @ concat late)) - rb_mark rb \<le> rb_size rb" using fit by simp
  have m: "0 \<le> rb_mark rb" "rb_mark rb \<le> int (length h)"
    using holds_wf [OF h] holds_written [OF h] by (auto simp: rb_wf_def)
  have raw: "out = drop (nat (rb_mark rb)) ?h"
    using Since_unread [OF l(2)] l fit' by simp
  have len: "int (length out) = int (length ?h) - rb_mark rb" using m by (auto simp: raw)
  have rs: "read_screen rb cancelled timeoutMs start turns late
      = Some (if cancelled then ([], False, rb2) else (StripANSI out, c, AdvanceMarkBy rb2 (int (length out))))"
    using l a by (simp add: read_screen_def Since_holds [OF h] Let_def)
  show thesis
  proof (cases cancelled)
    case True
    have "Since rb2 = Some (out @ concat late)"
      using Since_unread [OF a(2)] a fit' m by (simp add: raw)
    then show thesis
      by (intro that [of rb2 out c k, OF _ raw]) (use True rs a in simp_all)
  next
    case False
    let ?a = "AdvanceMarkBy rb2 (int (length out))"
    have A: "holds (?h @ concat late) ?a" "rb_size ?a = rb_size rb"
      using ring.advance_hist [OF a(2), of "int (length out)"] a by simp_all
    have am: "rb_mark ?a = int (length ?h)"
      using ring.advance_mark [OF a(2), of "int (length out)"] a len holds_written [OF a(2)]
      by (simp add: Snapshot_def)
    have "int (length (?h @ concat late)) - rb_mark ?a \<le> rb_size ?a"
      using fit' m unfolding am A(2) by simp
    from Since_unread [OF A(1) this] have "Since ?a = Some (concat late)" by (simp add: am)
    then show thesis
      by (intro that [of ?a out c k, OF _ raw]) (use False rs A am in simp_all)
  qed
qed

lemma read_screen_total:
  assumes "holds h rb"
  shows "\<exists>out c rb' h'. read_screen rb cancelled timeoutMs start turns late = Some (out, c, rb') \<and> holds h' rb'
    \<and> valid_utf8 out"
proof -
  let ?t = "if timeoutMs \<le> 0 then 5000 else timeoutMs" and ?first = "drop (nat (rb_clamp rb (rb_mark rb))) h"
  obtain out c rb1 k where 1: "screen_loop (start + ?t) 300 ?first start (?first \<noteq> []) rb turns = Some (out, c, rb1)"
      "holds (h @ arrived (take k turns)) rb1"
    using screen_loop_holds [OF assms] by blast
  obtain rb2 where 2: "arrive rb1 late = Some rb2" "holds ((h @ arrived (take k turns)) @ concat late) rb2"
    using arrive_holds [OF 1(2)] by blast
  have "holds ((h @ arrived (take k turns)) @ concat late) (AdvanceMarkBy rb2 (int (length out)))"
    using ring.advance_hist [OF 2(2), of "int (length out)"] by simp
  moreover have "valid_utf8 []" by (simp add: valid_utf8_def)
  ultimately show ?thesis
    using 1 2 valid_StripANSI by (auto simp: read_screen_def Since_holds [OF assms] Let_def)
qed

lemma DeleteAll_absent: "\<not> Contains s old \<Longrightarrow> DeleteAll s old = s"
  by (induction s old rule: DeleteAll.induct) (auto simp: DeleteAll.simps(2))

lemma pty_read_simple:
  "pty_read s chunk False = (let kept = DeleteAll chunk dsrQuery;
       s1 = (if Contains chunk dsrQuery then s\<lparr>ps_tty := ps_tty s @ dsrResponse\<rparr> else s)
     in if kept = [] then Some s1 else pty_output s1 kept)"
  by (simp add: pty_read_def Let_def DeleteAll_absent)

text \<open>The buffer and the log hold the same history.\<close>

definition pty_history :: "bytes \<Rightarrow> pty_session \<Rightarrow> bool" where
  "pty_history h s \<longleftrightarrow> holds h (ps_buf s) \<and> (ps_log s = None \<or> ps_log s = Some h)"

lemma pty_read_history:
  assumes "pty_history h s"
  shows "\<exists>s'. pty_read s chunk False = Some s' \<and> pty_history (h @ DeleteAll chunk dsrQuery) s'
    \<and> ps_tty s' = ps_tty s @ (if Contains chunk dsrQuery then dsrResponse else [])
    \<and> ps_alive s' = ps_alive s \<and> rb_mark (ps_buf s') = rb_mark (ps_buf s)"
proof -
  let ?kept = "DeleteAll chunk dsrQuery"
  have h: "holds h (ps_buf s)" using assms by (simp add: pty_history_def)
  obtain rb where w: "Write (ps_buf s) ?kept = Some (rb, int (length ?kept))" "holds (h @ ?kept) rb"
      "rb_mark rb = rb_mark (ps_buf s)"
    using Write_holds [OF h] by blast
  show ?thesis
  proof (cases "?kept = []")
    case True
    with assms show ?thesis by (simp add: pty_read_simple Let_def pty_history_def)
  next
    case False
    with assms w show ?thesis by (auto simp: pty_read_simple Let_def pty_history_def pty_output_def)
  qed
qed

lemma pty_reads_history:
  "pty_history h s \<Longrightarrow> \<exists>s'. pty_reads s chunks = Some s'
    \<and> pty_history (h @ concat (map (\<lambda>c. DeleteAll c dsrQuery) chunks)) s'
    \<and> ps_tty s' = ps_tty s @ concat (map (\<lambda>c. if Contains c dsrQuery then dsrResponse else []) chunks)
    \<and> ps_alive s' = ps_alive s \<and> rb_mark (ps_buf s') = rb_mark (ps_buf s)"
proof (induction chunks arbitrary: h s)
  case (Cons c cs)
  obtain s1 where 1: "pty_read s c False = Some s1" "pty_history (h @ DeleteAll c dsrQuery) s1"
      "ps_tty s1 = ps_tty s @ (if Contains c dsrQuery then dsrResponse else [])"
      "ps_alive s1 = ps_alive s" "rb_mark (ps_buf s1) = rb_mark (ps_buf s)"
    using pty_read_history [OF Cons.prems] by blast
  from Cons.IH [OF 1(2)] 1 show ?case by auto
qed simp

lemma pty_read_log: "pty_read s c False = Some s' \<Longrightarrow> ps_log s \<noteq> None \<Longrightarrow> ps_log s' \<noteq> None"
  by (auto simp: pty_read_simple Let_def pty_output_def split: if_splits bind_splits)

lemma pty_reads_log: "pty_reads s cs = Some s' \<Longrightarrow> ps_log s \<noteq> None \<Longrightarrow> ps_log s' \<noteq> None"
  by (induction s cs rule: pty_reads.induct) (auto split: bind_splits dest: pty_read_log)

section \<open>Properties of the session\<close>


definition pty_sample :: pty_session where
  "pty_sample = \<lparr>ps_id = ''s1'', ps_name = ''bash'', ps_command = ''/bin/bash'', ps_args = [], ps_env = [],
     ps_buf = rb_sample, ps_log = Some ''XXXXXXabcde'', ps_tty = [], ps_alive = True, ps_closed = False,
     ps_readDone = False, ps_killed = False, ps_logClosed = False, ps_createdAt = 0, ps_lastUsed = 0\<rparr>"

definition sample_turns :: "turn list" where
  "sample_turns = [\<lparr>t_now = 0, t_arrivals = [''f''], t_done = False, t_seen = 50\<rparr>]"

lemma sample_fits:
  "holds ''XXXXXXabcde'' (ps_buf pty_sample)"
  "int (length (''XXXXXXabcde'' @ arrived sample_turns @ concat [''g''])) - rb_mark (ps_buf pty_sample)
     \<le> rb_size (ps_buf pty_sample)"
  using holds_sample by (simp_all add: pty_sample_def sample_turns_def rb_sample_def)


text \<open>A cancelled read consumes nothing: it returns no output and no completion, and the next read
  still finds everything that was unread, together with what arrived during the cancelled call.\<close>

theorem ReadScreen_cancelled_keeps:
  assumes "holds h (ps_buf s)"
    and "int (length (h @ arrived turns @ concat late)) - rb_mark (ps_buf s) \<le> rb_size (ps_buf s)"
  shows "\<exists>s' k. pty_ReadScreen s True timeoutMs start turns late = Some ([], False, s')
    \<and> rb_mark (ps_buf s') = rb_mark (ps_buf s)
    \<and> Since (ps_buf s') = Some (drop (nat (rb_mark (ps_buf s))) (h @ arrived (take k turns)) @ concat late)"
  by (rule read_screen_holds [OF assms, where cancelled = True and timeoutMs = timeoutMs and start = start])
    (auto simp: pty_ReadScreen_def)

lemma ReadScreen_cancelled_keeps_witness:
  "\<exists>s' k. pty_ReadScreen pty_sample True 500 0 sample_turns [''g''] = Some ([], False, s')
    \<and> rb_mark (ps_buf s') = 9
    \<and> Since (ps_buf s') = Some (drop 9 (''XXXXXXabcde'' @ arrived (take k sample_turns)) @ ''g'')"
proof -
  have "rb_mark (ps_buf pty_sample) = 9" "nat 9 = 9" "concat [''g''] = ''g''"
    by (simp_all add: pty_sample_def rb_sample_def)
  with ReadScreen_cancelled_keeps [OF sample_fits, of 500 0] show ?thesis by metis
qed

text \<open>The session log is complete: whatever the device sends, in whatever chunks, the log ends up with
  the whole filtered output (also what the ring buffer has already overwritten), the buffer holds the same
  history, and each chunk with a cursor-position query is answered with exactly one reply to the device.\<close>

theorem pty_reads_logged:
  assumes "holds h (ps_buf s)" and "ps_log s = Some h"
  shows "\<exists>s'. pty_reads s chunks = Some s'
    \<and> ps_log s' = Some (h @ concat (map (\<lambda>c. DeleteAll c dsrQuery) chunks))
    \<and> holds (h @ concat (map (\<lambda>c. DeleteAll c dsrQuery) chunks)) (ps_buf s')
    \<and> ps_tty s' = ps_tty s @ concat (map (\<lambda>c. if Contains c dsrQuery then dsrResponse else []) chunks)"
proof -
  have "pty_history h s" using assms by (simp add: pty_history_def)
  from pty_reads_history [OF this, of chunks] obtain s' where "pty_reads s chunks = Some s'"
    "pty_history (h @ concat (map (\<lambda>c. DeleteAll c dsrQuery) chunks)) s'" "ps_log s' \<noteq> None"
    "ps_tty s' = ps_tty s @ concat (map (\<lambda>c. if Contains c dsrQuery then dsrResponse else []) chunks)"
    using pty_reads_log [of s chunks] assms(2) by fastforce
  then show ?thesis by (auto simp: pty_history_def)
qed

lemma pty_reads_logged_witness:
  "\<exists>s'. pty_reads pty_sample [''x'' @ dsrQuery @ ''y'', ''fghi''] = Some s'
    \<and> ps_log s' = Some ''XXXXXXabcdexyfghi'' \<and> ps_tty s' = dsrResponse"
proof -
  have l: "ps_log pty_sample = Some ''XXXXXXabcde''" "ps_tty pty_sample = []" by (simp_all add: pty_sample_def)
  have d: "concat (map (\<lambda>c. DeleteAll c dsrQuery) [''x'' @ dsrQuery @ ''y'', ''fghi'']) = ''xyfghi''"
    "concat (map (\<lambda>c. if Contains c dsrQuery then dsrResponse else []) [''x'' @ dsrQuery @ ''y'', ''fghi''])
       = dsrResponse" by code_simp+
  have e: "''XXXXXXabcde'' @ ''xyfghi'' = ''XXXXXXabcdexyfghi''" by simp
  from pty_reads_logged [OF sample_fits(1) l(1), of "[''x'' @ dsrQuery @ ''y'', ''fghi'']", unfolded d e l(2) append_Nil]
  show ?thesis by blast
qed

text \<open>A cursor-position query that two reads of the device split is missed: it reaches the buffer as
  output, and the program that asked gets no answer.\<close>

theorem dsr_query_split:
  assumes "holds h (ps_buf s)" and "u @ v = dsrQuery" and "u \<noteq> []" and "v \<noteq> []"
  shows "\<exists>s'. pty_reads s [u, v] = Some s' \<and> holds (h @ dsrQuery) (ps_buf s') \<and> ps_tty s' = ps_tty s"
proof -
  have "pty_history h (s\<lparr>ps_log := None\<rparr>)" using assms(1) by (simp add: pty_history_def)
  have nc: "\<not> Contains u dsrQuery" "\<not> Contains v dsrQuery"
  proof -
    have "length u < length dsrQuery" "length v < length dsrQuery"
      using assms(3,4) by (simp_all flip: assms(2))
    then show "\<not> Contains u dsrQuery" "\<not> Contains v dsrQuery" by (auto simp: Contains_iff)
  qed
  obtain rb1 where 1: "Write (ps_buf s) u = Some (rb1, int (length u))" "holds (h @ u) rb1"
    using Write_holds [OF assms(1)] by blast
  obtain rb2 where 2: "Write rb1 v = Some (rb2, int (length v))" "holds ((h @ u) @ v) rb2"
    using Write_holds [OF 1(2)] by blast
  show ?thesis
    using 1 2 assms(2-4) by (simp add: pty_read_simple nc DeleteAll_absent pty_output_def Let_def)
qed

lemma dsr_query_split_witness:
  "\<exists>s'. pty_reads pty_sample [ESC # ''['', ''6n''] = Some s'
     \<and> holds (''XXXXXXabcde'' @ dsrQuery) (ps_buf s') \<and> ps_tty s' = []"
proof -
  have "(ESC # ''['') @ ''6n'' = dsrQuery" by (simp add: dsrQuery_def)
  from dsr_query_split [OF sample_fits(1) this] show ?thesis by (simp add: pty_sample_def)
qed

end
