(* ===== verification/Go_JSON.thy ===== *)
theory Go_JSON
  imports Regex Go_Errors
begin

text \<open>
  What the program relies on in \<open>encoding/json\<close>, on decoded values (the text form of a document is
  the library's). A Go string is encoded with every invalid byte replaced by U+FFFD; a document is decoded
  into a struct field by field, names compared without regard to case, absent and \<open>null\<close> fields left
  at their zero value, a value of the wrong kind an error.
\<close>

datatype json =
    JNull
  | JBool bool
  | JInt int
  | JFloat bytes
  | JStr bytes
  | JArr "json list"
  | JObj "(bytes \<times> json) list"

section \<open>Strings on the wire\<close>

definition replacement :: chunk where
  "replacement = (runeError, [CHR 0xEF, CHR 0xBF, CHR 0xBD])"

definition json_str :: "bytes \<Rightarrow> bytes" where
  "json_str s = bytes_of (map (\<lambda>c. if valid_chunk c then c else replacement) (runes s))"

definition Str :: "bytes \<Rightarrow> json" where
  "Str s = JStr (json_str s)"

lemma json_str_valid: "valid_utf8 s \<Longrightarrow> json_str s = s"
proof -
  assume "valid_utf8 s"
  then have "map (\<lambda>c. if valid_chunk c then c else replacement) (runes s) = runes s"
    by (auto simp: valid_utf8_def list_all_iff intro: map_idI)
  then show ?thesis by (simp add: json_str_def)
qed

lemma replacement_chunk: "utf8_chunk replacement" "valid_chunk replacement"
proof -
  have "decode_rune ([CHR 0xEF, CHR 0xBF, CHR 0xBD] @ t) = (runeError, 3)" for t
    by (simp add: decode_rune.simps(2) second_ok.simps is_cont.simps runeError_def)
  then show "utf8_chunk replacement" by (simp add: utf8_chunk_def replacement_def)
  show "valid_chunk replacement" by (simp add: valid_chunk_def replacement_def)
qed

lemma runes_json_str: "runes (json_str s) = map (\<lambda>c. if valid_chunk c then c else replacement) (runes s)"
  unfolding json_str_def
  by (rule runes_bytes_of) (auto simp: list_all_iff replacement_chunk intro: runes_utf8_chunks)

lemma valid_json_str: "valid_utf8 (json_str s)"
  by (auto simp: valid_utf8_def runes_json_str list_all_iff replacement_chunk)

lemma json_str_iff: "json_str s = s \<longleftrightarrow> valid_utf8 s"
  using valid_json_str [of s] json_str_valid [of s] by metis

section \<open>Decoding into a struct\<close>

definition same_name :: "bytes \<Rightarrow> bytes \<Rightarrow> bool" where
  "same_name key name \<longleftrightarrow> list_all2 (\<lambda>k n. fold_eq (fst n) (fst k)) (runes key) (runes name)"

fun field :: "bytes \<Rightarrow> (bytes \<times> 'v) list \<Rightarrow> 'v option" where
  "field name [] = None"
| "field name ((k, v) # fs) =
     (case field name fs of Some w \<Rightarrow> Some w | None \<Rightarrow> if same_name k name then Some v else None)"

definition type_error :: "bytes \<Rightarrow> json \<Rightarrow> bytes \<Rightarrow> go_error" where
  "type_error name v ty =
     (let kind = (case v of JBool _ \<Rightarrow> ''bool'' | JStr _ \<Rightarrow> ''string'' | JArr _ \<Rightarrow> ''array'' | JObj _ \<Rightarrow> ''object''
                  | _ \<Rightarrow> ''number'')
      in Errorf (''json: cannot unmarshal '' @ kind @ '' into Go struct field '' @ name @ '' of type '' @ ty))"

fun members :: "json \<Rightarrow> (bytes \<times> json) list result" where
  "members (JObj fs) = Inr fs"
| "members JNull = Inr []"
| "members v = Inl (type_error [] v ''struct'')"

definition get_string :: "bytes \<Rightarrow> (bytes \<times> json) list \<Rightarrow> bytes result" where
  "get_string name fs =
     (case field name fs of
        None \<Rightarrow> Inr [] | Some JNull \<Rightarrow> Inr [] | Some (JStr s) \<Rightarrow> Inr s
      | Some v \<Rightarrow> Inl (type_error name v ''string''))"

definition get_int :: "bytes \<Rightarrow> (bytes \<times> json) list \<Rightarrow> int result" where
  "get_int name fs =
     (case field name fs of
        None \<Rightarrow> Inr 0 | Some JNull \<Rightarrow> Inr 0
      | Some (JInt n) \<Rightarrow> if minInt \<le> n \<and> n \<le> maxInt then Inr n else Inl (type_error name (JInt n) ''int'')
      | Some v \<Rightarrow> Inl (type_error name v ''int''))"

definition get_bool :: "bytes \<Rightarrow> (bytes \<times> json) list \<Rightarrow> bool result" where
  "get_bool name fs =
     (case field name fs of
        None \<Rightarrow> Inr False | Some JNull \<Rightarrow> Inr False | Some (JBool b) \<Rightarrow> Inr b
      | Some v \<Rightarrow> Inl (type_error name v ''bool''))"

text \<open>Sequencing of results that may fail.\<close>

definition bind_result :: "'a result \<Rightarrow> ('a \<Rightarrow> 'b result) \<Rightarrow> 'b result" where
  "bind_result r f = (case r of Inl e \<Rightarrow> Inl e | Inr x \<Rightarrow> f x)"

lemma bind_result_simps [simp]: "bind_result (Inl e) f = Inl e" "bind_result (Inr x) f = f x"
  by (simp_all add: bind_result_def)

end
