(* ===== verification/Aitx_Server.thy ===== *)
theory Aitx_Server
  imports Pty_Session Go_JSON
begin

text \<open>
  \<open>internal/aitx/server.go\<close> and \<open>internal/aitx/protocol.go\<close>: the ai-tmux daemon, which keeps
  terminal sessions alive for clients that come and go. Each request is one function of the server's
  state; \<open>srv_env\<close> holds what the environment contributes to a request (clock, fresh session id,
  the terminal's answers). Log lines are not modelled.
\<close>

section \<open>Protocol\<close>

record Request =
  rq_ID :: bytes
  rq_Method :: bytes
  rq_Params :: json

record Response =
  rs_ID :: bytes
  rs_Result :: "json option"
  rs_Error :: bytes

record OutputResult =
  or_Output :: bytes
  or_IsAlive :: bool
  or_IsComplete :: bool

definition Params_CreateSession :: "bytes \<Rightarrow> bytes \<Rightarrow> json" where
  "Params_CreateSession cmd nm = JObj [(''command'', Str cmd), (''name'', Str nm)]"

definition Params_SendInput :: "bytes \<Rightarrow> bytes \<Rightarrow> int \<Rightarrow> json" where
  "Params_SendInput sid input ms =
     JObj [(''session_id'', Str sid), (''input'', Str input), (''timeout_ms'', JInt ms)]"

definition Params_ReadOutput :: "bytes \<Rightarrow> int \<Rightarrow> json" where
  "Params_ReadOutput sid ms = JObj [(''session_id'', Str sid), (''timeout_ms'', JInt ms)]"

definition Params_SendControl :: "bytes \<Rightarrow> bytes \<Rightarrow> json" where
  "Params_SendControl sid key = JObj [(''session_id'', Str sid), (''key'', Str key)]"

definition Params_SessionID :: "bytes \<Rightarrow> json" where
  "Params_SessionID sid = JObj [(''session_id'', Str sid)]"

definition Params_Resize :: "bytes \<Rightarrow> int \<Rightarrow> int \<Rightarrow> json" where
  "Params_Resize sid rows cols =
     JObj [(''session_id'', Str sid), (''rows'', JInt rows), (''cols'', JInt cols)]"

definition Params_SendRaw :: "bytes \<Rightarrow> bytes \<Rightarrow> int \<Rightarrow> json" where
  "Params_SendRaw sid data ms =
     JObj [(''session_id'', Str sid), (''data'', Str data), (''timeout_ms'', JInt ms)]"

definition json_OutputResult :: "OutputResult \<Rightarrow> json" where
  "json_OutputResult r = JObj [(''output'', Str (or_Output r)), (''is_alive'', JBool (or_IsAlive r)),
     (''is_complete'', JBool (or_IsComplete r))]"

section \<open>State and environment\<close>

record aitx_server =
  srv_sessions :: "bytes \<rightharpoonup> pty_session"
  srv_idleTimeout :: int

record srv_env =
  e_now :: int
  e_id :: bytes
  e_environ :: "bytes list"
  e_bufVal :: bytes
  e_startErr :: "go_error option"
  e_first :: "bytes list"
  e_replies :: "bytes list list"
  e_writeErr :: "go_error option"
  e_resizeErr :: "go_error option"
  e_turns :: "turn list"
  e_late :: "bytes list"

definition maxAiTmuxSessions :: nat where "maxAiTmuxSessions = 100"

definition ok_resp :: "Request \<Rightarrow> json \<Rightarrow> Response" where
  "ok_resp req r = \<lparr>rs_ID = rq_ID req, rs_Result = Some r, rs_Error = []\<rparr>"

definition err_resp :: "Request \<Rightarrow> bytes \<Rightarrow> Response" where
  "err_resp req m = \<lparr>rs_ID = rq_ID req, rs_Result = None, rs_Error = m\<rparr>"

definition limit_msg :: bytes where
  "limit_msg = ''session limit reached ('' @ dec (int maxAiTmuxSessions) @ '' max)''"

section \<open>Requests\<close>

definition getSession :: "aitx_server \<Rightarrow> bytes \<Rightarrow> pty_session result" where
  "getSession srv sid =
     (case srv_sessions srv sid of
        None \<Rightarrow> Inl (Errorf (''session '' @ Quote sid @ '' not found'')) | Some s \<Rightarrow> Inr s)"

definition set_session :: "aitx_server \<Rightarrow> bytes \<Rightarrow> pty_session \<Rightarrow> aitx_server" where
  "set_session srv sid s = srv\<lparr>srv_sessions := (srv_sessions srv)(sid \<mapsto> s)\<rparr>"

text \<open>
  \<open>createSession\<close> takes the lock twice; \<open>meanwhile\<close> is what the other connections do to the
  server between the two.
\<close>

definition register :: "aitx_server \<Rightarrow> bytes \<Rightarrow> pty_session \<Rightarrow> Request \<Rightarrow> aitx_server \<times> Response" where
  "register srv sid s req =
     (if card (dom (srv_sessions srv)) \<ge> maxAiTmuxSessions then (srv, err_resp req limit_msg)
      else (set_session srv sid s,
            ok_resp req (JObj [(''session_id'', Str sid), (''type'', Str ''pty''), (''name'', Str (ps_name s))])))"

definition createSession ::
  "srv_env \<Rightarrow> (aitx_server \<Rightarrow> aitx_server) \<Rightarrow> aitx_server \<Rightarrow> Request \<Rightarrow> (aitx_server \<times> Response) option" where
  "createSession e meanwhile srv req =
     (case bind_result (members (rq_Params req)) (\<lambda>fs.
             bind_result (get_string ''command'' fs) (\<lambda>cmd.
             bind_result (get_string ''name'' fs) (\<lambda>nm. Inr (cmd, nm)))) of
        Inl err \<Rightarrow> Some (srv, err_resp req (ErrorMsg err))
      | Inr (cmd, nm) \<Rightarrow>
          if card (dom (srv_sessions srv)) \<ge> maxAiTmuxSessions then Some (srv, err_resp req limit_msg)
          else do { r \<leftarrow> newPTYSession (e_id e) nm cmd False (e_environ e) (e_bufVal e) (e_now e) (e_startErr e)
                          (e_first e) (e_replies e);
                    Some (case r of
                            Inl err \<Rightarrow> (srv, err_resp req (ErrorMsg err))
                          | Inr s \<Rightarrow> register (meanwhile srv) (e_id e) s req) })"

text \<open>Read the session's screen and answer with it: the tail of four of the requests.\<close>

definition read_and_reply ::
  "srv_env \<Rightarrow> aitx_server \<Rightarrow> bytes \<Rightarrow> pty_session \<Rightarrow> int \<Rightarrow> Request \<Rightarrow> (aitx_server \<times> Response) option" where
  "read_and_reply e srv sid s ms req =
     do { (out, complete, s) \<leftarrow> pty_ReadScreen s False ms (e_now e) (e_turns e) (e_late e);
          Some (set_session srv sid s,
                ok_resp req (json_OutputResult \<lparr>or_Output = out, or_IsAlive = ps_alive s, or_IsComplete = complete\<rparr>)) }"

definition sendInput :: "srv_env \<Rightarrow> aitx_server \<Rightarrow> Request \<Rightarrow> (aitx_server \<times> Response) option" where
  "sendInput e srv req =
     (case bind_result (members (rq_Params req)) (\<lambda>fs.
             bind_result (get_string ''session_id'' fs) (\<lambda>sid.
             bind_result (get_string ''input'' fs) (\<lambda>input.
             bind_result (get_int ''timeout_ms'' fs) (\<lambda>ms. Inr (sid, input, ms))))) of
        Inl err \<Rightarrow> Some (srv, err_resp req (ErrorMsg err))
      | Inr (sid, input, ms) \<Rightarrow>
          (case getSession srv sid of
             Inl err \<Rightarrow> Some (srv, err_resp req (ErrorMsg err))
           | Inr s \<Rightarrow>
               (case pty_Write (e_now e) (e_writeErr e) s input of
                  (s, Some err) \<Rightarrow> Some (set_session srv sid s, err_resp req (ErrorMsg err))
                | (s, None) \<Rightarrow> read_and_reply e srv sid s ms req)))"

definition readOutput :: "srv_env \<Rightarrow> aitx_server \<Rightarrow> Request \<Rightarrow> (aitx_server \<times> Response) option" where
  "readOutput e srv req =
     (case bind_result (members (rq_Params req)) (\<lambda>fs.
             bind_result (get_string ''session_id'' fs) (\<lambda>sid.
             bind_result (get_int ''timeout_ms'' fs) (\<lambda>ms. Inr (sid, ms)))) of
        Inl err \<Rightarrow> Some (srv, err_resp req (ErrorMsg err))
      | Inr (sid, ms) \<Rightarrow>
          (case getSession srv sid of
             Inl err \<Rightarrow> Some (srv, err_resp req (ErrorMsg err))
           | Inr s \<Rightarrow> read_and_reply e srv sid s (if ms \<le> 0 then 5000 else ms) req))"

definition controlKeys :: "bytes \<rightharpoonup> bytes" where
  "controlKeys = map_of [
     (''ctrl+c'', [CHR 0x03]), (''ctrl+d'', [CHR 0x04]), (''ctrl+z'', [CHR 0x1A]),
     (''ctrl+l'', [CHR 0x0C]), (''ctrl+r'', [CHR 0x12]), (''enter'', [CR]),
     (''tab'', [CHR 0x09]), (''escape'', [ESC]),
     (''up'', ESC # ''[A''), (''down'', ESC # ''[B''), (''left'', ESC # ''[D''), (''right'', ESC # ''[C'')]"

text \<open>\<open>WriteRaw\<close> to the session and answer with its screen, for control keys and raw data.\<close>

definition raw_and_reply ::
  "srv_env \<Rightarrow> aitx_server \<Rightarrow> bytes \<Rightarrow> bytes \<Rightarrow> int \<Rightarrow> Request \<Rightarrow> (aitx_server \<times> Response) option" where
  "raw_and_reply e srv sid data ms req =
     (case getSession srv sid of
        Inl err \<Rightarrow> Some (srv, err_resp req (ErrorMsg err))
      | Inr s \<Rightarrow>
          (case pty_WriteRaw (e_now e) (e_writeErr e) s data of
             (s, Some err) \<Rightarrow> Some (set_session srv sid s, err_resp req (ErrorMsg err))
           | (s, None) \<Rightarrow> read_and_reply e srv sid s ms req))"

definition sendControl :: "srv_env \<Rightarrow> aitx_server \<Rightarrow> Request \<Rightarrow> (aitx_server \<times> Response) option" where
  "sendControl e srv req =
     (case bind_result (members (rq_Params req)) (\<lambda>fs.
             bind_result (get_string ''session_id'' fs) (\<lambda>sid.
             bind_result (get_string ''key'' fs) (\<lambda>key. Inr (sid, key)))) of
        Inl err \<Rightarrow> Some (srv, err_resp req (ErrorMsg err))
      | Inr (sid, key) \<Rightarrow>
          (case controlKeys key of
             None \<Rightarrow> Some (srv, err_resp req (''unknown control key: '' @ key))
           | Some sq \<Rightarrow> raw_and_reply e srv sid sq 5000 req))"

definition sendRaw :: "srv_env \<Rightarrow> aitx_server \<Rightarrow> Request \<Rightarrow> (aitx_server \<times> Response) option" where
  "sendRaw e srv req =
     (case bind_result (members (rq_Params req)) (\<lambda>fs.
             bind_result (get_string ''session_id'' fs) (\<lambda>sid.
             bind_result (get_string ''data'' fs) (\<lambda>data.
             bind_result (get_int ''timeout_ms'' fs) (\<lambda>ms. Inr (sid, data, ms))))) of
        Inl err \<Rightarrow> Some (srv, err_resp req (ErrorMsg err))
      | Inr (sid, data, ms) \<Rightarrow> raw_and_reply e srv sid data ms req)"

text \<open>
  The map is listed in whatever order Go iterates it, \<open>order\<close>; \<open>fmt\<close> is
  \<open>Format(time.RFC3339)\<close>.
\<close>

definition session_info :: "(int \<Rightarrow> bytes) \<Rightarrow> pty_session \<Rightarrow> json" where
  "session_info fmt s = JObj [(''id'', Str (ps_id s)), (''name'', Str (ps_name s)), (''command'', Str (ps_command s)),
     (''is_alive'', JBool (ps_alive s)), (''created_at'', Str (fmt (ps_createdAt s))),
     (''last_used'', Str (fmt (ps_lastUsed s)))]"

definition listSessions :: "(int \<Rightarrow> bytes) \<Rightarrow> bytes list \<Rightarrow> aitx_server \<Rightarrow> Request \<Rightarrow> aitx_server \<times> Response" where
  "listSessions fmt order srv req =
     (srv, ok_resp req (JArr (map (session_info fmt) (List.map_filter (srv_sessions srv) order))))"

definition closeSession :: "aitx_server \<Rightarrow> Request \<Rightarrow> aitx_server \<times> Response \<times> pty_session option" where
  "closeSession srv req =
     (case bind_result (members (rq_Params req)) (get_string ''session_id'') of
        Inl err \<Rightarrow> (srv, err_resp req (ErrorMsg err), None)
      | Inr sid \<Rightarrow>
          (case srv_sessions srv sid of
             None \<Rightarrow> (srv, err_resp req (''session '' @ Quote sid @ '' not found''), None)
           | Some s \<Rightarrow> (srv\<lparr>srv_sessions := map_delete sid (srv_sessions srv)\<rparr>,
                        ok_resp req (JObj [(''success'', JBool True)]), Some (fst (pty_Close s)))))"

definition resizeSession :: "srv_env \<Rightarrow> aitx_server \<Rightarrow> Request \<Rightarrow> aitx_server \<times> Response \<times> (int \<times> int) option" where
  "resizeSession e srv req =
     (case bind_result (members (rq_Params req)) (\<lambda>fs.
             bind_result (get_string ''session_id'' fs) (\<lambda>sid.
             bind_result (get_int ''rows'' fs) (\<lambda>rows.
             bind_result (get_int ''cols'' fs) (\<lambda>cols. Inr (sid, rows, cols))))) of
        Inl err \<Rightarrow> (srv, err_resp req (ErrorMsg err), None)
      | Inr (sid, rows, cols) \<Rightarrow>
          if rows \<le> 0 \<or> cols \<le> 0 then (srv, err_resp req ''rows and cols must be positive'', None)
          else if rows > 500 \<or> cols > 1000
            then (srv, err_resp req ''rows must be <= 500 and cols must be <= 1000'', None)
          else (case getSession srv sid of
             Inl err \<Rightarrow> (srv, err_resp req (ErrorMsg err), None)
           | Inr s \<Rightarrow>
               (case e_resizeErr e of
                  Some err \<Rightarrow> (srv, err_resp req (ErrorMsg err), None)
                | None \<Rightarrow> (srv, ok_resp req (JObj [(''success'', JBool True)]), Some (pty_Resize rows cols)))))"

definition handle ::
  "srv_env \<Rightarrow> (int \<Rightarrow> bytes) \<Rightarrow> bytes list \<Rightarrow> (aitx_server \<Rightarrow> aitx_server) \<Rightarrow> aitx_server \<Rightarrow> Request
     \<Rightarrow> (aitx_server \<times> Response) option" where
  "handle e fmt order meanwhile srv req =
     (let m = rq_Method req in
      if m = ''create_session'' then createSession e meanwhile srv req
      else if m = ''send_input'' then sendInput e srv req
      else if m = ''read_output'' then readOutput e srv req
      else if m = ''send_control'' then sendControl e srv req
      else if m = ''list_sessions'' then Some (listSessions fmt order srv req)
      else if m = ''close_session'' then (case closeSession srv req of (srv, r, _) \<Rightarrow> Some (srv, r))
      else if m = ''resize_session'' then (case resizeSession e srv req of (srv, r, _) \<Rightarrow> Some (srv, r))
      else if m = ''send_raw'' then sendRaw e srv req
      else Some (srv, err_resp req (''unknown method: '' @ m)))"

section \<open>Reaping and shutdown\<close>

definition idle :: "int \<Rightarrow> int \<Rightarrow> pty_session \<Rightarrow> bool" where
  "idle now timeout s \<longleftrightarrow> now - ps_lastUsed s > timeout"

text \<open>One tick of the reaper: what it leaves, and what it removed and closed.\<close>

definition idleReaper :: "int \<Rightarrow> aitx_server \<Rightarrow> aitx_server \<times> pty_session set" where
  "idleReaper now srv =
     (let expired = (\<lambda>s. idle now (srv_idleTimeout srv) s)
      in (srv\<lparr>srv_sessions := (\<lambda>sid. case srv_sessions srv sid of
              Some s \<Rightarrow> if expired s then None else Some s | None \<Rightarrow> None)\<rparr>,
          (\<lambda>s. fst (pty_Close s)) ` {s \<in> ran (srv_sessions srv). expired s}))"

definition closeAll :: "aitx_server \<Rightarrow> aitx_server \<times> pty_session set" where
  "closeAll srv = (srv\<lparr>srv_sessions := Map.empty\<rparr>, (\<lambda>s. fst (pty_Close s)) ` ran (srv_sessions srv))"

section \<open>The server's invariant\<close>

definition live_buf :: "pty_session \<Rightarrow> bool" where
  "live_buf s \<longleftrightarrow> (\<exists>h. holds h (ps_buf s))"

definition server_ok :: "aitx_server \<Rightarrow> bool" where
  "server_ok srv \<longleftrightarrow> finite (dom (srv_sessions srv)) \<and> card (dom (srv_sessions srv)) \<le> maxAiTmuxSessions
     \<and> (\<forall>sid s. srv_sessions srv sid = Some s \<longrightarrow> live_buf s)"

lemma live_pty_Write [wf_intros]: "live_buf s \<Longrightarrow> live_buf (fst (pty_Write now err s x))"
  and live_pty_WriteRaw [wf_intros]: "live_buf s \<Longrightarrow> live_buf (fst (pty_WriteRaw now err s x))"
  by (auto simp: live_buf_def pty_Write_def pty_WriteRaw_def intro: Mark_holds)

lemma live_pty_ReadScreen:
  assumes "live_buf s"
  obtains out c s' where "pty_ReadScreen s cancelled ms start turns late = Some (out, c, s')" "live_buf s'"
    "valid_utf8 out" "ps_tty s' = ps_tty s" "ps_alive s' = ps_alive s"
proof -
  obtain h where "holds h (ps_buf s)" using assms by (auto simp: live_buf_def)
  from read_screen_total [OF this, of cancelled ms start turns late] obtain out c rb' h' where
    r: "read_screen (ps_buf s) cancelled ms start turns late = Some (out, c, rb')" "holds h' rb'" "valid_utf8 out"
    by blast
  show thesis
    by (rule that [of out c "s\<lparr>ps_buf := rb', ps_lastUsed := start\<rparr>"])
      (use r in \<open>auto simp: pty_ReadScreen_def live_buf_def\<close>)
qed

lemma inject_all_history:
  "\<exists>h. pty_history h s \<Longrightarrow> \<exists>s' h. inject_all s ls = Some s' \<and> pty_history h s'"
proof (induction s ls rule: inject_all.induct)
  case (2 s line chunks ls)
  then obtain h where "pty_history h s" by blast
  then have "pty_history h (s\<lparr>ps_tty := ps_tty s @ line\<rparr>)" by (simp add: pty_history_def)
  from pty_reads_history [OF this, of chunks] obtain s1 h1 where
    "pty_reads (s\<lparr>ps_tty := ps_tty s @ line\<rparr>) chunks = Some s1" "pty_history h1 s1" by blast
  with "2.IH" [of s1] show ?case by auto
qed auto

lemma live_newPTYSession:
  "\<exists>r. newPTYSession sid nm cmd hasLog environ bufVal now err first replies = Some r
     \<and> (\<forall>s. r = Inr s \<longrightarrow> live_buf s)"
proof (cases err)
  case None
  obtain rb where rb: "NewRingBuffer (BufferSizeFromEnv bufVal) = Some rb" "holds [] rb"
    using BufferSizeFromEnv_new by blast
  let ?cmd = "if cmd = [] then ''/bin/bash'' else cmd"
  define s0 where "s0 = \<lparr>ps_id = sid, ps_name = (if nm = [] then ?cmd else nm), ps_command = ?cmd,
    ps_args = (if isPowerShell ?cmd then [''-NoLogo'', ''-NoProfile''] else []),
    ps_env = environ @ (if isPowerShell ?cmd then powerShellEnv else [''TERM=xterm-256color'']),
    ps_buf = rb, ps_log = (if hasLog then Some [] else None), ps_tty = [],
    ps_alive = True, ps_closed = False, ps_readDone = False, ps_killed = False,
    ps_logClosed = False, ps_createdAt = now, ps_lastUsed = now\<rparr>"
  have "pty_history [] s0" using rb(2) by (simp add: s0_def pty_history_def)
  from pty_reads_history [OF this, of first] obtain s1 h1 where
    1: "pty_reads s0 first = Some s1" "pty_history h1 s1" by blast
  from inject_all_history [of s1 "zip inject (replies @ replicate (length inject) [])"] 1(2) obtain s2 h2 where
    2: "inject_all s1 (zip inject (replies @ replicate (length inject) [])) = Some s2" "pty_history h2 s2" by blast
  have live: "live_buf s1" "live_buf (s2\<lparr>ps_buf := Mark (ps_buf s2)\<rparr>)"
    using 1(2) 2(2) by (auto simp: live_buf_def pty_history_def intro: Mark_holds)
  have "newPTYSession sid nm cmd hasLog environ bufVal now err first replies
      = Some (Inr (if isPowerShell ?cmd then s2\<lparr>ps_buf := Mark (ps_buf s2)\<rparr> else s1))"
    unfolding newPTYSession_def Let_def None option.case rb(1) bind.bind_lunit s0_def [symmetric] 1(1)
    by (simp add: 2(1))
  with live show ?thesis by simp
qed (simp add: newPTYSession_def Let_def)

lemma server_ok_set [wf_intros]:
  "server_ok srv \<Longrightarrow> srv_sessions srv sid = Some s \<Longrightarrow> live_buf s' \<Longrightarrow> server_ok (set_session srv sid s')"
  by (auto simp: server_ok_def set_session_def insert_absorb domI)

lemma server_ok_register [wf_intros]:
  assumes "server_ok srv" and "live_buf s"
  shows "server_ok (fst (register srv sid s req))"
proof (cases "card (dom (srv_sessions srv)) \<ge> maxAiTmuxSessions")
  case False
  then have "card (dom ((srv_sessions srv)(sid \<mapsto> s))) \<le> maxAiTmuxSessions"
    using card_dom_upd_le [of "srv_sessions srv" sid s] assms(1) by (simp add: server_ok_def)
  with False assms show ?thesis by (auto simp: register_def server_ok_def set_session_def)
qed (use assms in \<open>simp add: register_def\<close>)

lemma server_ok_delete [wf_intros]:
  "server_ok srv \<Longrightarrow> server_ok (srv\<lparr>srv_sessions := map_delete sid (srv_sessions srv)\<rparr>)"
  using card_dom_delete_le [of "srv_sessions srv" sid] by (auto simp: server_ok_def)

text \<open>\<open>answers\<close>: the request is answered without a panic, with its own id, and the invariant holds after.\<close>

definition answers :: "Request \<Rightarrow> (aitx_server \<times> Response) option \<Rightarrow> bool" where
  "answers req r \<longleftrightarrow> (\<exists>srv resp. r = Some (srv, resp) \<and> server_ok srv \<and> rs_ID resp = rq_ID req
     \<and> (rs_Result resp = None \<or> rs_Error resp = []))"

lemma resp_simps [simp]:
  "rs_ID (ok_resp req j) = rq_ID req" "rs_ID (err_resp req m) = rq_ID req"
  "rs_Error (ok_resp req j) = []" "rs_Result (err_resp req m) = None"
  "rs_Result (ok_resp req j) = Some j" "rs_Error (err_resp req m) = m"
  by (simp_all add: ok_resp_def err_resp_def)

lemma answers_err [intro]: "server_ok srv \<Longrightarrow> answers req (Some (srv, err_resp req m))"
  and answers_ok [intro]: "server_ok srv \<Longrightarrow> answers req (Some (srv, ok_resp req j))"
  by (auto simp: answers_def)

lemma answers_read:
  assumes "server_ok srv" "srv_sessions srv sid = Some s0" "live_buf s"
  shows "answers req (read_and_reply e srv sid s ms req)"
proof -
  obtain out c s' where "pty_ReadScreen s False ms (e_now e) (e_turns e) (e_late e) = Some (out, c, s')" "live_buf s'"
    using live_pty_ReadScreen [OF assms(3)] by metis
  with assms(1,2) show ?thesis by (auto simp: read_and_reply_def intro: server_ok_set)
qed

lemma getSession_Inr: "getSession srv sid = Inr s \<longleftrightarrow> srv_sessions srv sid = Some s"
  by (simp add: getSession_def split: option.split)

lemma server_ok_live: "server_ok srv \<Longrightarrow> srv_sessions srv sid = Some s \<Longrightarrow> live_buf s"
  by (simp add: server_ok_def)

lemma answers_write:
  assumes "server_ok srv" "srv_sessions srv sid = Some s" "live_buf (fst w)"
  shows "answers req (case w of (s, Some err) \<Rightarrow> Some (set_session srv sid s, err_resp req (ErrorMsg err))
           | (s, None) \<Rightarrow> read_and_reply e srv sid s ms req)"
  using assms by (cases w) (auto split: option.split intro: server_ok_set answers_read)

lemma answers_raw:
  assumes "server_ok srv"
  shows "answers req (raw_and_reply e srv sid data ms req)"
proof (cases "getSession srv sid")
  case (Inr s)
  then have "srv_sessions srv sid = Some s" by (simp add: getSession_Inr)
  with assms show ?thesis
    unfolding raw_and_reply_def Inr sum.case
    by (blast intro: answers_write live_pty_WriteRaw server_ok_live)
qed (use assms in \<open>auto simp: raw_and_reply_def\<close>)

lemma answers_createSession:
  assumes "server_ok srv" and "server_ok (meanwhile srv)"
  shows "answers req (createSession e meanwhile srv req)"
proof -
  have reg: "answers req (Some (register srv' sid s req))" if "server_ok srv'" "live_buf s" for srv' sid s
    using server_ok_register [OF that, of sid req] by (auto simp: answers_def register_def)
  have new: "answers req (do { r \<leftarrow> newPTYSession (e_id e) nm cmd False (e_environ e) (e_bufVal e) (e_now e)
        (e_startErr e) (e_first e) (e_replies e);
      Some (case r of Inl err \<Rightarrow> (srv, err_resp req (ErrorMsg err)) | Inr s \<Rightarrow> register (meanwhile srv) (e_id e) s req) })"
    for nm cmd
  proof -
    obtain r where r: "newPTYSession (e_id e) nm cmd False (e_environ e) (e_bufVal e) (e_now e)
        (e_startErr e) (e_first e) (e_replies e) = Some r" "\<forall>s. r = Inr s \<longrightarrow> live_buf s"
      using live_newPTYSession by blast
    then show ?thesis using assms reg by (cases r) auto
  qed
  show ?thesis
    unfolding createSession_def using assms(1) new
    by (auto split: sum.split)
qed

lemma answers_sendInput: "server_ok srv \<Longrightarrow> answers req (sendInput e srv req)"
proof -
  assume ok: "server_ok srv"
  have w: "answers req (case getSession srv sid of
             Inl err \<Rightarrow> Some (srv, err_resp req (ErrorMsg err))
           | Inr s \<Rightarrow>
               (case pty_Write (e_now e) (e_writeErr e) s input of
                  (s, Some err) \<Rightarrow> Some (set_session srv sid s, err_resp req (ErrorMsg err))
                | (s, None) \<Rightarrow> read_and_reply e srv sid s ms req))" for sid input ms
  proof (cases "getSession srv sid")
    case (Inr s)
    then have "srv_sessions srv sid = Some s" by (simp add: getSession_Inr)
    with ok show ?thesis
      unfolding Inr sum.case by (blast intro: answers_write live_pty_Write server_ok_live)
  qed (use ok in auto)
  show ?thesis unfolding sendInput_def using ok w by (auto split: sum.split simp del: Let_def)
qed

lemma answers_readOutput: "server_ok srv \<Longrightarrow> answers req (readOutput e srv req)"
  by (auto simp: readOutput_def getSession_Inr split: sum.split intro: answers_read server_ok_live)

lemma answers_sendControl: "server_ok srv \<Longrightarrow> answers req (sendControl e srv req)"
  and answers_sendRaw: "server_ok srv \<Longrightarrow> answers req (sendRaw e srv req)"
  by (auto simp: sendControl_def sendRaw_def split: sum.split option.split intro: answers_raw)

lemma answers_other:
  "server_ok srv \<Longrightarrow> answers req (Some (listSessions fmt order srv req))"
  "server_ok srv \<Longrightarrow> answers req (case closeSession srv req of (srv, r, _) \<Rightarrow> Some (srv, r))"
  "server_ok srv \<Longrightarrow> answers req (case resizeSession e srv req of (srv, r, _) \<Rightarrow> Some (srv, r))"
  by (auto simp: listSessions_def closeSession_def resizeSession_def split: sum.split option.split
      intro: server_ok_delete)

lemma answers_handle:
  "server_ok srv \<Longrightarrow> server_ok (meanwhile srv) \<Longrightarrow> answers req (handle e fmt order meanwhile srv req)"
  unfolding handle_def Let_def
  by (simp add: answers_createSession answers_sendInput answers_readOutput answers_sendControl
      answers_sendRaw answers_other answers_err)

section \<open>Properties of the server\<close>

text \<open>C31. The daemon always answers: from any state in which its sessions are sound and at most 100, every
  request, well-formed or not, gets exactly one response without a panic, under the request's own id, with
  either a result or an error, and the state is sound and within the limit afterwards, whatever other
  connections did between the two checks of the limit.\<close>

theorem handle_answers:
  assumes "server_ok srv" and "server_ok (meanwhile srv)"
  shows "\<exists>srv' resp. handle e fmt order meanwhile srv req = Some (srv', resp)
    \<and> rs_ID resp = rq_ID req \<and> (rs_Result resp = None \<or> rs_Error resp = [])
    \<and> (\<forall>sid s. srv_sessions srv' sid = Some s \<longrightarrow> live_buf s)
    \<and> card (dom (srv_sessions srv')) \<le> 100"
  using answers_handle [of srv meanwhile, OF assms] by (fastforce simp: answers_def server_ok_def maxAiTmuxSessions_def)

definition srv_sample :: aitx_server where
  "srv_sample = \<lparr>srv_sessions = [''s1'' \<mapsto> pty_sample], srv_idleTimeout = 1800\<rparr>"

definition env_sample :: srv_env where
  "env_sample = \<lparr>e_now = 5, e_id = ''s2'', e_environ = [], e_bufVal = [], e_startErr = None, e_first = [],
     e_replies = [], e_writeErr = None, e_resizeErr = None, e_turns = [], e_late = []\<rparr>"

lemma server_ok_sample: "server_ok srv_sample"
proof -
  have "live_buf pty_sample" using sample_fits(1) by (auto simp: live_buf_def)
  then show ?thesis by (auto simp: server_ok_def srv_sample_def maxAiTmuxSessions_def)
qed

lemma handle_answers_witness:
  "\<exists>srv' resp. handle env_sample (\<lambda>_. []) [] id srv_sample
       \<lparr>rq_ID = ''r1'', rq_Method = ''create_session'', rq_Params = JObj [(''Command'', JStr ''sh'')]\<rparr> = Some (srv', resp)
    \<and> rs_ID resp = ''r1'' \<and> card (dom (srv_sessions srv')) \<le> 100"
  using handle_answers [OF server_ok_sample, of id env_sample "\<lambda>_. []" "[]"
      "\<lparr>rq_ID = ''r1'', rq_Method = ''create_session'', rq_Params = JObj [(''Command'', JStr ''sh'')]\<rparr>"]
    server_ok_sample by auto

text \<open>A terminal is only ever resized to the size asked for: the device is resized exactly when both
  numbers are positive and within 500 by 1000, the session exists and the device accepts, and then the rows and
  columns it is given, after the conversion to 16 bits, are the requested ones.\<close>

theorem resizeSession_exact:
  assumes "rq_Params req = Params_Resize sid rows cols" and "valid_utf8 sid"
    and "minInt \<le> rows \<and> rows \<le> maxInt" and "minInt \<le> cols \<and> cols \<le> maxInt"
  shows "\<exists>resp. resizeSession e srv req
      = (srv, resp, if 0 < rows \<and> rows \<le> 500 \<and> 0 < cols \<and> cols \<le> 1000 \<and> sid \<in> dom (srv_sessions srv)
                       \<and> e_resizeErr e = None then Some (rows, cols) else None)"
proof -
  have n: "same_name ''cols'' ''cols''" "\<not> same_name ''cols'' ''rows''" "\<not> same_name ''cols'' ''session_id''"
    "same_name ''rows'' ''rows''" "\<not> same_name ''rows'' ''session_id''" "\<not> same_name ''session_id'' ''rows''"
    "\<not> same_name ''session_id'' ''cols''" "\<not> same_name ''rows'' ''cols''" "same_name ''session_id'' ''session_id''"
    by code_simp+
  have p: "bind_result (members (rq_Params req)) (\<lambda>fs.
             bind_result (get_string ''session_id'' fs) (\<lambda>sid.
             bind_result (get_int ''rows'' fs) (\<lambda>rows.
             bind_result (get_int ''cols'' fs) (\<lambda>cols. Inr (sid, rows, cols))))) = Inr (sid, rows, cols)"
    using assms by (simp add: Params_Resize_def get_string_def get_int_def n Str_def json_str_valid)
  show ?thesis
    unfolding resizeSession_def p
    by (auto simp: getSession_def pty_Resize_def split: option.split)
qed

lemma resizeSession_exact_witness:
  "\<exists>resp. resizeSession env_sample srv_sample
     \<lparr>rq_ID = ''r1'', rq_Method = ''resize_session'', rq_Params = Params_Resize ''s1'' 24 80\<rparr>
     = (srv_sample, resp, Some (24, 80))"
  using resizeSession_exact [of "\<lparr>rq_ID = ''r1'', rq_Method = ''resize_session'', rq_Params = Params_Resize ''s1'' 24 80\<rparr>"
      "''s1''" 24 80 env_sample srv_sample] ascii_valid_utf8 [of "''s1''"]
  by (simp add: minInt_def maxInt_def env_sample_def srv_sample_def)

end
