(* ===== verification/Remote_Session.thy ===== *)
theory Remote_Session
  imports Aitx_Server
begin

text \<open>
  \<open>internal/session/remote.go\<close>: a session on a remote ai-tmux daemon, driven by request/response
  pairs. \<open>rpc\<close> is the connection: it takes the state of the far end and a request and says what comes
  back. \<open>daemon_rpc\<close> connects it to the model of the daemon itself, so the two can be reasoned about
  together.
\<close>

section \<open>The connection\<close>

datatype reply = WriteErr go_error | ReadClosed | ParseErr go_error | Reply Response

type_synonym 'w rpc = "'w \<Rightarrow> Request \<Rightarrow> 'w \<times> reply"

record remote_session =
  r_id :: bytes
  r_sessionID :: bytes
  r_target :: bytes
  r_alive :: bool
  r_closeOnce :: bool
  r_reqID :: int
  r_open :: bool
  r_cachedOut :: "OutputResult option"
  r_localBuf :: ring_buffer
  r_isPolling :: bool

definition r_call :: "'w rpc \<Rightarrow> remote_session \<Rightarrow> 'w \<Rightarrow> bytes \<Rightarrow> json \<Rightarrow> remote_session \<times> 'w \<times> Response result" where
  "r_call rpc r w method params =
     (let n = r_reqID r + 1;
          req = \<lparr>rq_ID = CHR ''r'' # dec n, rq_Method = method, rq_Params = params\<rparr>;
          r = r\<lparr>r_reqID := n\<rparr>
      in case rpc w req of
           (w, WriteErr e) \<Rightarrow> (r\<lparr>r_alive := False\<rparr>, w, Inl (Wrap ''write request'' e))
         | (w, ReadClosed) \<Rightarrow> (r\<lparr>r_alive := False\<rparr>, w, Inl (Errorf ''read response: connection closed''))
         | (w, ParseErr e) \<Rightarrow> (r, w, Inl (Wrap ''parse response'' e))
         | (w, Reply resp) \<Rightarrow>
             if rs_Error resp \<noteq> [] then (r, w, Inl (Errorf (''remote error: '' @ rs_Error resp)))
             else (r, w, Inr resp))"

text \<open>\<open>json.Unmarshal\<close> of the result into an \<open>OutputResult\<close>, its error ignored.\<close>

definition or_zero :: "'a \<Rightarrow> 'a result \<Rightarrow> 'a" where
  "or_zero z r = (case r of Inl _ \<Rightarrow> z | Inr x \<Rightarrow> x)"

definition parse_OutputResult :: "json option \<Rightarrow> OutputResult" where
  "parse_OutputResult j =
     (let fs = or_zero [] (members (case j of None \<Rightarrow> JNull | Some v \<Rightarrow> v))
      in \<lparr>or_Output = or_zero [] (get_string ''output'' fs), or_IsAlive = or_zero False (get_bool ''is_alive'' fs),
          or_IsComplete = or_zero False (get_bool ''is_complete'' fs)\<rparr>)"

definition parse_session_id :: "json option \<Rightarrow> bytes" where
  "parse_session_id j =
     or_zero [] (get_string ''session_id'' (or_zero [] (members (case j of None \<Rightarrow> JNull | Some v \<Rightarrow> v))))"

section \<open>Creating and attaching\<close>

definition fresh_remote :: "bytes \<Rightarrow> bytes \<Rightarrow> bytes \<Rightarrow> ring_buffer \<Rightarrow> remote_session" where
  "fresh_remote i sid target rb = \<lparr>r_id = i, r_sessionID = sid, r_target = target, r_alive = True, r_closeOnce = False,
     r_reqID = 0, r_open = True, r_cachedOut = None, r_localBuf = rb, r_isPolling = False\<rparr>"

definition AttachRemoteSession ::
  "'w rpc \<Rightarrow> 'w \<Rightarrow> bytes \<Rightarrow> bytes \<Rightarrow> bytes \<Rightarrow> bytes \<Rightarrow> ('w \<times> remote_session result) option" where
  "AttachRemoteSession rpc w bufVal i target remoteSessionID =
     do { rb \<leftarrow> NewRingBuffer (BufferSizeFromEnv bufVal);
          Some (case r_call rpc (fresh_remote i remoteSessionID target rb) w ''read_output''
                       (Params_ReadOutput remoteSessionID 1000) of
                  (r, w, Inl e) \<Rightarrow> (w, Inl (Wrap (''attach session '' @ remoteSessionID) e))
                | (r, w, Inr resp) \<Rightarrow> (w, Inr r)) }"

definition NewRemoteSession ::
  "'w rpc \<Rightarrow> 'w \<Rightarrow> bytes \<Rightarrow> bytes \<Rightarrow> bytes \<Rightarrow> bytes \<Rightarrow> ('w \<times> remote_session result) option" where
  "NewRemoteSession rpc w bufVal i target command =
     do { rb \<leftarrow> NewRingBuffer (BufferSizeFromEnv bufVal);
          Some (case r_call rpc (fresh_remote i [] target rb) w ''create_session''
                       (Params_CreateSession command target) of
                  (r, w, Inl e) \<Rightarrow> (w, Inl (Wrap ''create remote session'' e))
                | (r, w, Inr resp) \<Rightarrow> (w, Inr (r\<lparr>r_sessionID := parse_session_id (rs_Result resp)\<rparr>))) }"

section \<open>The session's methods\<close>

text \<open>A call whose response is kept for the next read.\<close>

definition call_and_cache ::
  "'w rpc \<Rightarrow> remote_session \<Rightarrow> 'w \<Rightarrow> bytes \<Rightarrow> json \<Rightarrow> remote_session \<times> 'w \<times> go_error option" where
  "call_and_cache rpc r w method params =
     (case r_call rpc r w method params of
        (r, w, Inl e) \<Rightarrow> (r, w, Some e)
      | (r, w, Inr resp) \<Rightarrow> (r\<lparr>r_cachedOut := Some (parse_OutputResult (rs_Result resp))\<rparr>, w, None))"

definition r_WriteWithTimeout ::
  "'w rpc \<Rightarrow> remote_session \<Rightarrow> 'w \<Rightarrow> bytes \<Rightarrow> int \<Rightarrow> remote_session \<times> 'w \<times> go_error option" where
  "r_WriteWithTimeout rpc r w input timeoutMs =
     (if \<not> r_alive r then (r, w, Some notAlive)
      else call_and_cache rpc r w ''send_input'' (Params_SendInput (r_sessionID r) input timeoutMs))"

definition r_Write :: "'w rpc \<Rightarrow> remote_session \<Rightarrow> 'w \<Rightarrow> bytes \<Rightarrow> remote_session \<times> 'w \<times> go_error option" where
  "r_Write rpc r w input =
     (if \<not> r_alive r then (r, w, Some notAlive)
      else call_and_cache rpc r w ''send_input'' (Params_SendInput (r_sessionID r) input 0))"

definition rawKeys :: "(bytes \<times> bytes) list" where
  "rawKeys = [
     ([CHR 0x03], ''ctrl+c''), ([CHR 0x04], ''ctrl+d''), ([CHR 0x1A], ''ctrl+z''),
     ([CHR 0x0C], ''ctrl+l''), ([CHR 0x12], ''ctrl+r''), ([CR], ''enter''),
     ([CHR 0x09], ''tab''), ([ESC], ''escape''),
     (ESC # ''[A'', ''up''), (ESC # ''[B'', ''down''), (ESC # ''[D'', ''left''), (ESC # ''[C'', ''right'')]"

definition rawToKeyName :: "bytes \<rightharpoonup> bytes" where
  "rawToKeyName = map_of rawKeys"

definition r_WriteRaw :: "'w rpc \<Rightarrow> remote_session \<Rightarrow> 'w \<Rightarrow> bytes \<Rightarrow> remote_session \<times> 'w \<times> go_error option" where
  "r_WriteRaw rpc r w data =
     (if \<not> r_alive r then (r, w, Some notAlive)
      else case rawToKeyName data of
             None \<Rightarrow> call_and_cache rpc r w ''send_raw'' (Params_SendRaw (r_sessionID r) data 3000)
           | Some key \<Rightarrow> call_and_cache rpc r w ''send_control'' (Params_SendControl (r_sessionID r) key))"

text \<open>\<open>None\<close> when feeding the local buffer panics.\<close>

definition r_ReadScreen ::
  "'w rpc \<Rightarrow> remote_session \<Rightarrow> 'w \<Rightarrow> bool \<Rightarrow> int \<Rightarrow> (remote_session \<times> 'w \<times> bytes \<times> bool) option" where
  "r_ReadScreen rpc r w cancelled timeoutMs =
     (if cancelled then Some (r, w, [], False)
      else case r_cachedOut r of
             Some out \<Rightarrow>
               do { b \<leftarrow> Write (r_localBuf r) (or_Output out);
                    Some (r\<lparr>r_cachedOut := None, r_localBuf := fst b\<rparr>, w, or_Output out, or_IsComplete out) }
           | None \<Rightarrow>
               (case r_call rpc r w ''read_output'' (Params_ReadOutput (r_sessionID r) timeoutMs) of
                  (r, w, Inl e) \<Rightarrow> Some (r, w, [], False)
                | (r, w, Inr resp) \<Rightarrow>
                    (let out = parse_OutputResult (rs_Result resp)
                     in do { b \<leftarrow> Write (r_localBuf r) (or_Output out);
                             Some (r\<lparr>r_localBuf := fst b\<rparr>, w, or_Output out, or_IsComplete out) })))"

text \<open>\<open>closeErr\<close> is the first error closing the transport gives.\<close>

definition r_Detach :: "go_error option \<Rightarrow> remote_session \<Rightarrow> remote_session \<times> go_error option" where
  "r_Detach closeErr r =
     (if r_closeOnce r then (r, None)
      else (r\<lparr>r_closeOnce := True, r_alive := False, r_open := False\<rparr>, closeErr))"

definition r_Close :: "'w rpc \<Rightarrow> go_error option \<Rightarrow> remote_session \<Rightarrow> 'w \<Rightarrow> remote_session \<times> 'w \<times> go_error option" where
  "r_Close rpc closeErr r w =
     (if r_closeOnce r then (r, w, None)
      else case r_call rpc (r\<lparr>r_closeOnce := True, r_alive := False\<rparr>) w ''close_session''
                  (Params_SessionID (r_sessionID r)) of
             (r, w, _) \<Rightarrow> (r\<lparr>r_open := False\<rparr>, w, closeErr))"

definition r_Resize :: "'w rpc \<Rightarrow> remote_session \<Rightarrow> 'w \<Rightarrow> int \<Rightarrow> int \<Rightarrow> remote_session \<times> 'w \<times> go_error option" where
  "r_Resize rpc r w rows cols =
     (case r_call rpc r w ''resize_session'' (Params_Resize (r_sessionID r) rows cols) of
        (r, w, Inl e) \<Rightarrow> (r, w, Some e) | (r, w, Inr _) \<Rightarrow> (r, w, None))"

text \<open>
  \<open>PollRemote\<close>: one read per tick, until the context is done or the session is dead. \<open>ticks\<close>
  says, for each tick, whether the context is done by the time the read looks at it.
\<close>

fun poll_loop :: "'w rpc \<Rightarrow> remote_session \<Rightarrow> 'w \<Rightarrow> bool list \<Rightarrow> (remote_session \<times> 'w) option" where
  "poll_loop rpc r w [] = Some (r, w)"
| "poll_loop rpc r w (cancelled # ticks) =
     (if \<not> r_alive r then Some (r, w)
      else do { (r, w, _) \<leftarrow> r_ReadScreen rpc r w cancelled 500; poll_loop rpc r w ticks })"

definition PollRemote :: "'w rpc \<Rightarrow> remote_session \<Rightarrow> 'w \<Rightarrow> bool list \<Rightarrow> (remote_session \<times> 'w) option" where
  "PollRemote rpc r w ticks =
     (if r_isPolling r then Some (r, w)
      else do { (r, w) \<leftarrow> poll_loop rpc (r\<lparr>r_isPolling := True\<rparr>) w ticks; Some (r\<lparr>r_isPolling := False\<rparr>, w) })"

section \<open>The daemon at the other end\<close>

text \<open>
  The connection to the modelled daemon in environment \<open>e\<close>: the response travels as JSON, so its
  strings are sanitized; a panic of the daemon closes the connection.
\<close>

definition daemon_rpc :: "srv_env \<Rightarrow> (int \<Rightarrow> bytes) \<Rightarrow> bytes list \<Rightarrow> aitx_server rpc" where
  "daemon_rpc e fmt order srv req =
     (case handle e fmt order id srv req of
        None \<Rightarrow> (srv, ReadClosed)
      | Some (srv, resp) \<Rightarrow> (srv, Reply (resp\<lparr>rs_Error := json_str (rs_Error resp)\<rparr>)))"

lemma names [simp]:
  "same_name ''session_id'' ''session_id''" "same_name ''input'' ''input''" "same_name ''timeout_ms'' ''timeout_ms''"
  "same_name ''data'' ''data''" "same_name ''key'' ''key''" "same_name ''output'' ''output''"
  "same_name ''is_alive'' ''is_alive''" "same_name ''is_complete'' ''is_complete''"
  "\<not> same_name ''input'' ''session_id''" "\<not> same_name ''timeout_ms'' ''session_id''"
  "\<not> same_name ''timeout_ms'' ''input''" "\<not> same_name ''data'' ''session_id''" "\<not> same_name ''timeout_ms'' ''data''"
  "\<not> same_name ''key'' ''session_id''" "\<not> same_name ''is_alive'' ''output''" "\<not> same_name ''is_complete'' ''output''"
  "\<not> same_name ''is_complete'' ''is_alive''"
  by code_simp+

lemmas params_read = bind_result_def get_string_def get_int_def get_bool_def Str_def json_str_valid

text \<open>A result survives the trip: what the client decodes is what the daemon put in, its text sanitized.\<close>

lemma parse_json_OutputResult:
  "parse_OutputResult (Some (json_OutputResult out)) = out\<lparr>or_Output := json_str (or_Output out)\<rparr>"
  by (simp add: parse_OutputResult_def json_OutputResult_def or_zero_def params_read)

text \<open>The control key names and the raw sequences are inverse to each other.\<close>

lemma key_names: "rawToKeyName data = Some key \<Longrightarrow> controlKeys key = Some data \<and> valid_utf8 data \<and> valid_utf8 key"
proof -
  assume "rawToKeyName data = Some key"
  then have "(data, key) \<in> set rawKeys" unfolding rawToKeyName_def by (rule map_of_SomeD)
  moreover have "list_all (\<lambda>(d, k). controlKeys k = Some d \<and> ascii d \<and> ascii k) rawKeys" by code_simp
  ultimately show ?thesis by (auto simp: list_all_iff intro: ascii_valid_utf8)
qed

lemma daemon_read:
  assumes "server_ok srv" and "srv_sessions srv sid = Some s0" and "live_buf s"
  obtains out c s' where "read_and_reply e srv sid s ms req = Some (set_session srv sid s',
      ok_resp req (json_OutputResult \<lparr>or_Output = out, or_IsAlive = ps_alive s, or_IsComplete = c\<rparr>))"
    "pty_ReadScreen s False ms (e_now e) (e_turns e) (e_late e) = Some (out, c, s')"
    "ps_tty s' = ps_tty s" "valid_utf8 out" "live_buf s'"
proof -
  obtain out c s' where r: "pty_ReadScreen s False ms (e_now e) (e_turns e) (e_late e) = Some (out, c, s')"
    "live_buf s'" "valid_utf8 out" "ps_tty s' = ps_tty s" "ps_alive s' = ps_alive s"
    by (rule live_pty_ReadScreen [OF assms(3)])
  show thesis by (rule that [OF _ r(1,4,3,2)]) (simp add: read_and_reply_def r)
qed

section \<open>Properties of a remote session\<close>

text \<open>C19. Raw input reaches the remote terminal end to end: over a working connection to the daemon,
  \<open>WriteRaw\<close> on a live session succeeds and the remote terminal receives the data exactly once, whether
  it travels as the name of a control key or as raw data; what arrives is the data after JSON's sanitizing,
  which is the data itself exactly when it is valid UTF-8. The screen the daemon answered with is kept for the
  next read.\<close>

theorem WriteRaw_reaches_terminal:
  assumes "server_ok srv" and "srv_sessions srv (r_sessionID r) = Some s" and "valid_utf8 (r_sessionID r)"
    and "r_alive r" and "ps_alive s" and "e_writeErr e = None"
  shows "\<exists>r' srv' s' out. r_WriteRaw (daemon_rpc e fmt order) r srv data = (r', srv', None)
    \<and> srv_sessions srv' (r_sessionID r) = Some s' \<and> ps_tty s' = ps_tty s @ json_str data
    \<and> (json_str data = data \<longleftrightarrow> valid_utf8 data)
    \<and> r_cachedOut r' = Some out \<and> server_ok srv'"
proof -
  obtain s1 where s1: "pty_WriteRaw (e_now e) (e_writeErr e) s (json_str data) = (s1, None)"
      "ps_tty s1 = ps_tty s @ json_str data"
    using assms(5,6) by (simp add: pty_WriteRaw_def)
  have live: "live_buf s1"
    using live_pty_WriteRaw [OF server_ok_live [OF assms(1,2)]] s1(1) by (metis fst_conv)
  have raw: "\<exists>s' out. raw_and_reply e srv (r_sessionID r) (json_str data) ms req
        = Some (set_session srv (r_sessionID r) s', ok_resp req (json_OutputResult out))
      \<and> ps_tty s' = ps_tty s @ json_str data \<and> server_ok (set_session srv (r_sessionID r) s')" for ms req
  proof -
    obtain out c s' where "read_and_reply e srv (r_sessionID r) s1 ms req = Some (set_session srv (r_sessionID r) s',
      ok_resp req (json_OutputResult \<lparr>or_Output = out, or_IsAlive = ps_alive s1, or_IsComplete = c\<rparr>))"
      "ps_tty s' = ps_tty s1" "live_buf s'"
      using daemon_read [OF assms(1,2) live] by metis
    then show ?thesis
      using s1 server_ok_set [OF assms(1,2)]
      by (intro exI [of _ s']) (auto simp: raw_and_reply_def getSession_def assms(2))
  qed
  have "\<exists>r' srv' s' out. r_WriteRaw (daemon_rpc e fmt order) r srv data = (r', srv', None)
    \<and> srv_sessions srv' (r_sessionID r) = Some s' \<and> ps_tty s' = ps_tty s @ json_str data
    \<and> r_cachedOut r' = Some out \<and> server_ok srv'"
  proof (cases "rawToKeyName data")
    case None
    let ?req = "\<lparr>rq_ID = CHR ''r'' # dec (r_reqID r + 1), rq_Method = ''send_raw'',
      rq_Params = Params_SendRaw (r_sessionID r) data 3000\<rparr>"
    have "sendRaw e srv ?req = raw_and_reply e srv (r_sessionID r) (json_str data) 3000 ?req"
      using assms(3) by (simp add: sendRaw_def Params_SendRaw_def params_read minInt_def maxInt_def)
    with raw [of 3000 ?req] None assms(4) show ?thesis
      by (auto simp: r_WriteRaw_def call_and_cache_def r_call_def daemon_rpc_def handle_def Let_def
          ok_resp_def set_session_def json_str_valid valid_utf8_def)
  next
    case (Some key)
    note k = key_names [OF Some]
    let ?req = "\<lparr>rq_ID = CHR ''r'' # dec (r_reqID r + 1), rq_Method = ''send_control'',
      rq_Params = Params_SendControl (r_sessionID r) key\<rparr>"
    have "sendControl e srv ?req = raw_and_reply e srv (r_sessionID r) (json_str data) 5000 ?req"
      using assms(3) k by (simp add: sendControl_def Params_SendControl_def params_read)
    with raw [of 5000 ?req] Some assms(4) show ?thesis
      by (auto simp: r_WriteRaw_def call_and_cache_def r_call_def daemon_rpc_def handle_def Let_def
          ok_resp_def set_session_def json_str_valid valid_utf8_def)
  qed
  then show ?thesis using json_str_iff by blast
qed

definition remote_sample :: remote_session where
  "remote_sample = fresh_remote ''c1'' ''s1'' ''me@host'' rb_sample"

lemma remote_sample_facts:
  "server_ok srv_sample" "srv_sessions srv_sample (r_sessionID remote_sample) = Some pty_sample"
  "valid_utf8 (r_sessionID remote_sample)" "r_alive remote_sample" "ps_alive pty_sample" "e_writeErr env_sample = None"
  using server_ok_sample ascii_valid_utf8 [of "''s1''"]
  by (simp_all add: remote_sample_def fresh_remote_def srv_sample_def pty_sample_def env_sample_def)

lemma WriteRaw_reaches_terminal_witness:
  "\<exists>r' srv' s'. r_WriteRaw (daemon_rpc env_sample (\<lambda>_. []) []) remote_sample srv_sample [CHR 0xFF] = (r', srv', None)
    \<and> srv_sessions srv' ''s1'' = Some s' \<and> ps_tty s' = [CHR 0xEF, CHR 0xBF, CHR 0xBD]"
proof -
  have "json_str [CHR 0xFF] = [CHR 0xEF, CHR 0xBF, CHR 0xBD]" "r_sessionID remote_sample = ''s1''" "ps_tty pty_sample = []"
    by code_simp+
  with WriteRaw_reaches_terminal [OF remote_sample_facts, of "\<lambda>_. []" "[]" "[CHR 0xFF]"]
  show ?thesis by auto
qed

text \<open>A command and its output make one round trip: \<open>WriteWithTimeout\<close> puts the (sanitized) command
  and a carriage return on the remote terminal, and the next read returns exactly the screen the daemon read
  after it, cleaned, without another request, appending it to the local buffer.\<close>

theorem Write_then_ReadScreen:
  assumes "server_ok srv" and "srv_sessions srv (r_sessionID r) = Some s" and "valid_utf8 (r_sessionID r)"
    and "r_alive r" and "ps_alive s" and "e_writeErr e = None" and "minInt \<le> ms \<and> ms \<le> maxInt"
    and "holds h (r_localBuf r)"
  shows "\<exists>r1 srv1 s1 s2 out complete r2.
      r_WriteWithTimeout (daemon_rpc e fmt order) r srv input ms = (r1, srv1, None)
    \<and> ps_tty s1 = ps_tty s @ json_str input @ [CR]
    \<and> pty_ReadScreen s1 False ms (e_now e) (e_turns e) (e_late e) = Some (out, complete, s2)
    \<and> srv1 = set_session srv (r_sessionID r) s2 \<and> ps_tty s2 = ps_tty s1
    \<and> r_ReadScreen rpc r1 srv1 False ms' = Some (r2, srv1, out, complete)
    \<and> holds (h @ out) (r_localBuf r2) \<and> r_cachedOut r2 = None"
proof -
  obtain s1 where s1: "pty_Write (e_now e) (e_writeErr e) s (json_str input) = (s1, None)"
      "ps_tty s1 = ps_tty s @ json_str input @ [CR]"
    using assms(5,6) by (simp add: pty_Write_def)
  have live: "live_buf s1"
    using live_pty_Write [OF server_ok_live [OF assms(1,2)]] s1(1) by (metis fst_conv)
  let ?req = "\<lparr>rq_ID = CHR ''r'' # dec (r_reqID r + 1), rq_Method = ''send_input'',
      rq_Params = Params_SendInput (r_sessionID r) input ms\<rparr>"
  obtain out c s2 where rd: "read_and_reply e srv (r_sessionID r) s1 ms ?req = Some (set_session srv (r_sessionID r) s2,
      ok_resp ?req (json_OutputResult \<lparr>or_Output = out, or_IsAlive = ps_alive s1, or_IsComplete = c\<rparr>))"
      "pty_ReadScreen s1 False ms (e_now e) (e_turns e) (e_late e) = Some (out, c, s2)" "ps_tty s2 = ps_tty s1"
      "valid_utf8 out"
    using daemon_read [OF assms(1,2) live] by metis
  have "sendInput e srv ?req = Some (set_session srv (r_sessionID r) s2,
      ok_resp ?req (json_OutputResult \<lparr>or_Output = out, or_IsAlive = ps_alive s1, or_IsComplete = c\<rparr>))"
    using assms(2,3,7) s1 rd(1)
    by (simp add: sendInput_def Params_SendInput_def params_read getSession_def)
  then have call: "r_WriteWithTimeout (daemon_rpc e fmt order) r srv input ms
      = (r\<lparr>r_reqID := r_reqID r + 1,
           r_cachedOut := Some \<lparr>or_Output = out, or_IsAlive = ps_alive s1, or_IsComplete = c\<rparr>\<rparr>,
         set_session srv (r_sessionID r) s2, None)"
    using assms(4) rd(4) parse_json_OutputResult [of "\<lparr>or_Output = out, or_IsAlive = ps_alive s1, or_IsComplete = c\<rparr>"]
    by (simp add: r_WriteWithTimeout_def call_and_cache_def r_call_def daemon_rpc_def handle_def Let_def
        ok_resp_def json_str_valid valid_utf8_def)
  obtain b where b: "Write (r_localBuf r) out = Some (b, int (length out))" "holds (h @ out) b"
    using Write_holds [OF assms(8)] by blast
  show ?thesis
    by (rule exI, rule exI, rule exI [of _ s1], rule exI [of _ s2], rule exI [of _ out], rule exI [of _ c],
        rule exI [of _ "r\<lparr>r_reqID := r_reqID r + 1, r_cachedOut := None, r_localBuf := b\<rparr>"],
        intro conjI, rule call, rule s1(2), rule rd(2), rule refl, rule rd(3))
      (use b in \<open>simp_all add: r_ReadScreen_def\<close>)
qed

lemma Write_then_ReadScreen_witness:
  "\<exists>r1 srv1 (s1 :: pty_session) s2. r_WriteWithTimeout (daemon_rpc env_sample (\<lambda>_. []) []) remote_sample srv_sample ''ls'' 1000 = (r1, srv1, None)
    \<and> ps_tty s1 = ''ls'' @ [CR] \<and> srv1 = set_session srv_sample ''s1'' s2 \<and> ps_tty s2 = ps_tty s1"
proof -
  have r: "minInt \<le> 1000 \<and> 1000 \<le> maxInt" by (simp add: minInt_def maxInt_def)
  have h: "holds ''XXXXXXabcde'' (r_localBuf remote_sample)"
    using holds_sample by (simp add: remote_sample_def fresh_remote_def)
  have "json_str ''ls'' = ''ls''" "r_sessionID remote_sample = ''s1''" "ps_tty pty_sample = []"
    by code_simp+
  with Write_then_ReadScreen [OF remote_sample_facts r h, of "\<lambda>_. []" "[]" "''ls''" "\<lambda>w _. (w, ReadClosed)" 0]
  show ?thesis by (simp only: append_Nil) blast
qed

text \<open>Reattaching throws away what the terminal printed while nobody was attached: the check that the
  session exists reads its screen at the daemon, which moves the daemon's read mark past everything unread, and
  drops the answer. The new session has no output, neither cached nor in its buffer, and the daemon's next
  read starts after it.\<close>

theorem Attach_discards_unread:
  assumes "server_ok srv" and "srv_sessions srv sid = Some s" and "valid_utf8 sid"
    and "holds h (ps_buf s)"
    and "int (length (h @ arrived (e_turns e) @ concat (e_late e))) - rb_mark (ps_buf s) \<le> rb_size (ps_buf s)"
  shows "\<exists>srv' r s'. AttachRemoteSession (daemon_rpc e fmt order) srv bufVal i target sid = Some (srv', Inr r)
    \<and> r_cachedOut r = None \<and> holds [] (r_localBuf r)
    \<and> srv_sessions srv' sid = Some s' \<and> Since (ps_buf s') = Some (concat (e_late e))"
proof -
  let ?req = "\<lparr>rq_ID = CHR ''r'' # dec 1, rq_Method = ''read_output'', rq_Params = Params_ReadOutput sid 1000\<rparr>"
  obtain raw c rb' k where rs: "read_screen (ps_buf s) False 1000 (e_now e) (e_turns e) (e_late e) = Some (StripANSI raw, c, rb')"
      "Since rb' = Some (concat (e_late e))"
    by (rule read_screen_holds [OF assms(4,5), where cancelled = False and timeoutMs = 1000 and start = "e_now e"]) auto
  obtain rb where rb: "NewRingBuffer (BufferSizeFromEnv bufVal) = Some rb" "holds [] rb"
    using BufferSizeFromEnv_new by blast
  let ?s = "s\<lparr>ps_buf := rb', ps_lastUsed := e_now e\<rparr>"
  have "readOutput e srv ?req = Some (set_session srv sid ?s, ok_resp ?req (json_OutputResult
      \<lparr>or_Output = StripANSI raw, or_IsAlive = ps_alive s, or_IsComplete = c\<rparr>))"
    using assms(2,3) rs
    by (simp add: readOutput_def Params_ReadOutput_def params_read getSession_def minInt_def maxInt_def
        read_and_reply_def pty_ReadScreen_def)
  then have "AttachRemoteSession (daemon_rpc e fmt order) srv bufVal i target sid
      = Some (set_session srv sid ?s, Inr ((fresh_remote i sid target rb)\<lparr>r_reqID := 1\<rparr>))"
    by (simp add: AttachRemoteSession_def rb r_call_def daemon_rpc_def handle_def Let_def ok_resp_def
        json_str_valid valid_utf8_def fresh_remote_def)
  then show ?thesis using rb rs by (auto simp: fresh_remote_def set_session_def)
qed

lemma Attach_discards_unread_witness:
  "\<exists>srv' r s'. AttachRemoteSession (daemon_rpc env_sample (\<lambda>_. []) []) srv_sample [] ''c2'' ''me@host'' ''s1'' = Some (srv', Inr r)
    \<and> Since (ps_buf pty_sample) = Some ''de'' \<and> r_cachedOut r = None \<and> holds [] (r_localBuf r)
    \<and> srv_sessions srv' ''s1'' = Some s' \<and> Since (ps_buf s') = Some []"
proof -
  have s: "srv_sessions srv_sample ''s1'' = Some pty_sample" by (simp add: srv_sample_def)
  have v: "valid_utf8 ''s1''" by (rule ascii_valid_utf8) simp
  have f: "int (length (''XXXXXXabcde'' @ arrived (e_turns env_sample) @ concat (e_late env_sample))) - rb_mark (ps_buf pty_sample)
      \<le> rb_size (ps_buf pty_sample)"
    by (simp add: env_sample_def pty_sample_def rb_sample_def)
  have u: "Since (ps_buf pty_sample) = Some ''de''" by code_simp
  from Attach_discards_unread [OF server_ok_sample s v sample_fits(1) f, of "\<lambda>_. []" "[]" "[]" "''c2''" "''me@host''"] u
  show ?thesis by (simp add: env_sample_def)
qed

end
