(* ===== verification/Sessions.thy ===== *)
theory Sessions
  imports Remote_Session
begin

text \<open>
  The implementations of the \<open>Session\<close> interface of \<open>internal/session/session.go\<close>:
  \<open>local.go\<close> (a local terminal), \<open>ssh.go\<close> (the methods of an open SSH session),
  \<open>serial.go\<close> (a serial port) and \<open>remote.go\<close> (modelled in \<open>Remote_Session\<close>), the contract
  they share as a locale, and the dynamic dispatch over them as the datatype \<open>session\<close>.
\<close>

section \<open>SSH sessions\<close>

record ssh_session =
  sh_id :: bytes
  sh_buf :: ring_buffer
  sh_log :: "bytes option"
  sh_stdin :: bytes
  sh_alive :: bool
  sh_closed :: bool
  sh_logClosed :: bool

definition ssh_Write :: "go_error option \<Rightarrow> ssh_session \<Rightarrow> bytes \<Rightarrow> ssh_session \<times> go_error option" where
  "ssh_Write err s input =
     (if \<not> sh_alive s then (s, Some notAlive)
      else (s\<lparr>sh_buf := Mark (sh_buf s),
              sh_stdin := (if err = None then sh_stdin s @ input @ [CR] else sh_stdin s)\<rparr>, err))"

definition ssh_WriteRaw :: "go_error option \<Rightarrow> ssh_session \<Rightarrow> bytes \<Rightarrow> ssh_session \<times> go_error option" where
  "ssh_WriteRaw err s data =
     (if \<not> sh_alive s then (s, Some notAlive)
      else (s\<lparr>sh_buf := Mark (sh_buf s), sh_stdin := (if err = None then sh_stdin s @ data else sh_stdin s)\<rparr>, err))"

definition ssh_ReadScreen ::
  "ssh_session \<Rightarrow> bool \<Rightarrow> int \<Rightarrow> int \<Rightarrow> turn list \<Rightarrow> bytes list \<Rightarrow> (bytes \<times> bool \<times> ssh_session) option" where
  "ssh_ReadScreen s cancelled timeoutMs start turns late =
     do { (out, complete, rb) \<leftarrow> read_screen (sh_buf s) cancelled timeoutMs start turns late;
          Some (out, complete, s\<lparr>sh_buf := rb\<rparr>) }"

definition ssh_Close :: "go_error option \<Rightarrow> ssh_session \<Rightarrow> ssh_session \<times> go_error option" where
  "ssh_Close clientErr s =
     (if sh_closed s then (s, None)
      else (s\<lparr>sh_closed := True, sh_alive := False, sh_logClosed := (sh_log s \<noteq> None)\<rparr>, clientErr))"

section \<open>Serial sessions\<close>

record serial_session =
  se_id :: bytes
  se_buf :: ring_buffer
  se_log :: "bytes option"
  se_port :: bytes
  se_alive :: bool
  se_done :: bool
  se_readDone :: bool
  se_closed :: bool
  se_logClosed :: bool

definition isValidSerialDevice :: "bytes \<Rightarrow> bool" where
  "isValidSerialDevice device =
     (if Contains device ''..'' then False
      else HasPrefix device ''/dev/tty'' \<or> HasPrefix device ''/dev/cu.'')"

text \<open>
  \<open>NewSerialSessionWithLog\<close>: \<open>openErr\<close> is what opening the port returned, \<open>first\<close> what
  the port sent while the initial output settled. The result carries the baud rate the port is opened with.
\<close>

definition serial_output :: "serial_session \<Rightarrow> bytes \<Rightarrow> serial_session option" where
  "serial_output s chunk =
     do { r \<leftarrow> Write (se_buf s) chunk;
          Some (s\<lparr>se_buf := fst r, se_log := map_option (\<lambda>l. l @ chunk) (se_log s)\<rparr>) }"

text \<open>One turn of the read loop: \<open>Inl\<close> is a read error, \<open>Inr\<close> the bytes read.\<close>

definition serial_read :: "serial_session \<Rightarrow> go_error + bytes \<Rightarrow> serial_session option" where
  "serial_read s r =
     (if se_done s then Some (s\<lparr>se_readDone := True\<rparr>)
      else case r of
             Inl _ \<Rightarrow> Some (s\<lparr>se_alive := False, se_readDone := True\<rparr>)
           | Inr chunk \<Rightarrow> if chunk = [] then Some s else serial_output s chunk)"

fun serial_reads :: "serial_session \<Rightarrow> (go_error + bytes) list \<Rightarrow> serial_session option" where
  "serial_reads s [] = Some s"
| "serial_reads s (r # rs) =
     (if se_readDone s then Some s else do { s' \<leftarrow> serial_read s r; serial_reads s' rs })"

definition NewSerialSession ::
  "bytes \<Rightarrow> bytes \<Rightarrow> int \<Rightarrow> bool \<Rightarrow> bytes \<Rightarrow> go_error option \<Rightarrow> (go_error + bytes) list
     \<Rightarrow> (serial_session \<times> int) result option" where
  "NewSerialSession i device baudRate hasLog bufVal openErr first =
     (if \<not> isValidSerialDevice device
      then Some (Inl (Errorf (''invalid serial device '' @ Quote device
             @ '': must start with /dev/tty or /dev/cu. (e.g. /dev/ttyUSB0, /dev/cu.usbserial-XXXX)'')))
      else case openErr of
             Some e \<Rightarrow> Some (Inl (Wrap (''open serial '' @ device) e))
           | None \<Rightarrow>
               do { rb \<leftarrow> NewRingBuffer (BufferSizeFromEnv bufVal);
                    s \<leftarrow> serial_reads \<lparr>se_id = i, se_buf = rb, se_log = (if hasLog then Some [] else None),
                           se_port = [], se_alive = True, se_done = False, se_readDone = False, se_closed = False,
                           se_logClosed = False\<rparr> first;
                    Some (Inr (s, if baudRate = 0 then 9600 else baudRate)) })"

definition serial_Write :: "go_error option \<Rightarrow> serial_session \<Rightarrow> bytes \<Rightarrow> serial_session \<times> go_error option" where
  "serial_Write err s input =
     (if \<not> se_alive s then (s, Some notAlive)
      else (s\<lparr>se_buf := Mark (se_buf s),
              se_port := (if err = None then se_port s @ input @ [CR] else se_port s)\<rparr>, err))"

definition serial_WriteRaw :: "go_error option \<Rightarrow> serial_session \<Rightarrow> bytes \<Rightarrow> serial_session \<times> go_error option" where
  "serial_WriteRaw err s data =
     (if \<not> se_alive s then (s, Some notAlive)
      else (s\<lparr>se_buf := Mark (se_buf s), se_port := (if err = None then se_port s @ data else se_port s)\<rparr>, err))"

definition serial_ReadScreen ::
  "serial_session \<Rightarrow> bool \<Rightarrow> int \<Rightarrow> int \<Rightarrow> turn list \<Rightarrow> bytes list \<Rightarrow> (bytes \<times> bool \<times> serial_session) option" where
  "serial_ReadScreen s cancelled timeoutMs start turns late =
     do { (out, complete, rb) \<leftarrow> read_screen (se_buf s) cancelled timeoutMs start turns late;
          Some (out, complete, s\<lparr>se_buf := rb\<rparr>) }"

definition serial_Close :: "go_error option \<Rightarrow> serial_session \<Rightarrow> serial_session \<times> go_error option" where
  "serial_Close portErr s =
     (if se_closed s then (s, None)
      else (s\<lparr>se_closed := True, se_alive := False, se_done := True,
              se_readDone := (se_readDone s \<or> se_log s \<noteq> None), se_logClosed := (se_log s \<noteq> None)\<rparr>, portErr))"

section \<open>The contract of a session\<close>

datatype input = Line bytes | Raw bytes

fun wire :: "input \<Rightarrow> bytes" where
  "wire (Line x) = x @ [CR]"
| "wire (Raw x) = x"

text \<open>Typing a list of inputs, all of which the device accepts; the errors the session itself gives.\<close>

fun type_all ::
  "('s \<Rightarrow> bytes \<Rightarrow> 's \<times> go_error option) \<Rightarrow> ('s \<Rightarrow> bytes \<Rightarrow> 's \<times> go_error option) \<Rightarrow> 's \<Rightarrow> input list
     \<Rightarrow> 's \<times> go_error option list" where
  "type_all send_line send_raw s [] = (s, [])"
| "type_all send_line send_raw s (i # ins) =
     (case (case i of Line x \<Rightarrow> send_line s x | Raw x \<Rightarrow> send_raw s x) of
        (s, e) \<Rightarrow> (case type_all send_line send_raw s ins of (s, es) \<Rightarrow> (s, e # es)))"

locale session_ops =
  fixes ok :: "'s \<Rightarrow> bool" and alive :: "'s \<Rightarrow> bool" and sent :: "'s \<Rightarrow> bytes" and buf :: "'s \<Rightarrow> ring_buffer"
    and send_line :: "go_error option \<Rightarrow> 's \<Rightarrow> bytes \<Rightarrow> 's \<times> go_error option"
    and send_raw :: "go_error option \<Rightarrow> 's \<Rightarrow> bytes \<Rightarrow> 's \<times> go_error option"
    and close :: "go_error option \<Rightarrow> 's \<Rightarrow> 's \<times> go_error option"
  assumes write_dead: "\<not> alive s \<Longrightarrow> send_line e s x = (s, Some notAlive)"
    and write_raw_dead: "\<not> alive s \<Longrightarrow> send_raw e s x = (s, Some notAlive)"
    and write_alive: "alive s \<Longrightarrow> send_line e s x = (s', r) \<Longrightarrow>
          r = e \<and> alive s' \<and> buf s' = Mark (buf s) \<and> sent s' = sent s @ (if e = None then wire (Line x) else [])"
    and write_raw_alive: "alive s \<Longrightarrow> send_raw e s x = (s', r) \<Longrightarrow>
          r = e \<and> alive s' \<and> buf s' = Mark (buf s) \<and> sent s' = sent s @ (if e = None then wire (Raw x) else [])"
    and send_ok: "ok s \<Longrightarrow> ok (fst (send_line e s x)) \<and> ok (fst (send_raw e s x))"
    and close_dead: "ok s \<Longrightarrow> close e s = (s', r) \<Longrightarrow> ok s' \<and> \<not> alive s' \<and> sent s' = sent s \<and> buf s' = buf s"
    and close_again: "close e s = (s', r) \<Longrightarrow> close e' s' = (s', None)"
begin

lemma typed: "alive s \<Longrightarrow> \<exists>s'. type_all (send_line None) (send_raw None) s ins = (s', replicate (length ins) None)
    \<and> alive s' \<and> sent s' = sent s @ concat (map wire ins)"
proof (induction ins arbitrary: s)
  case (Cons i ins)
  obtain s1 where s1: "(case i of Line x \<Rightarrow> send_line None s x | Raw x \<Rightarrow> send_raw None s x) = (s1, None)"
      "alive s1" "sent s1 = sent s @ wire i"
  proof (cases i)
    case (Line x)
    obtain s1 r where "send_line None s x = (s1, r)" by fastforce
    with write_alive [OF Cons.prems this] Line show thesis by (auto intro: that)
  next
    case (Raw x)
    obtain s1 r where "send_raw None s x = (s1, r)" by fastforce
    with write_raw_alive [OF Cons.prems this] Raw show thesis by (auto intro: that)
  qed
  with Cons.IH [OF s1(2)] show ?case by auto
qed simp

lemma after_close: "ok s \<Longrightarrow> close e s = (s', r) \<Longrightarrow>
    type_all (send_line None) (send_raw None) s' ins = (s', replicate (length ins) (Some notAlive))"
proof (induction ins)
  case (Cons i ins)
  then show ?case
    using close_dead [OF Cons.prems] write_dead [of s'] write_raw_dead [of s'] by (cases i) auto
qed simp

lemma write_is_fresh:
  "alive s \<Longrightarrow> send_line e s x = (s', r) \<Longrightarrow> holds h (buf s) \<Longrightarrow> holds h (buf s') \<and> Since (buf s') = Some []"
  using write_alive [of s e x s' r] Mark_holds [of h "buf s"] Since_unread [of h "Mark (buf s)"]
    holds_written [of h "buf s"] holds_wf [of h "buf s"]
  by (auto simp: Mark_def rb_wf_def)

end

lemmas session_defs = pty_Write_def pty_WriteRaw_def pty_Close_def ssh_Write_def ssh_WriteRaw_def ssh_Close_def
  serial_Write_def serial_WriteRaw_def serial_Close_def

text \<open>A closed session is not alive.\<close>

definition pty_ok :: "pty_session \<Rightarrow> bool" where "pty_ok s \<longleftrightarrow> (ps_closed s \<longrightarrow> \<not> ps_alive s)"
definition ssh_ok :: "ssh_session \<Rightarrow> bool" where "ssh_ok s \<longleftrightarrow> (sh_closed s \<longrightarrow> \<not> sh_alive s)"
definition serial_ok :: "serial_session \<Rightarrow> bool" where "serial_ok s \<longleftrightarrow> (se_closed s \<longrightarrow> \<not> se_alive s)"

lemmas ok_defs = pty_ok_def ssh_ok_def serial_ok_def

interpretation local_session:
  session_ops pty_ok ps_alive ps_tty ps_buf "pty_Write now" "pty_WriteRaw now" "\<lambda>_. pty_Close"
  for now
  by unfold_locales (auto simp: session_defs ok_defs split: if_splits)

interpretation ssh: session_ops ssh_ok sh_alive sh_stdin sh_buf ssh_Write ssh_WriteRaw ssh_Close
  by unfold_locales (auto simp: session_defs ok_defs split: if_splits)

interpretation serial: session_ops serial_ok se_alive se_port se_buf serial_Write serial_WriteRaw serial_Close
  by unfold_locales (auto simp: session_defs ok_defs split: if_splits)

section \<open>Dispatch over the implementations\<close>

datatype session = LocalS pty_session | SSHS ssh_session | SerialS serial_session | RemoteS remote_session

text \<open>
  What the environment contributes to one call: the clock, the error of the device, SSH channel or
  transport, and the output that arrives while a read waits.
\<close>

record sess_io =
  io_now :: int
  io_err :: "go_error option"
  io_turns :: "turn list"
  io_late :: "bytes list"

fun sess_ID :: "session \<Rightarrow> bytes" where
  "sess_ID (LocalS s) = ps_id s"
| "sess_ID (SSHS s) = sh_id s"
| "sess_ID (SerialS s) = se_id s"
| "sess_ID (RemoteS r) = r_id r"

fun sess_Type :: "session \<Rightarrow> bytes" where
  "sess_Type (LocalS s) = ''local''"
| "sess_Type (SSHS s) = ''ssh''"
| "sess_Type (SerialS s) = ''serial''"
| "sess_Type (RemoteS r) = ''remote''"

fun sess_IsAlive :: "session \<Rightarrow> bool" where
  "sess_IsAlive (LocalS s) = ps_alive s"
| "sess_IsAlive (SSHS s) = sh_alive s"
| "sess_IsAlive (SerialS s) = se_alive s"
| "sess_IsAlive (RemoteS r) = r_alive r"

fun sess_Buffer :: "session \<Rightarrow> ring_buffer" where
  "sess_Buffer (LocalS s) = ps_buf s"
| "sess_Buffer (SSHS s) = sh_buf s"
| "sess_Buffer (SerialS s) = se_buf s"
| "sess_Buffer (RemoteS r) = r_localBuf r"

fun sess_set_Buffer :: "session \<Rightarrow> ring_buffer \<Rightarrow> session" where
  "sess_set_Buffer (LocalS s) rb = LocalS (s\<lparr>ps_buf := rb\<rparr>)"
| "sess_set_Buffer (SSHS s) rb = SSHS (s\<lparr>sh_buf := rb\<rparr>)"
| "sess_set_Buffer (SerialS s) rb = SerialS (s\<lparr>se_buf := rb\<rparr>)"
| "sess_set_Buffer (RemoteS r) rb = RemoteS (r\<lparr>r_localBuf := rb\<rparr>)"

fun sess_Write :: "'w rpc \<Rightarrow> sess_io \<Rightarrow> session \<Rightarrow> 'w \<Rightarrow> bytes \<Rightarrow> session \<times> 'w \<times> go_error option" where
  "sess_Write rpc io (LocalS s) w x = (case pty_Write (io_now io) (io_err io) s x of (s, e) \<Rightarrow> (LocalS s, w, e))"
| "sess_Write rpc io (SSHS s) w x = (case ssh_Write (io_err io) s x of (s, e) \<Rightarrow> (SSHS s, w, e))"
| "sess_Write rpc io (SerialS s) w x = (case serial_Write (io_err io) s x of (s, e) \<Rightarrow> (SerialS s, w, e))"
| "sess_Write rpc io (RemoteS r) w x = (case r_Write rpc r w x of (r, w, e) \<Rightarrow> (RemoteS r, w, e))"

fun sess_WriteRaw :: "'w rpc \<Rightarrow> sess_io \<Rightarrow> session \<Rightarrow> 'w \<Rightarrow> bytes \<Rightarrow> session \<times> 'w \<times> go_error option" where
  "sess_WriteRaw rpc io (LocalS s) w x = (case pty_WriteRaw (io_now io) (io_err io) s x of (s, e) \<Rightarrow> (LocalS s, w, e))"
| "sess_WriteRaw rpc io (SSHS s) w x = (case ssh_WriteRaw (io_err io) s x of (s, e) \<Rightarrow> (SSHS s, w, e))"
| "sess_WriteRaw rpc io (SerialS s) w x = (case serial_WriteRaw (io_err io) s x of (s, e) \<Rightarrow> (SerialS s, w, e))"
| "sess_WriteRaw rpc io (RemoteS r) w x = (case r_WriteRaw rpc r w x of (r, w, e) \<Rightarrow> (RemoteS r, w, e))"

fun sess_ReadScreen ::
  "'w rpc \<Rightarrow> sess_io \<Rightarrow> session \<Rightarrow> 'w \<Rightarrow> bool \<Rightarrow> int \<Rightarrow> (session \<times> 'w \<times> bytes \<times> bool) option" where
  "sess_ReadScreen rpc io (LocalS s) w cancelled ms =
     do { (out, c, s) \<leftarrow> pty_ReadScreen s cancelled ms (io_now io) (io_turns io) (io_late io);
          Some (LocalS s, w, out, c) }"
| "sess_ReadScreen rpc io (SSHS s) w cancelled ms =
     do { (out, c, s) \<leftarrow> ssh_ReadScreen s cancelled ms (io_now io) (io_turns io) (io_late io);
          Some (SSHS s, w, out, c) }"
| "sess_ReadScreen rpc io (SerialS s) w cancelled ms =
     do { (out, c, s) \<leftarrow> serial_ReadScreen s cancelled ms (io_now io) (io_turns io) (io_late io);
          Some (SerialS s, w, out, c) }"
| "sess_ReadScreen rpc io (RemoteS r) w cancelled ms =
     do { (r, w, out, c) \<leftarrow> r_ReadScreen rpc r w cancelled ms; Some (RemoteS r, w, out, c) }"

fun sess_Close :: "'w rpc \<Rightarrow> sess_io \<Rightarrow> session \<Rightarrow> 'w \<Rightarrow> session \<times> 'w \<times> go_error option" where
  "sess_Close rpc io (LocalS s) w = (case pty_Close s of (s, e) \<Rightarrow> (LocalS s, w, e))"
| "sess_Close rpc io (SSHS s) w = (case ssh_Close (io_err io) s of (s, e) \<Rightarrow> (SSHS s, w, e))"
| "sess_Close rpc io (SerialS s) w = (case serial_Close (io_err io) s of (s, e) \<Rightarrow> (SerialS s, w, e))"
| "sess_Close rpc io (RemoteS r) w = (case r_Close rpc (io_err io) r w of (r, w, e) \<Rightarrow> (RemoteS r, w, e))"

text \<open>\<open>Resize\<close>; for a local terminal and SSH only the outcome is of interest here.\<close>

fun sess_Resize :: "'w rpc \<Rightarrow> sess_io \<Rightarrow> session \<Rightarrow> 'w \<Rightarrow> int \<Rightarrow> int \<Rightarrow> session \<times> 'w \<times> go_error option" where
  "sess_Resize rpc io (LocalS s) w rows cols = (LocalS s, w, io_err io)"
| "sess_Resize rpc io (SSHS s) w rows cols = (SSHS s, w, io_err io)"
| "sess_Resize rpc io (SerialS s) w rows cols =
     (SerialS s, w, Some (Errorf ''resize not supported for serial sessions''))"
| "sess_Resize rpc io (RemoteS r) w rows cols = (case r_Resize rpc r w rows cols of (r, w, e) \<Rightarrow> (RemoteS r, w, e))"

fun sess_PollRemote :: "'w rpc \<Rightarrow> session \<Rightarrow> 'w \<Rightarrow> bool list \<Rightarrow> (session \<times> 'w) option" where
  "sess_PollRemote rpc (RemoteS r) w ticks = do { (r, w) \<leftarrow> PollRemote rpc r w ticks; Some (RemoteS r, w) }"
| "sess_PollRemote rpc s w ticks = Some (s, w)"

fun sess_ok :: "session \<Rightarrow> bool" where
  "sess_ok (LocalS s) = pty_ok s"
| "sess_ok (SSHS s) = ssh_ok s"
| "sess_ok (SerialS s) = serial_ok s"
| "sess_ok (RemoteS r) = (r_closeOnce r \<longrightarrow> \<not> r_alive r)"

lemma sess_close_kills:
  assumes "sess_ok s" and "sess_Close rpc io s w = (s', w', e)"
  shows "\<not> sess_IsAlive s' \<and> sess_ok s' \<and> sess_ID s' = sess_ID s"
proof (cases s)
  case (RemoteS r)
  have "r_closeOnce r2 \<and> \<not> r_alive r2 \<and> r_id r2 = r_id r1"
    if "r_call rpc r1 w m p = (r2, w2, res)" "r_closeOnce r1" "\<not> r_alive r1" for r1 r2 w2 res m p
    using that by (auto simp: r_call_def Let_def split: prod.splits reply.splits if_splits)
  with RemoteS assms show ?thesis by (fastforce simp: r_Close_def split: if_splits prod.splits)
qed (use assms in \<open>auto simp: session_defs ok_defs split: if_splits\<close>)

section \<open>Properties of sessions\<close>

text \<open>What is typed arrives: on a live local, SSH or serial session whose device accepts the writes,
  any sequence of commands and raw inputs is delivered in order, each command followed by one carriage return
  and raw input as it is, and nothing else is sent.\<close>

theorem typed_input_delivered:
  "(ps_alive l \<longrightarrow> ps_tty (fst (type_all (pty_Write now None) (pty_WriteRaw now None) l ins))
                    = ps_tty l @ concat (map wire ins))
   \<and> (sh_alive s \<longrightarrow> sh_stdin (fst (type_all (ssh_Write None) (ssh_WriteRaw None) s ins))
                    = sh_stdin s @ concat (map wire ins))
   \<and> (se_alive p \<longrightarrow> se_port (fst (type_all (serial_Write None) (serial_WriteRaw None) p ins))
                    = se_port p @ concat (map wire ins))"
  using local_session.typed [of l now ins] ssh.typed [of s ins] serial.typed [of p ins] by auto

definition serial_sample :: serial_session where
  "serial_sample = \<lparr>se_id = ''p1'', se_buf = rb_sample, se_log = None, se_port = [], se_alive = True,
     se_done = False, se_readDone = False, se_closed = False, se_logClosed = False\<rparr>"

definition ssh_sample :: ssh_session where
  "ssh_sample = \<lparr>sh_id = ''h1'', sh_buf = rb_sample, sh_log = None, sh_stdin = [], sh_alive = True,
     sh_closed = False, sh_logClosed = False\<rparr>"

lemma typed_input_delivered_witness:
  "ps_tty (fst (type_all (pty_Write 1 None) (pty_WriteRaw 1 None) pty_sample [Line ''ls'', Raw ''q''])) = ''ls'' @ CR # ''q''
   \<and> sh_stdin (fst (type_all (ssh_Write None) (ssh_WriteRaw None) ssh_sample [Line ''ls'', Raw ''q''])) = ''ls'' @ CR # ''q''
   \<and> se_port (fst (type_all (serial_Write None) (serial_WriteRaw None) serial_sample [Line ''ls'', Raw ''q''])) = ''ls'' @ CR # ''q''"
proof -
  have a: "ps_alive pty_sample" "sh_alive ssh_sample" "se_alive serial_sample"
    "ps_tty pty_sample = []" "sh_stdin ssh_sample = []" "se_port serial_sample = []"
    by (simp_all add: pty_sample_def ssh_sample_def serial_sample_def)
  have w: "concat (map wire [Line ''ls'', Raw ''q'']) = ''ls'' @ CR # ''q''" by simp
  show ?thesis
    using typed_input_delivered [of pty_sample 1 "[Line ''ls'', Raw ''q'']" ssh_sample serial_sample] a w
    by (simp del: type_all.simps)
qed

text \<open>Closing is final for every kind of session: afterwards the session is not alive, commands and
  raw input are refused without reaching the device or the daemon, and closing again does nothing.\<close>

theorem closed_session_is_dead:
  assumes "sess_ok s" and "sess_Close rpc io s w = (s', w', e)"
  shows "\<not> sess_IsAlive s' \<and> sess_ok s'
    \<and> sess_Write rpc' io' s' v x = (s', v, Some notAlive)
    \<and> sess_WriteRaw rpc' io' s' v x = (s', v, Some notAlive)
    \<and> sess_Close rpc' io' s' v = (s', v, None)"
proof (cases s)
  case (LocalS l)
  with assms show ?thesis by (auto simp: session_defs ok_defs split: if_splits)
next
  case (SSHS l)
  with assms show ?thesis by (auto simp: session_defs ok_defs split: if_splits)
next
  case (SerialS l)
  with assms show ?thesis by (auto simp: session_defs ok_defs split: if_splits)
next
  case (RemoteS r)
  have "r_closeOnce r2 \<and> \<not> r_alive r2"
    if "r_call rpc r1 w m p = (r2, w2, res)" "r_closeOnce r1" "\<not> r_alive r1" for r1 r2 w2 res m p
    using that by (auto simp: r_call_def Let_def split: prod.splits reply.splits if_splits)
  with RemoteS assms show ?thesis
    by (fastforce simp: r_Close_def r_Write_def r_WriteRaw_def split: if_splits prod.splits)
qed

lemma closed_session_is_dead_witness:
  "\<exists>s' w' e. sess_Close (daemon_rpc env_sample (\<lambda>_. []) []) \<lparr>io_now = 0, io_err = None, io_turns = [], io_late = []\<rparr>
       (RemoteS remote_sample) srv_sample = (s', w', e) \<and> \<not> sess_IsAlive s'"
proof -
  obtain s' w' e where c: "sess_Close (daemon_rpc env_sample (\<lambda>_. []) [])
      \<lparr>io_now = 0, io_err = None, io_turns = [], io_late = []\<rparr> (RemoteS remote_sample) srv_sample = (s', w', e)"
    by (metis prod_cases3)
  have "sess_ok (RemoteS remote_sample)" by (simp add: remote_sample_def fresh_remote_def)
  from closed_session_is_dead [OF this c, where rpc' = "daemon_rpc env_sample (\<lambda>_. []) []"]
  have "\<not> sess_IsAlive s'" by blast
  with c show ?thesis by blast
qed

text \<open>A command starts a fresh read: right after a successful or failed \<open>Write\<close> on a live local,
  SSH or serial session nothing is unread, so the following default read returns only what the terminal
  prints from then on.\<close>

theorem Write_starts_fresh:
  assumes "sess_IsAlive s" and "\<And>r. s \<noteq> RemoteS r" and "holds h (sess_Buffer s)"
    and "sess_Write rpc io s w x = (s', w', e)"
  shows "holds h (sess_Buffer s') \<and> Since (sess_Buffer s') = Some [] \<and> e = io_err io"
proof (cases s)
  case (LocalS l)
  with assms show ?thesis
    using local_session.write_is_fresh [of l "io_now io" "io_err io" x]
      local_session.write_alive [of l "io_now io" "io_err io" x] by (fastforce split: prod.splits)
next
  case (SSHS l)
  with assms show ?thesis
    using ssh.write_is_fresh [of l "io_err io" x] ssh.write_alive [of l "io_err io" x]
    by (fastforce split: prod.splits)
next
  case (SerialS l)
  with assms show ?thesis
    using serial.write_is_fresh [of l "io_err io" x] serial.write_alive [of l "io_err io" x]
    by (fastforce split: prod.splits)
next
  case (RemoteS r)
  with assms(2) [of r] show ?thesis by simp
qed

lemma Write_starts_fresh_witness:
  "Since (sess_Buffer (fst (sess_Write (\<lambda>w _. (w, ReadClosed)) \<lparr>io_now = 0, io_err = None, io_turns = [], io_late = []\<rparr>
     (SSHS ssh_sample) () ''ls''))) = Some []"
proof -
  let ?io = "\<lparr>io_now = 0, io_err = None, io_turns = [], io_late = []\<rparr>"
  obtain s' w' e where c: "sess_Write (\<lambda>w _. (w, ReadClosed)) ?io (SSHS ssh_sample) () ''ls'' = (s', w', e)"
    by (metis prod_cases3)
  have "sess_IsAlive (SSHS ssh_sample)" "\<And>r. SSHS ssh_sample \<noteq> RemoteS r"
    "holds ''XXXXXXabcde'' (sess_Buffer (SSHS ssh_sample))"
    using holds_sample by (simp_all add: ssh_sample_def)
  from Write_starts_fresh [OF this c] show ?thesis by (simp only: c fst_conv)
qed

text \<open>A serial session can only open a device file: an accepted path lies directly under
  \<open>/dev\<close> up to the name that starts with \<open>tty\<close> or \<open>cu.\<close>, none of its components goes up,
  and any other path is refused before the port is opened.\<close>

theorem serial_device_confined:
  "(isValidSerialDevice d \<longrightarrow> take 2 (Split (CHR 0x2F) d) = [[], ''dev''] \<and> ''..'' \<notin> set (Split (CHR 0x2F) d))
   \<and> (\<not> isValidSerialDevice d \<longrightarrow>
        (\<exists>msg. NewSerialSession i d baud hasLog bufVal openErr first = Some (Inl (Errorf msg))))"
proof -
  have parts: "''..'' \<notin> set (Split (CHR 0x2F) d)" if "\<not> Contains d ''..''"
  proof
    assume "''..'' \<in> set (Split (CHR 0x2F) d)"
    then obtain ps qs where "Split (CHR 0x2F) d = ps @ ''..'' # qs" by (auto dest: split_list)
    then have "d = Join (ps @ ''..'' # qs) [CHR 0x2F]" by (metis Join_Split)
    then have "\<exists>u v. d = u @ ''..'' @ v" using Join_contains [of ps "''..''" qs] by metis
    with that show False by (simp add: Contains_iff)
  qed
  have start: "take 2 (Split (CHR 0x2F) d) = [[], ''dev'']" if "d = ''/dev/'' @ v" for v
    using that Split_nonempty [of "CHR 0x2F" v] by (simp split: list.split)
  show ?thesis
    using parts start
    by (auto simp: isValidSerialDevice_def HasPrefix_iff prefix_def NewSerialSession_def)
qed

lemma serial_device_confined_witness:
  "take 2 (Split (CHR 0x2F) ''/dev/ttyUSB0'') = [[], ''dev'']
   \<and> (\<exists>msg. NewSerialSession ''p1'' ''/dev/tty/../sda'' 9600 False [] None [] = Some (Inl (Errorf msg)))"
proof -
  have "isValidSerialDevice ''/dev/ttyUSB0''" "\<not> isValidSerialDevice ''/dev/tty/../sda''" by code_simp+
  then show ?thesis
    using serial_device_confined [of "''/dev/ttyUSB0''"] serial_device_confined [of "''/dev/tty/../sda''" "''p1''" 9600 False "[]" None "[]"]
    by blast
qed

end
