(* ===== verification/Session_Manager.thy ===== *)
theory Session_Manager
  imports Sessions
begin

text \<open>
  \<open>internal/session/session.go\<close>: the manager of all open sessions. Sessions are shared objects, so
  the manager's map holds references and \<open>heap\<close> says which session a reference is. Each method runs
  under one mutex and is one function of the state; \<open>Close\<close> and \<open>Detach\<close> call the session
  after releasing it. The per-session locks, channels of capacity one, get a step relation of their own.
\<close>

section \<open>State\<close>

type_synonym ref = nat
type_synonym heap = "ref \<Rightarrow> session"

record Info =
  in_ID :: bytes
  in_Type :: bytes
  in_Target :: bytes
  in_IsAlive :: bool
  in_CreatedAt :: int
  in_LastUsed :: int

record PendingSecret =
  pe_Secret :: bytes
  pe_LineEnding :: bytes

record manager =
  m_sessions :: "bytes \<rightharpoonup> ref"
  m_infos :: "bytes \<rightharpoonup> Info"
  m_idleTimeout :: int
  m_pendingSecrets :: "bytes \<rightharpoonup> PendingSecret"
  m_sessionLocks :: "bytes \<rightharpoonup> bool"

definition NewManager :: "int \<Rightarrow> manager" where
  "NewManager idleSeconds = \<lparr>m_sessions = Map.empty, m_infos = Map.empty, m_idleTimeout = idleSeconds,
     m_pendingSecrets = Map.empty, m_sessionLocks = Map.empty\<rparr>"

section \<open>The registry\<close>

text \<open>\<open>ID\<close> and \<open>ty\<close> are \<open>s.ID()\<close> and \<open>s.Type()\<close>; with an error the session is also closed.\<close>

definition Add :: "int \<Rightarrow> bytes \<Rightarrow> bytes \<Rightarrow> bytes \<Rightarrow> ref \<Rightarrow> manager \<Rightarrow> manager \<times> go_error option" where
  "Add now target ID ty s m =
     (if card (dom (m_sessions m)) \<ge> maxSessions then (m, Some SessionLimitError)
      else (m\<lparr>m_sessions := (m_sessions m)(ID \<mapsto> s),
              m_infos := (m_infos m)(ID \<mapsto> \<lparr>in_ID = ID, in_Type = ty, in_Target = target, in_IsAlive = True,
                                         in_CreatedAt = now, in_LastUsed = now\<rparr>)\<rparr>, None))"

definition Get :: "int \<Rightarrow> bytes \<Rightarrow> manager \<Rightarrow> manager \<times> ref result" where
  "Get now ID m =
     (case m_sessions m ID of
        None \<Rightarrow> (m, Inl (SessionNotFoundError ID))
      | Some s \<Rightarrow>
          (case m_infos m ID of
             None \<Rightarrow> (m, Inr s)
           | Some info \<Rightarrow> (m\<lparr>m_infos := (m_infos m)(ID \<mapsto> info\<lparr>in_LastUsed := now\<rparr>)\<rparr>, Inr s)))"

definition zeroInfo :: Info where
  "zeroInfo = \<lparr>in_ID = [], in_Type = [], in_Target = [], in_IsAlive = False, in_CreatedAt = 0, in_LastUsed = 0\<rparr>"

definition refresh :: "heap \<Rightarrow> manager \<Rightarrow> bytes \<Rightarrow> Info \<Rightarrow> Info" where
  "refresh heap m ID info =
     (case m_sessions m ID of None \<Rightarrow> info | Some s \<Rightarrow> info\<lparr>in_IsAlive := sess_IsAlive (heap s)\<rparr>)"

definition GetInfo :: "heap \<Rightarrow> bytes \<Rightarrow> manager \<Rightarrow> Info" where
  "GetInfo heap ID m = (case m_infos m ID of None \<Rightarrow> zeroInfo | Some info \<Rightarrow> refresh heap m ID info)"

text \<open>The map is listed in whatever order Go iterates it.\<close>

definition List :: "heap \<Rightarrow> bytes list \<Rightarrow> manager \<Rightarrow> Info list" where
  "List heap order m = List.map_filter (\<lambda>ID. map_option (refresh heap m ID) (m_infos m ID)) order"

definition remove :: "bytes \<Rightarrow> manager \<Rightarrow> manager" where
  "remove ID m = m\<lparr>m_sessions := map_delete ID (m_sessions m), m_infos := map_delete ID (m_infos m)\<rparr>"

definition clearSecret :: "bytes \<Rightarrow> manager \<Rightarrow> manager" where
  "clearSecret ID m = m\<lparr>m_pendingSecrets := map_delete ID (m_pendingSecrets m)\<rparr>"

text \<open>\<open>Close\<close> and \<open>Detach\<close>: the reference to close (or detach), or the error.\<close>

definition Close :: "bytes \<Rightarrow> manager \<Rightarrow> manager \<times> ref result" where
  "Close ID m =
     (case m_sessions m ID of
        None \<Rightarrow> (m, Inl (SessionNotFoundError ID))
      | Some s \<Rightarrow> (clearSecret ID (remove ID m), Inr s))"

text \<open>What \<open>Detach\<close> does to the session: a remote one is detached, any other is closed.\<close>

definition detach_session :: "'w rpc \<Rightarrow> sess_io \<Rightarrow> session \<Rightarrow> 'w \<Rightarrow> session \<times> 'w \<times> go_error option" where
  "detach_session rpc io s w =
     (case s of
        RemoteS r \<Rightarrow> (case r_Detach (io_err io) r of (r, e) \<Rightarrow> (RemoteS r, w, e))
      | _ \<Rightarrow> sess_Close rpc io s w)"

definition Detach :: "bytes \<Rightarrow> manager \<Rightarrow> manager \<times> ref result" where
  "Detach ID m =
     (case m_sessions m ID of
        None \<Rightarrow> (m, Inl (SessionNotFoundError ID))
      | Some s \<Rightarrow> (clearSecret ID (remove ID m), Inr s))"

text \<open>One tick of the reaper: what it leaves, and the references it closes afterwards.\<close>

definition expired :: "int \<Rightarrow> manager \<Rightarrow> bytes \<Rightarrow> bool" where
  "expired now m ID \<longleftrightarrow> m_sessions m ID \<noteq> None \<and>
     (case m_infos m ID of None \<Rightarrow> False | Some info \<Rightarrow> now - in_LastUsed info > m_idleTimeout m)"

definition idleReaper :: "int \<Rightarrow> manager \<Rightarrow> manager \<times> ref set" where
  "idleReaper now m =
     (m\<lparr>m_sessions := (\<lambda>ID. if expired now m ID then None else m_sessions m ID),
        m_infos := (\<lambda>ID. if expired now m ID then None else m_infos m ID)\<rparr>,
      (\<lambda>ID. the (m_sessions m ID)) ` {ID. expired now m ID})"

section \<open>Pending secrets\<close>

definition SetPendingSecret :: "bytes \<Rightarrow> PendingSecret \<Rightarrow> manager \<Rightarrow> manager" where
  "SetPendingSecret ID ps m = m\<lparr>m_pendingSecrets := (m_pendingSecrets m)(ID \<mapsto> ps)\<rparr>"

definition TakeSecret :: "bytes \<Rightarrow> manager \<Rightarrow> manager \<times> PendingSecret option" where
  "TakeSecret ID m =
     (case m_pendingSecrets m ID of
        None \<Rightarrow> (m, None)
      | Some ps \<Rightarrow> (m\<lparr>m_pendingSecrets := map_delete ID (m_pendingSecrets m)\<rparr>, Some ps))"

section \<open>Session locks\<close>

text \<open>
  The lock of a session is a channel of capacity one, \<open>True\<close> when it holds a token.
  \<open>LockSession\<close> is a \<open>select\<close>: it blocks (\<open>None\<close>) while the channel is full and the
  context not done; when both cases are ready, \<open>pick\<close> says which Go takes.
\<close>

definition sessionLockChan :: "bytes \<Rightarrow> manager \<Rightarrow> manager \<times> bool" where
  "sessionLockChan ID m =
     (case m_sessionLocks m ID of
        None \<Rightarrow> (m\<lparr>m_sessionLocks := (m_sessionLocks m)(ID \<mapsto> False)\<rparr>, False)
      | Some full \<Rightarrow> (m, full))"

definition LockSession :: "go_error option \<Rightarrow> bool \<Rightarrow> bytes \<Rightarrow> manager \<Rightarrow> (manager \<times> go_error option) option" where
  "LockSession ctxErr pick ID m =
     (case sessionLockChan ID m of
        (m, full) \<Rightarrow>
          if \<not> full \<and> (ctxErr = None \<or> pick)
          then Some (m\<lparr>m_sessionLocks := (m_sessionLocks m)(ID \<mapsto> True)\<rparr>, None)
          else (case ctxErr of Some e \<Rightarrow> Some (m, Some e) | None \<Rightarrow> None))"

definition UnlockSession :: "bytes \<Rightarrow> manager \<Rightarrow> manager" where
  "UnlockSession ID m =
     (case sessionLockChan ID m of
        (m, full) \<Rightarrow> if full then m\<lparr>m_sessionLocks := (m_sessionLocks m)(ID \<mapsto> False)\<rparr> else m)"

section \<open>Contracts\<close>

text \<open>A registry with a capacity: the manager's, and the daemon's.\<close>

datatype ('k, 'v) registry_op = Put 'k 'v | Drop 'k

locale bounded_registry =
  fixes inv :: "'r \<Rightarrow> bool" and count :: "'r \<Rightarrow> nat" and lookup :: "'r \<Rightarrow> 'k \<rightharpoonup> 'v"
    and put :: "'r \<Rightarrow> 'k \<Rightarrow> 'v \<Rightarrow> 'r" and drop_key :: "'r \<Rightarrow> 'k \<Rightarrow> 'r" and limit :: nat
  assumes put_full: "inv r \<Longrightarrow> limit \<le> count r \<Longrightarrow> put r k v = r"
    and put_room: "inv r \<Longrightarrow> count r < limit \<Longrightarrow> inv (put r k v) \<and> count (put r k v) \<le> Suc (count r)
          \<and> lookup (put r k v) = (lookup r)(k \<mapsto> v)"
    and drop_law: "inv r \<Longrightarrow> inv (drop_key r k) \<and> count (drop_key r k) \<le> count r
          \<and> lookup (drop_key r k) = (lookup r)(k := None)"
begin

lemma put_inv: "inv r \<Longrightarrow> inv (put r k v)"
  using put_full [of r k v] put_room [of r k v] by (cases "limit \<le> count r") auto

lemma put_bound: "inv r \<Longrightarrow> count r \<le> limit \<Longrightarrow> count (put r k v) \<le> limit"
  using put_full [of r k v] put_room [of r k v] by (cases "limit \<le> count r") auto

lemma history_bound:
  "inv r \<Longrightarrow> count r \<le> limit \<Longrightarrow>
    let r' = foldl (\<lambda>r op. case op of Put k v \<Rightarrow> put r k v | Drop k \<Rightarrow> drop_key r k) r ops
    in inv r' \<and> count r' \<le> limit"
proof (induction ops arbitrary: r)
  case (Cons op ops)
  show ?case
  proof (cases op)
    case (Put k v)
    with Cons put_inv put_bound show ?thesis by (simp add: Let_def)
  next
    case (Drop k)
    with Cons drop_law [of r k] show ?thesis by (simp add: Let_def)
  qed
qed simp

lemma never_put:
  "inv r \<Longrightarrow> \<forall>v. Put k v \<notin> set ops \<Longrightarrow> lookup r k = None \<Longrightarrow>
    lookup (foldl (\<lambda>r op. case op of Put k v \<Rightarrow> put r k v | Drop k \<Rightarrow> drop_key r k) r ops) k = None"
proof (induction ops arbitrary: r)
  case (Cons op ops)
  show ?case
  proof (cases op)
    case (Put j v)
    with Cons.prems have "j \<noteq> k" by auto
    then have "lookup (put r j v) k = None"
      using put_full [of r j v] put_room [of r j v] Cons.prems by (cases "limit \<le> count r") auto
    with Put Cons.IH [of "put r j v"] Cons.prems put_inv show ?thesis by simp
  next
    case (Drop j)
    with Cons.IH [of "drop_key r j"] Cons.prems drop_law [of r j] show ?thesis by simp
  qed
qed simp

end

text \<open>A store whose entries can be taken once.\<close>

fun take_all :: "('k \<Rightarrow> 's \<Rightarrow> 's \<times> 'v option) \<Rightarrow> 'k list \<Rightarrow> 's \<Rightarrow> 'v option list" where
  "take_all take_out [] s = []"
| "take_all take_out (k # ks) s = (case take_out k s of (s, r) \<Rightarrow> r # take_all take_out ks s)"

locale single_use_store =
  fixes staged :: "'s \<Rightarrow> 'k \<rightharpoonup> 'v" and stage :: "'k \<Rightarrow> 'v \<Rightarrow> 's \<Rightarrow> 's" and take_out :: "'k \<Rightarrow> 's \<Rightarrow> 's \<times> 'v option"
  assumes stage_law: "staged (stage k v s) k = Some v"
    and take_law: "take_out k s = (s', r) \<Longrightarrow> r = staged s k \<and> staged s' = (staged s)(k := None)"
begin

lemma take_staged: "\<exists>s'. take_out k (stage k v s) = (s', Some v) \<and> staged s' k = None"
proof -
  obtain s' r where t: "take_out k (stage k v s) = (s', r)" by fastforce
  then show ?thesis using take_law [OF t] stage_law [of k v s] by simp
qed

text \<open>However often and by whichever callers entries are taken, each comes out once.\<close>

lemma takes_staged:
  "take_all take_out ks s = map (\<lambda>i. if ks ! i \<in> set (take i ks) then None else staged s (ks ! i)) [0..<length ks]"
proof (induction ks arbitrary: s)
  case (Cons k ks)
  obtain s' r where t: "take_out k s = (s', r)" by fastforce
  have "map (\<lambda>i. if (k # ks) ! i \<in> set (take i (k # ks)) then None else staged s ((k # ks) ! i)) [0..<length (k # ks)]
    = staged s k # map (\<lambda>i. if ks ! i \<in> set (take i ks) then None else staged s' (ks ! i)) [0..<length ks]"
    using take_law [OF t] by (simp add: map_upt_Suc del: upt_Suc)
  with Cons.IH [of s'] take_law [OF t] show ?case by (simp add: t)
qed simp

end

section \<open>The manager's invariant\<close>

definition mgr_ok :: "manager \<Rightarrow> bool" where
  "mgr_ok m \<longleftrightarrow> finite (dom (m_sessions m)) \<and> dom (m_infos m) = dom (m_sessions m)
     \<and> (\<forall>ID info. m_infos m ID = Some info \<longrightarrow> in_ID info = ID)"

definition mgr_count :: "manager \<Rightarrow> nat" where
  "mgr_count m = card (dom (m_sessions m))"

lemma mgr_ok_New: "mgr_ok (NewManager t)" "mgr_count (NewManager t) = 0"
  by (simp_all add: mgr_ok_def mgr_count_def NewManager_def)

lemma mgr_ok_Add [wf_intros]: "mgr_ok m \<Longrightarrow> mgr_ok (fst (Add now target ID ty s m))"
  by (auto simp: mgr_ok_def Add_def)

lemma mgr_ok_remove [wf_intros]: "mgr_ok m \<Longrightarrow> mgr_ok (remove ID m)"
  by (auto simp: mgr_ok_def remove_def split: if_splits)

lemma mgr_ok_Get [wf_intros]: "mgr_ok m \<Longrightarrow> mgr_ok (fst (Get now ID m))"
  by (auto simp: mgr_ok_def Get_def split: option.split)

lemma mgr_ok_secret [wf_intros]:
  "mgr_ok m \<Longrightarrow> mgr_ok (m\<lparr>m_pendingSecrets := x\<rparr>)" "mgr_ok m \<Longrightarrow> mgr_ok (m\<lparr>m_sessionLocks := l\<rparr>)"
  by (simp_all add: mgr_ok_def)

lemma mgr_ok_Close [wf_intros]: "mgr_ok m \<Longrightarrow> mgr_ok (fst (Close ID m))"
  by (auto simp: Close_def clearSecret_def split: option.split intro: wf_intros)

lemma mgr_ok_reap [wf_intros]: "mgr_ok m \<Longrightarrow> mgr_ok (fst (idleReaper now m))"
proof -
  assume ok: "mgr_ok m"
  have "dom (\<lambda>ID. if expired now m ID then None else m_sessions m ID) \<subseteq> dom (m_sessions m)"
    by (auto split: if_splits)
  then have "finite (dom (\<lambda>ID. if expired now m ID then None else m_sessions m ID))"
    using ok unfolding mgr_ok_def by (blast intro: finite_subset)
  moreover have "dom (\<lambda>ID. if expired now m ID then None else m_infos m ID)
      = dom (\<lambda>ID. if expired now m ID then None else m_sessions m ID)"
    using ok by (auto simp: mgr_ok_def dom_def split: if_splits)
  ultimately show ?thesis using ok by (simp add: mgr_ok_def idleReaper_def)
qed

interpretation sessions: bounded_registry mgr_ok mgr_count m_sessions
    "\<lambda>m ID s. fst (Add now target ID ty s m)" "\<lambda>m ID. fst (Close ID m)" maxSessions
  for now target ty
proof unfold_locales
  fix m :: manager and ID and s :: ref
  show "maxSessions \<le> mgr_count m \<Longrightarrow> fst (Add now target ID ty s m) = m"
    by (simp add: Add_def mgr_count_def)
  show "mgr_ok (fst (Add now target ID ty s m)) \<and> mgr_count (fst (Add now target ID ty s m)) \<le> Suc (mgr_count m)
      \<and> m_sessions (fst (Add now target ID ty s m)) = (m_sessions m)(ID \<mapsto> s)"
    if "mgr_ok m" "mgr_count m < maxSessions"
    using that mgr_ok_Add [OF that(1), of now target ID ty s] card_dom_upd_le [of "m_sessions m" ID s]
    by (auto simp: Add_def mgr_count_def mgr_ok_def)
  show "mgr_ok (fst (Close ID m)) \<and> mgr_count (fst (Close ID m)) \<le> mgr_count m
      \<and> m_sessions (fst (Close ID m)) = (m_sessions m)(ID := None)" if "mgr_ok m"
    using mgr_ok_Close [OF that, of ID] card_dom_delete_le [of "m_sessions m" ID] that
    by (auto simp: Close_def clearSecret_def remove_def mgr_count_def mgr_ok_def map_delete_def
        split: option.split)
qed

interpretation daemon: bounded_registry "\<lambda>srv. finite (dom (srv_sessions srv))"
    "\<lambda>srv. card (dom (srv_sessions srv))" srv_sessions "\<lambda>srv sid s. fst (register srv sid s req)"
    "\<lambda>srv sid. srv\<lparr>srv_sessions := map_delete sid (srv_sessions srv)\<rparr>" maxAiTmuxSessions
  for req
  by unfold_locales
    (auto simp: register_def set_session_def card_dom_delete_le card_insert_if map_delete_def
      intro: card_Diff1_le)

interpretation secrets: single_use_store m_pendingSecrets SetPendingSecret TakeSecret
  by unfold_locales
    (auto simp: SetPendingSecret_def TakeSecret_def map_delete_def fun_eq_iff split: option.splits)

section \<open>Histories\<close>

datatype mgr_op = OpAdd int bytes bytes bytes ref | OpGet int bytes | OpClose bytes | OpDetach bytes | OpReap int
  | OpSet bytes PendingSecret | OpTake bytes

fun mgr_step :: "manager \<Rightarrow> mgr_op \<Rightarrow> manager" where
  "mgr_step m (OpAdd now target ID ty s) = fst (Add now target ID ty s m)"
| "mgr_step m (OpGet now ID) = fst (Get now ID m)"
| "mgr_step m (OpClose ID) = fst (Close ID m)"
| "mgr_step m (OpDetach ID) = fst (Detach ID m)"
| "mgr_step m (OpReap now) = fst (idleReaper now m)"
| "mgr_step m (OpSet ID ps) = SetPendingSecret ID ps m"
| "mgr_step m (OpTake ID) = fst (TakeSecret ID m)"

lemma Detach_Close: "Detach ID m = Close ID m"
  by (simp add: Detach_def Close_def)

lemma m_sessions_frame [frame_simps]:
  "m_sessions (fst (Get now ID m)) = m_sessions m" "m_sessions (SetPendingSecret ID ps m) = m_sessions m"
  "m_sessions (fst (TakeSecret ID m)) = m_sessions m" "m_sessions (clearSecret ID m) = m_sessions m"
  by (simp_all add: Get_def SetPendingSecret_def TakeSecret_def clearSecret_def split: option.split)

lemma mgr_count_reap: "mgr_ok m \<Longrightarrow> mgr_count (fst (idleReaper now m)) \<le> mgr_count m"
  unfolding mgr_count_def by (rule card_mono) (auto simp: mgr_ok_def idleReaper_def split: if_splits)

lemma mgr_step_ok:
  "mgr_ok m \<Longrightarrow> mgr_count m \<le> maxSessions \<Longrightarrow> mgr_ok (mgr_step m op) \<and> mgr_count (mgr_step m op) \<le> maxSessions"
proof (cases op)
  case (OpAdd now target ID ty s)
  assume "mgr_ok m" "mgr_count m \<le> maxSessions"
  with OpAdd sessions.put_bound [of m now target ID ty s] show ?thesis by (simp add: mgr_ok_Add)
next
  case (OpGet now ID)
  assume "mgr_ok m" "mgr_count m \<le> maxSessions"
  with OpGet show ?thesis by (simp add: mgr_ok_Get mgr_count_def frame_simps)
next
  case (OpClose ID)
  assume "mgr_ok m" "mgr_count m \<le> maxSessions"
  with OpClose sessions.drop_law [of m ID] show ?thesis by simp
next
  case (OpDetach ID)
  assume "mgr_ok m" "mgr_count m \<le> maxSessions"
  with OpDetach sessions.drop_law [of m ID] show ?thesis by (simp add: Detach_Close)
next
  case (OpReap now)
  assume "mgr_ok m" "mgr_count m \<le> maxSessions"
  with OpReap mgr_count_reap [of m now] show ?thesis by (simp add: mgr_ok_reap)
next
  case (OpSet ID ps)
  assume "mgr_ok m" "mgr_count m \<le> maxSessions"
  with OpSet show ?thesis by (simp add: SetPendingSecret_def mgr_ok_secret mgr_count_def)
next
  case (OpTake ID)
  assume "mgr_ok m" "mgr_count m \<le> maxSessions"
  with OpTake show ?thesis by (simp add: TakeSecret_def mgr_ok_secret mgr_count_def split: option.split)
qed

lemma mgr_history_ok:
  "mgr_ok m \<Longrightarrow> mgr_count m \<le> maxSessions \<Longrightarrow>
    mgr_ok (foldl mgr_step m ops) \<and> mgr_count (foldl mgr_step m ops) \<le> maxSessions"
  by (induction ops arbitrary: m) (simp_all add: mgr_step_ok)

lemma mgr_step_absent:
  "m_sessions m ID = None \<Longrightarrow> \<forall>now target ty s. op \<noteq> OpAdd now target ID ty s \<Longrightarrow> m_sessions (mgr_step m op) ID = None"
  by (cases op) (auto simp: Add_def Close_def Detach_Close remove_def idleReaper_def frame_simps split: option.split)

lemma mgr_history_absent:
  "m_sessions m ID = None \<Longrightarrow> \<forall>now target ty s. OpAdd now target ID ty s \<notin> set ops \<Longrightarrow>
    m_sessions (foldl mgr_step m ops) ID = None"
proof (induction ops arbitrary: m)
  case (Cons op ops)
  have "\<forall>now target ty s. op \<noteq> OpAdd now target ID ty s" using Cons.prems(2) by (metis list.set_intros(1))
  with Cons.prems(1) have "m_sessions (mgr_step m op) ID = None" by (rule mgr_step_absent)
  with Cons show ?case by simp
qed simp

section \<open>Properties of the manager\<close>

text \<open>C5. Whatever sequence of registrations, lookups, closes, detaches, reaper ticks and secret operations a
  new manager goes through, it never has more than 50 sessions, and it keeps exactly one info record per
  session, filed under that session's id.\<close>

theorem registry_invariant:
  "card (dom (m_sessions (foldl mgr_step (NewManager secs) ops))) \<le> 50
   \<and> dom (m_infos (foldl mgr_step (NewManager secs) ops)) = dom (m_sessions (foldl mgr_step (NewManager secs) ops))
   \<and> map_option in_ID (m_infos (foldl mgr_step (NewManager secs) ops) ID) \<in> {None, Some ID}"
proof -
  have "mgr_ok (foldl mgr_step (NewManager secs) ops) \<and> mgr_count (foldl mgr_step (NewManager secs) ops) \<le> maxSessions"
    by (rule mgr_history_ok) (simp_all add: mgr_ok_New)
  then show ?thesis
    by (cases "m_infos (foldl mgr_step (NewManager secs) ops) ID")
      (auto simp: mgr_ok_def mgr_count_def maxSessions_def)
qed

text \<open>A closed or detached session is gone for good: its staged secret is dropped at once, and no
  sequence of operations that does not register the id again (ids are never reused) makes \<open>Get\<close>
  find it.\<close>

theorem closed_stays_gone:
  assumes "m' = fst (Close ID m) \<or> m' = fst (Detach ID m)" and "m_sessions m ID \<noteq> None"
    and "\<forall>now target ty s. OpAdd now target ID ty s \<notin> set ops"
  shows "snd (TakeSecret ID m') = None
    \<and> Get now ID (foldl mgr_step m' ops) = (foldl mgr_step m' ops, Inl (SessionNotFoundError ID))"
proof -
  have m': "m' = fst (Close ID m)" using assms(1) by (simp add: Detach_Close)
  then have "m_sessions m' ID = None" "m_pendingSecrets m' ID = None"
    using assms(2) by (auto simp: Close_def clearSecret_def remove_def)
  with mgr_history_absent [OF this(1) assms(3)] show ?thesis by (simp add: Get_def TakeSecret_def)
qed

definition mgr_sample :: manager where
  "mgr_sample = SetPendingSecret ''a'' \<lparr>pe_Secret = ''pw'', pe_LineEnding = [CR]\<rparr>
     (foldl mgr_step (NewManager 600) [OpAdd 0 ''host'' ''a'' ''ssh'' 1, OpAdd 5 ''bash'' ''b'' ''local'' 2])"

lemma mgr_sample_facts:
  "mgr_ok mgr_sample" "m_sessions mgr_sample ''a'' = Some 1" "m_sessions mgr_sample ''b'' = Some 2"
  "m_pendingSecrets mgr_sample ''a'' = Some \<lparr>pe_Secret = ''pw'', pe_LineEnding = [CR]\<rparr>"
  "map_option in_LastUsed (m_infos mgr_sample ''a'') = Some 0" "m_idleTimeout mgr_sample = 600"
proof -
  show "mgr_ok mgr_sample"
    unfolding mgr_sample_def SetPendingSecret_def
    by (intro mgr_ok_secret mgr_history_ok [THEN conjunct1]) (simp_all add: mgr_ok_New)
qed (simp_all add: mgr_sample_def SetPendingSecret_def NewManager_def Add_def maxSessions_def)

lemma closed_stays_gone_witness:
  "snd (TakeSecret ''a'' (fst (Close ''a'' mgr_sample))) = None
   \<and> snd (Get 9 ''a'' (foldl mgr_step (fst (Close ''a'' mgr_sample)) [OpGet 7 ''b'', OpReap 8]))
       = Inl (SessionNotFoundError ''a'')"
  using closed_stays_gone [of "fst (Close ''a'' mgr_sample)" "''a''" mgr_sample "[OpGet 7 ''b'', OpReap 8]" 9]
    mgr_sample_facts(2) by (simp del: foldl.simps)

text \<open>A session in use is not reaped: after a lookup at time \<open>t\<close> it survives every reaper tick up to
  the idle timeout later, and one that has been idle for longer is removed and closed.\<close>

theorem reaper_spares_used:
  assumes "mgr_ok m" and "Get t ID m = (m', Inr s)"
  shows "(now - t \<le> m_idleTimeout m \<longrightarrow> m_sessions (fst (idleReaper now m')) ID = Some s)
    \<and> (now - t > m_idleTimeout m \<longrightarrow> m_sessions (fst (idleReaper now m')) ID = None \<and> s \<in> snd (idleReaper now m'))"
proof -
  have s: "m_sessions m ID = Some s" using assms(2) by (auto simp: Get_def split: option.splits)
  then have "ID \<in> dom (m_infos m)" using assms(1) by (simp add: mgr_ok_def domI)
  then obtain info where i: "m_infos m ID = Some info" by blast
  have m': "m' = m\<lparr>m_infos := (m_infos m)(ID \<mapsto> info\<lparr>in_LastUsed := t\<rparr>)\<rparr>"
    using assms(2) s i by (simp add: Get_def)
  have "expired now m' ID \<longleftrightarrow> now - t > m_idleTimeout m" by (simp add: expired_def m' s)
  moreover have "expired now m' ID \<Longrightarrow> s \<in> snd (idleReaper now m')"
    by (auto simp: idleReaper_def m' s intro!: image_eqI [of _ _ ID])
  ultimately show ?thesis by (simp add: idleReaper_def m' s)
qed

lemma reaper_spares_used_witness:
  "m_sessions (fst (idleReaper 610 (fst (Get 10 ''a'' mgr_sample)))) ''a'' = Some 1
   \<and> m_sessions (fst (idleReaper 611 (fst (Get 10 ''a'' mgr_sample)))) ''a'' = None"
proof -
  obtain m' where g: "Get 10 ''a'' mgr_sample = (m', Inr 1)"
    using mgr_sample_facts(2) by (cases "m_infos mgr_sample ''a''") (auto simp: Get_def)
  show ?thesis
    using reaper_spares_used [OF mgr_sample_facts(1) g, of 610] reaper_spares_used [OF mgr_sample_facts(1) g, of 611]
    by (simp add: g mgr_sample_facts)
qed

text \<open>Reaping an idle session forgets to drop its staged secret: unlike \<open>Close\<close> and
  \<open>Detach\<close>, the reaper leaves the secret of a session that no longer exists in memory.\<close>

theorem reaped_session_keeps_secret:
  assumes "expired now m ID" and "m_pendingSecrets m ID = Some ps"
  shows "snd (Get t ID (fst (idleReaper now m))) = Inl (SessionNotFoundError ID)
    \<and> snd (TakeSecret ID (fst (idleReaper now m))) = Some ps
    \<and> snd (TakeSecret ID (fst (Close ID m))) = None"
  using assms by (auto simp: idleReaper_def Get_def TakeSecret_def Close_def clearSecret_def remove_def expired_def)

lemma reaped_session_keeps_secret_witness:
  "snd (TakeSecret ''a'' (fst (idleReaper 1000 mgr_sample))) = Some \<lparr>pe_Secret = ''pw'', pe_LineEnding = [CR]\<rparr>"
proof -
  have "expired 1000 mgr_sample ''a''"
    using mgr_sample_facts by (auto simp: expired_def split: option.split)
  from reaped_session_keeps_secret [OF this mgr_sample_facts(4)] show ?thesis by blast
qed

text \<open>A staged secret is used at most once: whatever sequence of takes follows, the first one for the
  session gets the secret and every later one gets none, and takes for other sessions do not touch it.\<close>

theorem staged_secret_once:
  assumes "i < length ids" and "ids ! i = ID"
  shows "take_all TakeSecret ids (SetPendingSecret ID ps m) ! i = (if ID \<in> set (take i ids) then None else Some ps)"
  using assms secrets.stage_law [of ID ps m] by (simp add: secrets.takes_staged)

lemma staged_secret_once_witness:
  "take_all TakeSecret [''b'', ''a'', ''a''] (SetPendingSecret ''a'' \<lparr>pe_Secret = ''x'', pe_LineEnding = []\<rparr> mgr_sample) ! 1
     = Some \<lparr>pe_Secret = ''x'', pe_LineEnding = []\<rparr>
   \<and> take_all TakeSecret [''b'', ''a'', ''a''] (SetPendingSecret ''a'' \<lparr>pe_Secret = ''x'', pe_LineEnding = []\<rparr> mgr_sample) ! 2 = None"
  using staged_secret_once [of 1 "[''b'', ''a'', ''a'']" "''a''"] staged_secret_once [of 2 "[''b'', ''a'', ''a'']" "''a''"]
  by (simp del: take_all.simps add: take_Cons')

section \<open>The per-session locks\<close>

datatype phase = Idle | Waiting bytes | Holding bytes

text \<open>
  The handlers running concurrently, each in a phase: waiting in \<open>LockSession\<close>, between its return and
  the deferred \<open>UnlockSession\<close>, or neither. Whatever else a handler or the reaper does to the manager
  leaves the locks alone.
\<close>

inductive lock_step :: "manager \<times> (nat \<Rightarrow> phase) \<Rightarrow> manager \<times> (nat \<Rightarrow> phase) \<Rightarrow> bool" where
  Call: "ph p = Idle \<Longrightarrow> lock_step (m, ph) (m, ph(p := Waiting ID))"
| Acquire: "ph p = Waiting ID \<Longrightarrow> LockSession ctx pick ID m = Some (m', None) \<Longrightarrow>
    lock_step (m, ph) (m', ph(p := Holding ID))"
| GiveUp: "ph p = Waiting ID \<Longrightarrow> LockSession ctx pick ID m = Some (m', Some e) \<Longrightarrow>
    lock_step (m, ph) (m', ph(p := Idle))"
| Release: "ph p = Holding ID \<Longrightarrow> lock_step (m, ph) (UnlockSession ID m, ph(p := Idle))"
| Other: "m_sessionLocks m' = m_sessionLocks m \<Longrightarrow> lock_step (m, ph) (m', ph)"

inductive_cases lock_stepE: "lock_step (m, ph) (m', ph')"

definition lock_inv :: "manager \<Rightarrow> (nat \<Rightarrow> phase) \<Rightarrow> bool" where
  "lock_inv m ph \<longleftrightarrow> (\<forall>ID. (m_sessionLocks m ID = Some True) = (\<exists>p. ph p = Holding ID))
     \<and> (\<forall>ID p q. ph p = Holding ID \<longrightarrow> ph q = Holding ID \<longrightarrow> p = q)"

lemma LockSession_got:
  "LockSession ctx pick ID m = Some (m', None) \<Longrightarrow>
     m_sessionLocks m ID \<noteq> Some True \<and> m_sessionLocks m' = (m_sessionLocks m)(ID \<mapsto> True)"
  by (auto simp: LockSession_def sessionLockChan_def split: option.splits if_splits)

lemma LockSession_cancelled:
  "LockSession ctx pick ID m = Some (m', Some e) \<Longrightarrow>
     (m_sessionLocks m' J = Some True) = (m_sessionLocks m J = Some True)"
  by (auto simp: LockSession_def sessionLockChan_def split: option.splits if_splits)

lemma UnlockSession_frees:
  "(m_sessionLocks (UnlockSession ID m) J = Some True) = (J \<noteq> ID \<and> m_sessionLocks m J = Some True)"
  by (auto simp: UnlockSession_def sessionLockChan_def split: option.splits)

lemma lock_inv_step: "lock_step (m, ph) (m', ph') \<Longrightarrow> lock_inv m ph \<Longrightarrow> lock_inv m' ph'"
proof (erule lock_stepE)
  fix p ID assume "m' = m" "ph' = ph(p := Waiting ID)" "ph p = Idle" "lock_inv m ph"
  then show "lock_inv m' ph'" by (auto simp: lock_inv_def) (metis phase.distinct)+
next
  fix p ID ctx pick
  assume "ph' = ph(p := Holding ID)" "ph p = Waiting ID" "LockSession ctx pick ID m = Some (m', None)" "lock_inv m ph"
  then show "lock_inv m' ph'" using LockSession_got [of ctx pick ID m m']
    by (auto simp: lock_inv_def) (metis phase.distinct)+
next
  fix p ID ctx pick e
  assume "ph' = ph(p := Idle)" "ph p = Waiting ID" "LockSession ctx pick ID m = Some (m', Some e)" "lock_inv m ph"
  then show "lock_inv m' ph'" using LockSession_cancelled [of ctx pick ID m m' e]
    by (auto simp: lock_inv_def) (metis phase.distinct)+
next
  fix p ID assume "m' = UnlockSession ID m" "ph' = ph(p := Idle)" "ph p = Holding ID" "lock_inv m ph"
  then show "lock_inv m' ph'" using UnlockSession_frees [of ID m]
    by (auto simp: lock_inv_def) (metis phase.inject)+
next
  assume "ph' = ph" "m_sessionLocks m' = m_sessionLocks m" "lock_inv m ph"
  then show "lock_inv m' ph'" by (simp add: lock_inv_def)
qed

lemma lock_inv_reachable:
  "lock_step\<^sup>*\<^sup>* c c' \<Longrightarrow> lock_inv (fst c) (snd c) \<Longrightarrow> lock_inv (fst c') (snd c')"
  by (induction rule: rtranclp_induct) (use lock_inv_step in \<open>force+\<close>)

lemma lock_inv_start: "lock_inv (NewManager t) (\<lambda>_. Idle)"
  by (simp add: lock_inv_def NewManager_def)

text \<open>C16. Stateful calls on one session are serialized: in every interleaving of handlers that wait for,
  acquire, give up on and release session locks, at most one handler holds the lock of a session.\<close>

theorem lock_mutual_exclusion:
  assumes "lock_step\<^sup>*\<^sup>* (NewManager t, \<lambda>_. Idle) (m, ph)" and "ph p = Holding ID" and "ph q = Holding ID"
  shows "p = q"
  using lock_inv_reachable [OF assms(1)] lock_inv_start assms(2,3) by (auto simp: lock_inv_def)

lemma sample_run:
  "lock_step\<^sup>*\<^sup>* (NewManager 0, \<lambda>_. Idle)
     ((NewManager 0)\<lparr>m_sessionLocks := [''a'' \<mapsto> True]\<rparr>, (\<lambda>_. Idle)(1 := Holding ''a'', 2 := Waiting ''a''))"
proof -
  let ?m = "(NewManager 0)\<lparr>m_sessionLocks := [''a'' \<mapsto> True]\<rparr>"
  have 1: "lock_step (NewManager 0, \<lambda>_. Idle) (NewManager 0, (\<lambda>_. Idle)(1 := Waiting ''a''))"
    by (rule lock_step.Call) simp
  have "LockSession None True ''a'' (NewManager 0) = Some (?m, None)"
    by (simp add: LockSession_def sessionLockChan_def NewManager_def)
  from lock_step.Acquire [OF _ this, of "(\<lambda>_. Idle)(1 := Waiting ''a'')" 1]
  have 2: "lock_step (NewManager 0, (\<lambda>_. Idle)(1 := Waiting ''a'')) (?m, (\<lambda>_. Idle)(1 := Holding ''a''))" by simp
  have 3: "lock_step (?m, (\<lambda>_. Idle)(1 := Holding ''a'')) (?m, (\<lambda>_. Idle)(1 := Holding ''a'', 2 := Waiting ''a''))"
    by (rule lock_step.Call) simp
  from 1 2 3 show ?thesis by (meson converse_rtranclp_into_rtranclp rtranclp.rtrancl_refl)
qed

lemma lock_mutual_exclusion_witness:
  "{q. ((\<lambda>_. Idle)((1::nat) := Holding ''a'', 2 := Waiting ''a'')) q = Holding ''a''} = {1}"
proof -
  let ?ph = "(\<lambda>_. Idle)((1::nat) := Holding ''a'', 2 := Waiting ''a'')"
  have "?ph 1 = Holding ''a''" by simp
  then have "q = 1" if "?ph q = Holding ''a''" for q
    by (rule lock_mutual_exclusion [OF sample_run that])
  with \<open>?ph 1 = Holding ''a''\<close> show ?thesis by blast
qed

text \<open>No token is lost or leaked: in every reachable state a free session can be locked at once, whoever
  held it before and however many callers gave up; a held one makes the caller wait, and a waiting caller
  whose context is done gets its error and leaves the lock as it was.\<close>

theorem lock_available:
  assumes "lock_step\<^sup>*\<^sup>* (NewManager t, \<lambda>_. Idle) (m, ph)"
  shows "((\<exists>p. ph p = Holding ID) \<or> (\<exists>m'. LockSession None pick ID m = Some (m', None) \<and> m_sessionLocks m' ID = Some True))
    \<and> ((\<exists>p. ph p = Holding ID) = (LockSession None pick ID m = None))
    \<and> ((\<exists>p. ph p = Holding ID) = (LockSession (Some e) True ID m = Some (m, Some e)))"
proof -
  have i: "(m_sessionLocks m ID = Some True) = (\<exists>p. ph p = Holding ID)"
    using lock_inv_reachable [OF assms] lock_inv_start by (simp add: lock_inv_def)
  show ?thesis
    unfolding i [symmetric]
    by (cases "m_sessionLocks m ID") (auto simp: LockSession_def sessionLockChan_def)
qed

lemma lock_available_witness:
  "LockSession (Some Canceled) True ''a'' ((NewManager 0)\<lparr>m_sessionLocks := [''a'' \<mapsto> True]\<rparr>)
     = Some ((NewManager 0)\<lparr>m_sessionLocks := [''a'' \<mapsto> True]\<rparr>, Some Canceled)
   \<and> LockSession None True ''b'' ((NewManager 0)\<lparr>m_sessionLocks := [''a'' \<mapsto> True]\<rparr>) \<noteq> None"
proof -
  have a: "\<exists>p. ((\<lambda>_. Idle)((1::nat) := Holding ''a'', 2 := Waiting ''a'')) p = Holding ''a''" by (rule exI [of _ 1]) simp
  have b: "\<not> (\<exists>p. ((\<lambda>_. Idle)((1::nat) := Holding ''a'', 2 := Waiting ''a'')) p = Holding ''b'')" by simp
  show ?thesis
    using lock_available [OF sample_run, of "''a''" True Canceled] lock_available [OF sample_run, of "''b''" True Canceled] a b
    by (metis option.distinct(1))
qed

end
