(* ===== verification/Wait_For.thy ===== *)
theory Wait_For
  imports Sessions
begin

text \<open>
  \<open>waitForPattern\<close> of \<open>internal/mcp/tools.go\<close> with its result builders: wait until a line of
  the unread output matches a pattern. The terminal writes to the ring buffer while the loop runs, also
  between the three calls that read the new output, test for truncation and take the new cursor; a schedule
  of \<open>wake\<close>s says when. \<open>compile\<close> is \<open>regexp.Compile\<close> on the pattern the client
  sends: \<open>None\<close> when it does not parse, otherwise what the compiled expression matches.
\<close>

section \<open>Parameters and results\<close>

record WaitForParams =
  wp_WaitFor :: bytes
  wp_TimeoutSeconds :: int
  wp_ContextLines :: int
  wp_TailLines :: int

record WaitForResult =
  wr_Matched :: bool
  wr_TimedOut :: bool
  wr_MatchLine :: bytes
  wr_Context :: bytes
  wr_Error :: bytes
  wr_Tail :: bytes
  wr_Warning :: bytes
  wr_IsTruncated :: bool
  wr_IsAlive :: bool

definition clampInt :: "int \<Rightarrow> int \<Rightarrow> int \<Rightarrow> int" where
  "clampInt v lo hi = (if v < lo then lo else if v > hi then hi else v)"

definition tailFromCollected :: "bytes list \<Rightarrow> int \<Rightarrow> bytes" where
  "tailFromCollected collected n =
     (if n \<le> 0 \<or> collected = [] then []
      else let start = int (length collected) - n
           in Join (drop (nat (if start < 0 then 0 else start)) collected) [LF])"

definition buildMatchResult :: "bytes \<Rightarrow> bytes list \<Rightarrow> int \<Rightarrow> bytes \<Rightarrow> bool \<Rightarrow> bool \<Rightarrow> WaitForResult" where
  "buildMatchResult matchLine collected contextLines warning truncated alive =
     \<lparr>wr_Matched = True, wr_TimedOut = False, wr_MatchLine = matchLine,
      wr_Context =
        (if contextLines > 0
         then let idx = int (length collected) - 1;
                  start = (if idx - contextLines < 0 then 0 else idx - contextLines);
                  fin = (if idx + contextLines + 1 > int (length collected) then int (length collected)
                         else idx + contextLines + 1)
              in Join (take (nat (fin - start)) (drop (nat start) collected)) [LF]
         else []),
      wr_Error = [], wr_Tail = [], wr_Warning = warning, wr_IsTruncated = truncated, wr_IsAlive = alive\<rparr>"

definition buildTimeoutResult :: "bytes list \<Rightarrow> WaitForParams \<Rightarrow> bytes \<Rightarrow> bool \<Rightarrow> bool \<Rightarrow> WaitForResult" where
  "buildTimeoutResult collected params warning truncated alive =
     \<lparr>wr_Matched = False, wr_TimedOut = True, wr_MatchLine = [], wr_Context = [],
      wr_Error = ''timeout after '' @ dec (wp_TimeoutSeconds params) @ ''s'',
      wr_Tail = (if wp_TailLines params > 0 then tailFromCollected collected (wp_TailLines params) else []),
      wr_Warning = warning, wr_IsTruncated = truncated, wr_IsAlive = alive\<rparr>"

definition terminatedResult :: "bytes list \<Rightarrow> WaitForParams \<Rightarrow> bytes \<Rightarrow> bool \<Rightarrow> WaitForResult" where
  "terminatedResult collected params warning truncated =
     \<lparr>wr_Matched = False, wr_TimedOut = False, wr_MatchLine = [], wr_Context = [],
      wr_Error = ''session terminated'', wr_Tail = tailFromCollected collected (wp_TailLines params),
      wr_Warning = warning, wr_IsTruncated = truncated, wr_IsAlive = False\<rparr>"

section \<open>Matching a chunk of output\<close>

definition line_matches :: "(bytes \<Rightarrow> (bytes \<Rightarrow> bool) option) \<Rightarrow> bytes \<Rightarrow> bytes \<Rightarrow> bool" where
  "line_matches compile pat clean = (case compile pat of None \<Rightarrow> Contains clean pat | Some re \<Rightarrow> re clean)"

text \<open>The loop over complete lines; \<open>collected\<close> keeps the last \<open>maxCollected\<close> of them.\<close>

fun scan_lines :: "(bytes \<Rightarrow> bool) \<Rightarrow> int \<Rightarrow> bytes list \<Rightarrow> bytes list \<Rightarrow> bytes list \<times> bytes option" where
  "scan_lines M maxCollected collected [] = (collected, None)"
| "scan_lines M maxCollected collected (line # ls) =
     (let clean = StripANSI line;
          c = collected @ [clean];
          c = (if int (length c) > maxCollected then drop (length c - nat maxCollected) c else c)
      in if M clean then (c, Some clean) else scan_lines M maxCollected c ls)"

text \<open>Complete lines and the incomplete last one; a final newline leaves an empty line among the former.\<close>

definition cut_lines :: "bytes \<Rightarrow> bytes list \<times> bytes" where
  "cut_lines chunk =
     (let ls = Split LF chunk in if \<not> HasSuffix chunk [LF] then (butlast ls, last ls) else (ls, []))"

text \<open>Take in one chunk: a result, or the collected lines and the remainder to go on with.\<close>

definition consume ::
  "(bytes \<Rightarrow> bool) \<Rightarrow> int \<Rightarrow> int \<Rightarrow> bytes \<Rightarrow> bool \<Rightarrow> bool \<Rightarrow> bytes list \<Rightarrow> bytes
     \<Rightarrow> (bytes list \<times> bytes) + WaitForResult" where
  "consume M maxCollected contextLines warning truncated alive collected chunk =
     (case cut_lines chunk of (ls, remainder) \<Rightarrow>
        (case scan_lines M maxCollected collected ls of
           (c, Some clean) \<Rightarrow> Inr (buildMatchResult clean c contextLines warning truncated alive)
         | (c, None) \<Rightarrow>
             if remainder \<noteq> [] \<and> M (StripANSI remainder)
             then Inr (buildMatchResult (StripANSI remainder) (c @ [StripANSI remainder]) contextLines warning
                         truncated alive)
             else Inl (c, remainder)))"

section \<open>Waiting\<close>

text \<open>
  One turn of the loop: what the terminal writes before \<open>Wait\<close> returns, whether the context is then
  done and which ready case is taken, what is written between reading the chunk and testing for truncation
  and between that and taking the cursor, and whether the session is then alive.
\<close>

record wake =
  k_before :: "bytes list"
  k_done :: bool
  k_pick :: bool
  k_gap1 :: "bytes list"
  k_gap2 :: "bytes list"
  k_alive :: bool

datatype 'a run = Panics | StillWaiting | Returns 'a

text \<open>\<open>ReadSince\<close>, \<open>IsTruncated\<close>, \<open>Snapshot\<close>, with the writes that fall between them.\<close>

definition observe ::
  "ring_buffer \<Rightarrow> int \<Rightarrow> bytes list \<Rightarrow> bytes list \<Rightarrow> (bytes \<times> bool \<times> int \<times> ring_buffer) option" where
  "observe rb snapshot gap1 gap2 =
     do { chunk \<leftarrow> ReadSince rb snapshot;
          rb1 \<leftarrow> arrive rb gap1;
          rb2 \<leftarrow> arrive rb1 gap2;
          Some (chunk, IsTruncated rb1 snapshot, Snapshot rb2, rb2) }"

fun wait_loop ::
  "(bytes \<Rightarrow> bool) \<Rightarrow> int \<Rightarrow> WaitForParams \<Rightarrow> bytes \<Rightarrow> bool \<Rightarrow> bytes list \<Rightarrow> bytes \<Rightarrow> ring_buffer \<Rightarrow> int
     \<Rightarrow> wake list \<Rightarrow> (WaitForResult \<times> ring_buffer) run" where
  "wait_loop M maxCollected params warning truncated collected remainder rb snapshot [] = StillWaiting"
| "wait_loop M maxCollected params warning truncated collected remainder rb snapshot (k # ks) =
     (case arrive rb (k_before k) of
        None \<Rightarrow> Panics
      | Some rb \<Rightarrow>
          (case Wait rb (k_done k) (k_pick k) of
             None \<Rightarrow> wait_loop M maxCollected params warning truncated collected remainder rb snapshot ks
           | Some (False, rb) \<Rightarrow>
               if remainder \<noteq> [] \<and> M (StripANSI remainder)
               then Returns (buildMatchResult (StripANSI remainder) (collected @ [StripANSI remainder])
                               (wp_ContextLines params) warning truncated (k_alive k), rb)
               else Returns (buildTimeoutResult
                               (if remainder \<noteq> [] then collected @ [StripANSI remainder] else collected)
                               params warning truncated (k_alive k), rb)
           | Some (True, rb) \<Rightarrow>
               (case observe rb snapshot (k_gap1 k) (k_gap2 k) of
                  None \<Rightarrow> Panics
                | Some (chunk, trunc, snapshot, rb) \<Rightarrow>
                    let truncated = (truncated \<or> trunc) in
                    if chunk = []
                    then wait_loop M maxCollected params warning truncated collected remainder rb snapshot ks
                    else (case consume M maxCollected (wp_ContextLines params) warning truncated (k_alive k)
                                 collected (remainder @ chunk) of
                            Inr r \<Rightarrow> Returns (r, rb)
                          | Inl (c, rem) \<Rightarrow>
                              if \<not> k_alive k then Returns (terminatedResult c params warning truncated, rb)
                              else wait_loop M maxCollected params warning truncated c rem rb snapshot ks))))"

definition maxCollectedOf :: "WaitForParams \<Rightarrow> int" where
  "maxCollectedOf params =
     (let n = wp_ContextLines params + wp_TailLines params + 100 in if n < 200 then 200 else n)"

text \<open>\<open>gap1\<close>, \<open>gap2\<close> and \<open>alive\<close> are the gaps of the first look at the existing output.\<close>

definition waitForPattern ::
  "(bytes \<Rightarrow> (bytes \<Rightarrow> bool) option) \<Rightarrow> WaitForParams \<Rightarrow> ring_buffer \<Rightarrow> bytes list \<Rightarrow> bytes list \<Rightarrow> bool
     \<Rightarrow> wake list \<Rightarrow> (WaitForResult \<times> ring_buffer) run" where
  "waitForPattern compile params rb gap1 gap2 alive ks =
     (let M = line_matches compile (wp_WaitFor params);
          warning = (if compile (wp_WaitFor params) = None
                     then ''invalid regex, falling back to plain text match'' else []);
          maxCollected = maxCollectedOf params
      in case observe rb (MarkSnapshot rb) gap1 gap2 of
           None \<Rightarrow> Panics
         | Some (existing, truncated, snapshot, rb) \<Rightarrow>
             if existing = []
             then wait_loop M maxCollected params warning truncated [] [] rb snapshot ks
             else (case consume M maxCollected (wp_ContextLines params) warning truncated alive [] existing of
                     Inr r \<Rightarrow> Returns (r, rb)
                   | Inl (c, rem) \<Rightarrow>
                       wait_loop M maxCollected params warning truncated c rem rb snapshot ks))"

section \<open>Lines of a growing stream\<close>

lemma Split_append: "Split sep (s @ t) = butlast (Split sep s) @ Split sep (last (Split sep s) @ t)"
proof (induction s)
  case (Cons c s)
  show ?case
  proof (cases "c = sep")
    case True
    with Cons show ?thesis by (simp add: Split_nonempty)
  next
    case False
    obtain p ps where ps: "Split sep s = p # ps" by (cases "Split sep s") auto
    with Cons False show ?thesis by (cases ps) auto
  qed
qed simp

lemma last_Split_newline: "HasSuffix s [sep] \<Longrightarrow> last (Split sep s) = []"
  by (auto simp: HasSuffix_iff suffix_def Split_append_sep)

lemma scan_lines_None:
  "scan_lines M mx c ls = (c', None) \<Longrightarrow> list_all (\<lambda>l. \<not> M (StripANSI l)) ls"
  by (induction M mx c ls rule: scan_lines.induct) (auto simp: Let_def split: if_splits)

lemma scan_lines_Some:
  "scan_lines M mx c ls = (c', Some clean) \<Longrightarrow> \<exists>l \<in> set ls. clean = StripANSI l \<and> M clean"
  by (induction M mx c ls rule: scan_lines.induct) (auto simp: Let_def split: if_splits)

lemma cut_lines_pieces:
  "cut_lines s = (ls, rem) \<Longrightarrow> rem = last (Split LF s) \<and> set ls \<subseteq> set (Split LF s)
     \<and> set (butlast (Split LF s)) \<subseteq> set ls"
  by (auto simp: cut_lines_def Let_def last_Split_newline split: if_splits dest: in_set_butlastD)

text \<open>\<open>quiet M s\<close>: no complete line of \<open>s\<close> matches, and its incomplete last one does not either.\<close>

definition quiet :: "(bytes \<Rightarrow> bool) \<Rightarrow> bytes \<Rightarrow> bool" where
  "quiet M s \<longleftrightarrow> list_all (\<lambda>l. \<not> M (StripANSI l)) (butlast (Split LF s))
     \<and> (last (Split LF s) = [] \<or> \<not> M (StripANSI (last (Split LF s))))"

definition hit :: "(bytes \<Rightarrow> bool) \<Rightarrow> bytes \<Rightarrow> WaitForResult \<Rightarrow> bool" where
  "hit M s r \<longleftrightarrow> wr_Matched r \<and> \<not> wr_TimedOut r \<and> M (wr_MatchLine r)
     \<and> list_ex (\<lambda>l. wr_MatchLine r = StripANSI l) (Split LF s)"

lemma quiet_Nil [simp]: "quiet M []"
  by (simp add: quiet_def)

lemma wr_simps [simp]:
  "wr_Matched (buildMatchResult l c n w t a)" "wr_MatchLine (buildMatchResult l c n w t a) = l"
  "\<not> wr_Matched (buildTimeoutResult c p w t a)" "\<not> wr_Matched (terminatedResult c p w t)"
  "\<not> wr_TimedOut (buildMatchResult l c n w t a)" "wr_TimedOut (buildTimeoutResult c p w t a)"
  "\<not> wr_TimedOut (terminatedResult c p w t)"
  by (simp_all add: buildMatchResult_def buildTimeoutResult_def terminatedResult_def)

text \<open>A chunk taken in after a quiet stream: a hit in the stream as it then is, or it is still quiet.\<close>

lemma consume_stream:
  assumes "quiet M s"
  shows "case consume M mx n w t a c (last (Split LF s) @ chunk) of
      Inr r \<Rightarrow> hit M (s @ chunk) r
    | Inl (c', rem) \<Rightarrow> quiet M (s @ chunk) \<and> rem = last (Split LF (s @ chunk))"
proof -
  let ?u = "last (Split LF s) @ chunk"
  obtain ls rem where cut: "cut_lines ?u = (ls, rem)" by fastforce
  note pc = cut_lines_pieces [OF cut]
  have sp: "Split LF (s @ chunk) = butlast (Split LF s) @ Split LF ?u" by (rule Split_append)
  have lst: "last (Split LF (s @ chunk)) = rem" using pc by (simp add: sp)
  have sub: "set (Split LF ?u) \<subseteq> set (Split LF (s @ chunk))" by (simp add: sp)
  obtain c' res where sc: "scan_lines M mx c ls = (c', res)" by fastforce
  show ?thesis
  proof (cases res)
    case (Some clean)
    with scan_lines_Some [of M mx c ls c' clean] sc pc sub show ?thesis
      by (auto simp: consume_def cut hit_def list_ex_iff)
  next
    case None
    have "list_all (\<lambda>l. \<not> M (StripANSI l)) ls" using scan_lines_None sc None by blast
    then have all: "list_all (\<lambda>l. \<not> M (StripANSI l)) (butlast (Split LF (s @ chunk)))"
      using assms pc by (auto simp: sp butlast_append quiet_def list_all_iff)
    have "rem \<in> set (Split LF (s @ chunk))" using lst by (metis Split_nonempty last_in_set)
    with None sc all lst show ?thesis
      by (auto simp: consume_def cut hit_def quiet_def list_ex_iff)
  qed
qed

section \<open>The loop over the stream\<close>

definition no_gaps :: "wake \<Rightarrow> bool" where
  "no_gaps k \<longleftrightarrow> k_gap1 k = [] \<and> k_gap2 k = []"

definition written :: "wake list \<Rightarrow> bytes" where
  "written ks = concat (concat (map k_before ks))"

lemma written_simps [simp]: "written [] = []" "written (k # ks) = concat (k_before k) @ written ks"
  by (simp_all add: written_def)

lemma arrive_notifies: "arrive rb cs = Some rb' \<Longrightarrow> cs \<noteq> [] \<Longrightarrow> rb_notify rb'"
proof (induction cs arbitrary: rb)
  case (Cons c cs)
  then show ?case
    by (cases "cs = []") (auto simp: Write_def split: bind_splits)
qed simp

lemma holds_notify [wf_intros]: "holds h rb \<Longrightarrow> holds h (rb\<lparr>rb_notify := b\<rparr>)"
  by (simp add: holds_def rb_wf_def)

lemma Wait_cases:
  assumes "Wait rb d p = r"
  obtains (block) "r = None" "\<not> rb_notify rb" "\<not> d"
  | (stop) "r = Some (False, rb)" "d"
  | (go) "r = Some (True, rb\<lparr>rb_notify := False\<rparr>)"
  using assms by (auto simp: Wait_def split: if_splits)

lemma observe_holds:
  assumes "holds h rb"
  obtains chunk t rb' where "observe rb snap g1 g2 = Some (chunk, t, Snapshot rb', rb')"
    "ReadSince rb snap = Some chunk" "holds (h @ concat g1 @ concat g2) rb'" "rb_size rb' = rb_size rb"
    "rb_mark rb' = rb_mark rb"
proof -
  obtain rb1 where 1: "arrive rb g1 = Some rb1" "holds (h @ concat g1) rb1" "rb_size rb1 = rb_size rb" "rb_mark rb1 = rb_mark rb"
    using arrive_holds [OF assms] by blast
  obtain rb2 where 2: "arrive rb1 g2 = Some rb2" "holds ((h @ concat g1) @ concat g2) rb2" "rb_size rb2 = rb_size rb1"
      "rb_mark rb2 = rb_mark rb1"
    using arrive_holds [OF 1(2)] by blast
  show thesis
    by (rule that [of _ _ rb2]) (use 1 2 ReadSince_holds [OF assms] in \<open>auto simp: observe_def\<close>)
qed

lemma ReadSince_new:
  assumes "holds (h @ b) rb" and "int (length b) \<le> rb_size rb"
  shows "ReadSince rb (int (length h)) = Some b"
proof -
  have "rb_clamp rb (int (length h)) = int (length h)"
    using assms holds_written [OF assms(1)] by (intro rb_clamp_id) (auto simp: rb_oldest_def)
  then show ?thesis using ReadSince_holds [OF assms(1)] by simp
qed

definition outcome :: "(bytes \<Rightarrow> bool) \<Rightarrow> bytes \<Rightarrow> WaitForResult \<Rightarrow> bool" where
  "outcome M s r \<longleftrightarrow> (if wr_Matched r then hit M s r else quiet M s)"

text \<open>
  What an answer rests on: the first \<open>n\<close> turns' output was looked at; on a timeout everything but what
  arrived in the last turn, the one that found the context done, otherwise all there is.
\<close>

definition examined ::
  "(bytes \<Rightarrow> bool) \<Rightarrow> bytes \<Rightarrow> bytes \<Rightarrow> wake list \<Rightarrow> nat \<Rightarrow> WaitForResult \<Rightarrow> ring_buffer \<Rightarrow> bool" where
  "examined M pre s ks n r rb \<longleftrightarrow> outcome M (s @ written (take n ks)) r
     \<and> holds (pre @ s @ written (take (if wr_TimedOut r then Suc n else n) ks)) rb
     \<and> (wr_TimedOut r \<longrightarrow> n < length ks \<and> k_done (ks ! n))"

lemma examined_Cons:
  "examined M pre (s @ concat (k_before k)) ks n r rb \<Longrightarrow> examined M pre s (k # ks) (Suc n) r rb"
  by (auto simp: examined_def)

lemma wait_loop_stream:
  "wait_loop M mx params w tr c rm rb snap ks = Returns (r, rb') \<Longrightarrow>
   holds (pre @ s) rb \<Longrightarrow> snap = int (length (pre @ s)) \<Longrightarrow> rm = last (Split LF s) \<Longrightarrow> quiet M s \<Longrightarrow>
   list_all no_gaps ks \<Longrightarrow> list_all (\<lambda>k. int (length (concat (k_before k))) \<le> rb_size rb) ks \<Longrightarrow>
   \<exists>n. examined M pre s ks n r rb'"
proof (induction ks arbitrary: tr c rm rb snap s)
  case (Cons k ks)
  let ?b = "concat (k_before k)"
  obtain rb1 where a: "arrive rb (k_before k) = Some rb1" "holds ((pre @ s) @ ?b) rb1" "rb_size rb1 = rb_size rb"
    using arrive_holds [OF Cons.prems(2)] by blast
  have step: ?case if ex: "\<exists>n. examined M pre (s @ ?b) ks n r rb'"
    using ex examined_Cons by blast
  have now: ?case if "outcome M (s @ ?b) r" "\<not> wr_TimedOut r" "holds (pre @ (s @ ?b)) rb'"
    using that by (intro exI [of _ 1]) (simp add: examined_def)
  obtain wt where wt: "Wait rb1 (k_done k) (k_pick k) = wt" by blast
  from wt show ?case
  proof (cases rule: Wait_cases)
    case block
    then have "k_before k = []" using arrive_notifies [OF a(1)] by blast
    with Cons.prems a block wt show ?thesis
      by (intro step Cons.IH [of tr c rm rb1 snap]) auto
  next
    case stop
    with Cons.prems a wt have "\<not> wr_Matched r" "wr_TimedOut r" "rb' = rb1"
      by (auto simp: quiet_def split: if_splits)
    with Cons.prems(5) a(2) stop show ?thesis by (intro exI [of _ 0]) (simp add: outcome_def examined_def)
  next
    case go
    let ?rb = "rb1\<lparr>rb_notify := False\<rparr>"
    have h: "holds ((pre @ s) @ ?b) ?rb" using a(2) by (rule holds_notify)
    obtain chunk t rb2 where o: "observe ?rb snap (k_gap1 k) (k_gap2 k) = Some (chunk, t, Snapshot rb2, rb2)"
        "ReadSince ?rb snap = Some chunk" "holds (((pre @ s) @ ?b) @ concat (k_gap1 k) @ concat (k_gap2 k)) rb2"
        "rb_size rb2 = rb_size ?rb"
      by (rule observe_holds [OF h, of snap "k_gap1 k" "k_gap2 k"])
    have g: "k_gap1 k = []" "k_gap2 k = []" using Cons.prems(6) by (simp_all add: no_gaps_def)
    have chunk: "chunk = ?b"
      using ReadSince_new [OF h] o(2) Cons.prems(3,7) a(3) by simp
    have h2: "holds (pre @ (s @ ?b)) rb2" "Snapshot rb2 = int (length (pre @ (s @ ?b)))" "rb_size rb2 = rb_size rb"
      using o(3,4) a(3) holds_written [OF o(3)] by (simp_all add: g Snapshot_def)
    have more: ?thesis if "wait_loop M mx params w tr' c' rm' rb2 (Snapshot rb2) ks = Returns (r, rb')"
        "quiet M (s @ ?b)" "rm' = last (Split LF (s @ ?b))" for tr' c' rm'
      using Cons.prems(6,7) that h2 by (intro step Cons.IH [of tr' c' rm' rb2 "Snapshot rb2" "s @ ?b"]) auto
    show ?thesis
    proof (cases "?b = []")
      case True
      then have s': "s @ ?b = s" by (simp only: append_Nil2)
      have "quiet M (s @ ?b)" "rm = last (Split LF (s @ ?b))"
        unfolding s' using Cons.prems(4,5) by simp_all
      moreover have "wait_loop M mx params w (tr \<or> t) c rm rb2 (Snapshot rb2) ks = Returns (r, rb')"
        using Cons.prems(1) a(1) wt go o(1) chunk True by simp
      ultimately show ?thesis by (intro more [of "tr \<or> t" c rm])
    next
      case False
      note st = consume_stream [OF Cons.prems(5), of ?b mx "wp_ContextLines params" w "tr \<or> t" "k_alive k" c]
      from Cons.prems(1) a(1) wt go o(1) chunk False have run:
        "(case consume M mx (wp_ContextLines params) w (tr \<or> t) (k_alive k) c (rm @ ?b) of
            Inr r \<Rightarrow> Returns (r, rb2)
          | Inl (c, rem) \<Rightarrow> if \<not> k_alive k then Returns (terminatedResult c params w (tr \<or> t), rb2)
              else wait_loop M mx params w (tr \<or> t) c rem rb2 (Snapshot rb2) ks) = Returns (r, rb')"
        by (simp add: Let_def del: concat_eq_Nil_conv)
      show ?thesis
      proof (cases "consume M mx (wp_ContextLines params) w (tr \<or> t) (k_alive k) c (rm @ ?b)")
        case (Inr r1)
        with run st Cons.prems(4) h2(1) show ?thesis by (intro now) (auto simp: hit_def outcome_def)
      next
        case (Inl p)
        obtain c' rem where p: "p = (c', rem)" by fastforce
        have q: "quiet M (s @ ?b)" "rem = last (Split LF (s @ ?b))"
          using st Inl p Cons.prems(4) by simp_all
        show ?thesis
        proof (cases "k_alive k")
          case True
          with run Inl p q show ?thesis by (intro more [of "tr \<or> t" c' rem]) auto
        next
          case False
          with run Inl p q h2(1) show ?thesis by (intro now) (auto simp: outcome_def)
        qed
      qed
    qed
  qed
qed simp

lemma wait_loop_returns:
  "holds h rb \<Longrightarrow> list_ex (\<lambda>k. k_done k \<and> \<not> k_pick k) ks \<Longrightarrow>
     \<exists>r rb'. wait_loop M mx params w tr c rm rb snap ks = Returns (r, rb') \<and> rb_mark rb' = rb_mark rb"
proof (induction ks arbitrary: h rb tr c rm snap)
  case (Cons k ks)
  obtain rb1 where a: "arrive rb (k_before k) = Some rb1" "holds (h @ concat (k_before k)) rb1" "rb_mark rb1 = rb_mark rb"
    using arrive_holds [OF Cons.prems(1)] by blast
  obtain wt where wt: "Wait rb1 (k_done k) (k_pick k) = wt" by blast
  from wt show ?case
  proof (cases rule: Wait_cases)
    case block
    with Cons.prems(2) have "list_ex (\<lambda>k. k_done k \<and> \<not> k_pick k) ks" by simp
    from Cons.IH [OF a(2) this, of tr c rm snap] a wt block show ?thesis by simp
  next
    case stop
    with a wt show ?thesis by auto
  next
    case go
    then have later: "list_ex (\<lambda>k. k_done k \<and> \<not> k_pick k) ks"
      using Cons.prems(2) wt by (auto simp: Wait_def split: if_splits)
    have h: "holds (h @ concat (k_before k)) (rb1\<lparr>rb_notify := False\<rparr>)" using a(2) by (rule holds_notify)
    obtain chunk t rb2 where o: "observe (rb1\<lparr>rb_notify := False\<rparr>) snap (k_gap1 k) (k_gap2 k) = Some (chunk, t, Snapshot rb2, rb2)"
        "holds ((h @ concat (k_before k)) @ concat (k_gap1 k) @ concat (k_gap2 k)) rb2" "rb_mark rb2 = rb_mark (rb1\<lparr>rb_notify := False\<rparr>)"
      by (rule observe_holds [OF h, of snap "k_gap1 k" "k_gap2 k"])
    have ih: "\<exists>r rb'. wait_loop M mx params w tr' c' rm' rb2 (Snapshot rb2) ks = Returns (r, rb') \<and> rb_mark rb' = rb_mark rb"
      for tr' c' rm'
      using Cons.IH [OF o(2) later, of tr' c' rm' "Snapshot rb2"] o(3) a(3) by simp
    show ?thesis
    proof (cases "chunk = []")
      case True
      with ih a wt go o(1) show ?thesis by simp
    next
      case False
      show ?thesis
      proof (cases "consume M mx (wp_ContextLines params) w (tr \<or> t) (k_alive k) c (rm @ chunk)")
        case (Inl p)
        obtain c' rem where "p = (c', rem)" by fastforce
        with Inl False ih a wt go o show ?thesis by (cases "k_alive k") simp_all
      qed (use False a wt go o in simp)
    qed
  qed
qed simp

section \<open>Properties of \<open>waitForPattern\<close>\<close>


definition contains_only :: "bytes \<Rightarrow> (bytes \<Rightarrow> bool) option" where
  "contains_only p = Some (\<lambda>s. Contains s p)"

definition wait_sample :: WaitForParams where
  "wait_sample = \<lparr>wp_WaitFor = ''ok'', wp_TimeoutSeconds = 5, wp_ContextLines = 0, wp_TailLines = 0\<rparr>"

definition wakes_sample :: "wake list" where
  "wakes_sample = [\<lparr>k_before = [''o'', ''k''], k_done = False, k_pick = False, k_gap1 = [], k_gap2 = [], k_alive = True\<rparr>,
     \<lparr>k_before = [], k_done = True, k_pick = False, k_gap1 = [], k_gap2 = [], k_alive = True\<rparr>]"


text \<open>C28. Waiting always ends: once the context is done and the loop takes notice, an answer is returned, whatever
  is written when, without a panic, and the session's read mark is where it was.\<close>

theorem waitForPattern_returns:
  assumes "holds h rb" and "list_ex (\<lambda>k. k_done k \<and> \<not> k_pick k) ks"
  shows "\<exists>r rb'. waitForPattern compile params rb gap1 gap2 alive ks = Returns (r, rb') \<and> rb_mark rb' = rb_mark rb"
proof -
  obtain chunk t rb1 where o: "observe rb (MarkSnapshot rb) gap1 gap2 = Some (chunk, t, Snapshot rb1, rb1)"
      "holds (h @ concat gap1 @ concat gap2) rb1" "rb_mark rb1 = rb_mark rb"
    by (rule observe_holds [OF assms(1), of "MarkSnapshot rb" gap1 gap2])
  note ret = wait_loop_returns [OF o(2) assms(2)]
  let ?M = "line_matches compile (wp_WaitFor params)"
  let ?w = "if compile (wp_WaitFor params) = None then ''invalid regex, falling back to plain text match'' else []"
  show ?thesis
  proof (cases "chunk = []")
    case True
    with o ret show ?thesis by (simp add: waitForPattern_def Let_def)
  next
    case False
    show ?thesis
    proof (cases "consume ?M (maxCollectedOf params) (wp_ContextLines params) ?w t alive [] chunk")
      case (Inl p)
      with o ret False show ?thesis by (cases p) (simp add: waitForPattern_def Let_def)
    next
      case (Inr r)
      with o False show ?thesis by (simp add: waitForPattern_def Let_def)
    qed
  qed
qed

lemma waitForPattern_returns_witness:
  "\<exists>r rb'. waitForPattern (\<lambda>_. None) wait_sample rb_sample [''x''] [''y''] True wakes_sample = Returns (r, rb')
     \<and> rb_mark rb' = 9"
proof -
  have "list_ex (\<lambda>k. k_done k \<and> \<not> k_pick k) wakes_sample" "rb_mark rb_sample = 9"
    by (simp_all add: wakes_sample_def rb_sample_def)
  with waitForPattern_returns [OF holds_sample this(1)] show ?thesis by metis
qed

text \<open>Output that arrives in the gap is never matched: when the terminal writes \<open>p\<close> after the existing
  output was read but before the cursor is taken, the cursor moves past \<open>p\<close> and the wait times out with an
  empty tail, whatever the pattern, even one that matches \<open>p\<close>, although \<open>p\<close> is there to be read.\<close>

theorem waitForPattern_misses_gap:
  assumes "holds h rb" and "MarkSnapshot rb = int (length h)" and "int (length p) \<le> rb_size rb"
    and "ks = [\<lparr>k_before = [], k_done = False, k_pick = False, k_gap1 = [], k_gap2 = [], k_alive = True\<rparr>,
               \<lparr>k_before = [], k_done = True, k_pick = False, k_gap1 = [], k_gap2 = [], k_alive = True\<rparr>]"
  shows "\<exists>r rb'. waitForPattern compile params rb [] [p] True ks = Returns (r, rb')
    \<and> \<not> wr_Matched r \<and> wr_TimedOut r \<and> wr_Tail r = [] \<and> Since rb' = Some p"
proof -
  have r0: "ReadSince rb (int (length h)) = Some []" using ReadSince_new [of h "[]" rb] assms(1) holds_wf [OF assms(1)]
    by (simp add: rb_wf_def)
  obtain chunk t rb1 where o: "observe rb (MarkSnapshot rb) [] [p] = Some (chunk, t, Snapshot rb1, rb1)"
      "ReadSince rb (MarkSnapshot rb) = Some chunk" "holds (h @ concat [] @ concat [p]) rb1"
      "rb_size rb1 = rb_size rb" "rb_mark rb1 = rb_mark rb"
    by (rule observe_holds [OF assms(1), of "MarkSnapshot rb" "[]" "[p]"])
  have h1: "holds (h @ p) rb1" "Snapshot rb1 = int (length (h @ p))"
    using o(3) holds_written [OF o(3)] by (simp_all add: Snapshot_def)
  have n: "rb_notify rb1"
    using o(1) arrive_notifies [of rb "[p]"] by (auto simp: observe_def split: bind_splits)
  let ?rb = "rb1\<lparr>rb_notify := False\<rparr>"
  have "holds ((h @ p) @ []) ?rb" using holds_notify [OF h1(1)] by simp
  from ReadSince_new [OF this] have r1: "ReadSince ?rb (Snapshot rb1) = Some []"
    using h1 holds_wf [OF h1(1)] by (simp add: rb_wf_def)
  have s: "Since ?rb = Some p"
    using ReadSince_new [OF holds_notify [OF h1(1)]] assms(2,3) o(4,5) by (simp add: Since_def MarkSnapshot_def)
  have "waitForPattern compile params rb [] [p] True ks
      = Returns (buildTimeoutResult [] params (if compile (wp_WaitFor params) = None
          then ''invalid regex, falling back to plain text match'' else []) (t \<or> IsTruncated ?rb (Snapshot rb1)) True, ?rb)"
    using o r0 assms(2) n r1
    by (simp add: waitForPattern_def Let_def assms(4) Wait_def observe_def [of ?rb] Snapshot_def)
  with s show ?thesis by (simp add: buildTimeoutResult_def tailFromCollected_def)
qed

lemma waitForPattern_misses_gap_witness:
  "\<exists>r rb'. waitForPattern contains_only wait_sample (rb_sample\<lparr>rb_mark := 11\<rparr>) [] [''ok'' @ [LF]] True
       [\<lparr>k_before = [], k_done = False, k_pick = False, k_gap1 = [], k_gap2 = [], k_alive = True\<rparr>,
        \<lparr>k_before = [], k_done = True, k_pick = False, k_gap1 = [], k_gap2 = [], k_alive = True\<rparr>] = Returns (r, rb')
     \<and> wr_TimedOut r \<and> Since rb' = Some (''ok'' @ [LF])"
proof -
  have h: "holds ''XXXXXXabcde'' (rb_sample\<lparr>rb_mark := 11\<rparr>)" by code_simp
  have m: "MarkSnapshot (rb_sample\<lparr>rb_mark := 11\<rparr>) = int (length ''XXXXXXabcde'')"
    "int (length (''ok'' @ [LF])) \<le> rb_size (rb_sample\<lparr>rb_mark := 11\<rparr>)"
    by (simp_all add: MarkSnapshot_def rb_sample_def)
  from waitForPattern_misses_gap [OF h m refl, of contains_only wait_sample] show ?thesis by blast
qed

end
