(* ===== verification/Classifier.thy ===== *)
theory Classifier
  imports Regex
begin

text \<open>
  \<open>internal/session/classifier.go\<close>: guess from the last output whether a session waits for a
  password, a confirmation, a pager key or a command.
\<close>

datatype state = At_prompt | Password_prompt | Confirmation | Pager | Running | Unknown

record ClassifyResult =
  cl_State :: state
  cl_AwaitingSecret :: bool
  cl_LastPrompt :: bytes

section \<open>The expressions\<close>

definition reANSI :: rx where
  "reANSI = ralt [
     rseq [rchar (CHR 0x1B), rchar (CHR ''[''), RStar (RCls (\<lambda>r. (48 \<le> r \<and> r \<le> 57) \<or> r = 59)),
           RCls (\<lambda>r. (97 \<le> r \<and> r \<le> 122) \<or> (65 \<le> r \<and> r \<le> 90))],
     rseq [rchar (CHR 0x1B), roneof ''()'', RCls (\<lambda>r. (48 \<le> r \<and> r \<le> 57) \<or> (65 \<le> r \<and> r \<le> 90))],
     rchar (CHR 0x0D)]"

definition rePasswordPrompt :: rx where
  "rePasswordPrompt = rseq [
     ralt [rliti ''password'', rliti ''passphrase''],
     ropt (rseq [rplus rspace, rliti ''for'', rplus rspace, rplus rnspace]),
     RStar rspace, rchar (CHR '':''), RStar (rchar (CHR '' '')), REot]"

definition reSudoPrompt :: rx where
  "reSudoPrompt = rseq [rchar (CHR ''[''), rliti ''sudo'', rchar (CHR '']''), rplus rspace, rliti ''password'']"

definition reSSHHostKey :: rx where
  "reSSHHostKey = rliti ''Are you sure you want to continue connecting''"

definition reConfirmation :: rx where
  "reConfirmation = ralt [
     rseq [rchar (CHR ''(''), rliti ''yes/no'', RStar (rnot [41]), rchar (CHR '')'')],
     rliti ''(y/n)'',
     rseq [rliti ''shutdown'', RStar rspace, rliti ''(s/s''],
     rliti ''are you sure'',
     rliti ''continue connecting'']"

definition rePager :: rx where
  "rePager = ralt [
     rseq [RBol, rlit ''(END)'', RStar rspace, REol],
     RSeq RBol (rlit ''--More--''),
     rseq [rlit ''lines '', rplus rdigit, rchar (CHR ''-''), rplus rdigit, rchar (CHR ''/''), rplus rdigit]]"

definition reShellPrompt :: rx where
  "reShellPrompt = rseq [roneof ''$#>%'', RStar rspace, REot]"

definition reMenuSelect :: rx where
  "reMenuSelect = rseq [
     ralt [rseq [rliti ''select'', rplus rspace, rplus rwordi, RStar rany, rchar (CHR '':'')],
           rseq [rliti ''enter'', rplus rspace, rplus rwordi, RStar rany, rchar (CHR '':'')],
           rseq [rchar (CHR ''[''), rdigit, RStar (rnot [93]), rchar (CHR '']''), rchar (CHR '':'')]],
     RStar rspace, REot]"

section \<open>Classification\<close>

definition last_nonempty :: "bytes list \<Rightarrow> bytes" where
  "last_nonempty ls = (case find (\<lambda>l. TrimSpace l \<noteq> []) (rev ls) of None \<Rightarrow> [] | Some l \<Rightarrow> TrimSpace l)"

definition ClassifyOutput :: "bytes \<Rightarrow> ClassifyResult" where
  "ClassifyOutput raw =
     (let output = ReplaceAllString reANSI raw (\<lambda>_. []);
          output = (if length output > 2048 then drop (length output - 2048) output else output);
          ls = Split (CHR 0x0A) (TrimRight output [CHR 0x0A]);
          lastLine = last_nonempty ls
      in if MatchString reSudoPrompt output \<or> MatchString rePasswordPrompt lastLine
           then \<lparr>cl_State = Password_prompt, cl_AwaitingSecret = True, cl_LastPrompt = lastLine\<rparr>
         else if MatchString reSSHHostKey output \<or> MatchString reConfirmation lastLine
           then \<lparr>cl_State = Confirmation, cl_AwaitingSecret = False, cl_LastPrompt = lastLine\<rparr>
         else if MatchString rePager output
           then \<lparr>cl_State = Pager, cl_AwaitingSecret = False, cl_LastPrompt = lastLine\<rparr>
         else if MatchString reShellPrompt lastLine \<or> MatchString reMenuSelect lastLine
           then \<lparr>cl_State = At_prompt, cl_AwaitingSecret = False, cl_LastPrompt = lastLine\<rparr>
         else if lastLine \<noteq> []
           then \<lparr>cl_State = Running, cl_AwaitingSecret = False, cl_LastPrompt = lastLine\<rparr>
         else \<lparr>cl_State = Unknown, cl_AwaitingSecret = False, cl_LastPrompt = []\<rparr>)"

section \<open>Plain text\<close>

lemma reANSI_start: "fst c \<noteq> 0x1B \<Longrightarrow> fst c \<noteq> 0x0D \<Longrightarrow> rxm reANSI (Pos p (c # ds) g) = []"
  by (simp add: reANSI_def rchar_def roneof_def)

lemma plain_text_kept:
  assumes "ascii s" and "CHR 0x1B \<notin> set s" and "CHR 0x0D \<notin> set s"
  shows "ReplaceAllString reANSI s (\<lambda>_. []) = s"
proof -
  have "list_all (\<lambda>c. fst c \<noteq> 0x1B \<and> fst c \<noteq> 0x0D) (runes s)"
    using assms inj_code [of _ "CHR 0x1B"] inj_code [of _ "CHR 0x0D"]
    by (auto simp: runes_ascii list_all_iff)
  then have "list_all (\<lambda>c. \<forall>p ds. rxm reANSI (Pos p (c # ds) None) = []) (runes s)"
    by (auto simp: list_all_iff reANSI_start)
  from replace_from_skip [OF this, of "\<lambda>_. []" None "[]"]
  show ?thesis by (auto simp: ReplaceAllString_def)
qed

text \<open>An expression that matches at some position matches the string.\<close>

lemma match_from_append:
  assumes hit: "\<And>p. rxm r (Pos p (v @ w) None) \<noteq> []"
  shows "match_from r q (u @ v @ w)"
proof (induction u arbitrary: q)
  case Nil
  show ?case
  proof (cases "v @ w")
    case Nil
    with hit [of q] show ?thesis by simp
  next
    case (Cons c cs)
    with hit [of q] show ?thesis by simp
  qed
qed simp

lemma sudo_prompt_anywhere:
  assumes "ascii u"
  shows "MatchString reSudoPrompt (u @ ''[sudo] password'' @ t)"
proof -
  have "rxm reSudoPrompt (Pos p (map (\<lambda>c. (code c, [c])) ''[sudo] password'' @ runes t) None) \<noteq> []" for p
    by (simp add: reSudoPrompt_def rchar_def rliti_def rchari_def fold_eq_def rplus_def rspace_def is_space_class_def
        shorter_def)
  moreover have "ascii ''[sudo] password''" by simp
  ultimately show ?thesis
    unfolding MatchString_def using assms
    by (simp only: runes_ascii_append append_assoc) (rule match_from_append)
qed

section \<open>Properties\<close>

text \<open>An old sudo prompt is taken for the current one: whenever \<open>[sudo] password\<close> occurs
  anywhere in the last 2 KB, the session is classified as waiting for a password, whatever has been printed
  since, even when the last line is an ordinary shell prompt.\<close>

theorem sudo_scrollback_is_password_prompt:
  assumes "ascii (u @ t)" and "CHR 0x1B \<notin> set (u @ t)" and "CHR 0x0D \<notin> set (u @ t)"
    and "length (u @ ''[sudo] password'' @ t) \<le> 2048"
  shows "cl_State (ClassifyOutput (u @ ''[sudo] password'' @ t)) = Password_prompt
    \<and> cl_AwaitingSecret (ClassifyOutput (u @ ''[sudo] password'' @ t))"
proof -
  have "ascii (u @ ''[sudo] password'' @ t)" "ascii u"
    using assms(1) by (auto simp: ascii_def)
  then have "ReplaceAllString reANSI (u @ ''[sudo] password'' @ t) (\<lambda>_. []) = u @ ''[sudo] password'' @ t"
    using assms(2,3) by (intro plain_text_kept) auto
  with sudo_prompt_anywhere [OF \<open>ascii u\<close>, of t] assms(4) show ?thesis
    by (simp add: ClassifyOutput_def Let_def)
qed

definition sudo_done :: bytes where
  "sudo_done = '' for bob: '' @ [CHR 0x0A] @ ''root'' @ [CHR 0x0A] @ ''bob@host:~$ ''"

definition sudo_run :: bytes where
  "sudo_run = ''$ sudo whoami'' @ [CHR 0x0A]"

lemma sudo_scrollback_is_password_prompt_witness:
  "cl_State (ClassifyOutput (sudo_run @ ''[sudo] password'' @ sudo_done)) = Password_prompt"
proof -
  have "ascii (sudo_run @ sudo_done)" "CHR 0x1B \<notin> set (sudo_run @ sudo_done)" "CHR 0x0D \<notin> set (sudo_run @ sudo_done)"
    "length (sudo_run @ ''[sudo] password'' @ sudo_done) \<le> 2048"
    by (simp_all add: sudo_run_def sudo_done_def)
  from sudo_scrollback_is_password_prompt [OF this] show ?thesis by blast
qed

text \<open>A secret is awaited only at a password prompt, and the classes are told apart by priority: the state is
  \<open>password_prompt\<close> exactly when a secret is awaited; a last line that ends as a shell prompt is never
  reported as \<open>running\<close> or \<open>unknown\<close>; and \<open>unknown\<close> means there is no text at all.\<close>

theorem classification_consistent:
  "(cl_State (ClassifyOutput raw) = Password_prompt) = cl_AwaitingSecret (ClassifyOutput raw)
   \<and> \<not> (MatchString reShellPrompt (cl_LastPrompt (ClassifyOutput raw))
        \<and> cl_State (ClassifyOutput raw) \<in> {Running, Unknown})
   \<and> \<not> (cl_State (ClassifyOutput raw) = Running \<and> cl_LastPrompt (ClassifyOutput raw) = [])"
proof -
  have empty: "\<not> MatchString reShellPrompt []" by code_simp
  obtain P C G N l where c: "ClassifyOutput raw =
      (if P then \<lparr>cl_State = Password_prompt, cl_AwaitingSecret = True, cl_LastPrompt = l\<rparr>
       else if C then \<lparr>cl_State = Confirmation, cl_AwaitingSecret = False, cl_LastPrompt = l\<rparr>
       else if G then \<lparr>cl_State = Pager, cl_AwaitingSecret = False, cl_LastPrompt = l\<rparr>
       else if MatchString reShellPrompt l \<or> N
         then \<lparr>cl_State = At_prompt, cl_AwaitingSecret = False, cl_LastPrompt = l\<rparr>
       else if l \<noteq> [] then \<lparr>cl_State = Running, cl_AwaitingSecret = False, cl_LastPrompt = l\<rparr>
       else \<lparr>cl_State = Unknown, cl_AwaitingSecret = False, cl_LastPrompt = []\<rparr>)"
    unfolding ClassifyOutput_def Let_def by blast
  show ?thesis unfolding c using empty by auto
qed

end
