(* ===== verification/Handlers.thy ===== *)
theory Handlers
  imports Session_Manager Wait_For Classifier Audit_Log
begin

text \<open>
  The tool handlers of \<open>internal/mcp/tools.go\<close>, on decoded parameters (\<open>UnmarshalMcpArgs\<close>
  rests on a third-party package). \<open>world\<close> is what they share: the manager, the session objects its
  references name, the far ends of remote sessions, and the audit client with what it has posted itself. \<open>env\<close> is what the environment contributes to
  one call: what other calls do while this one is queued for the session's lock, whether its context is done
  at each point the code asks, the answers of terminals, clock, operator and audit server, and the order in which Go lists a map.
  A goroutine that reports to the audit client runs when the call that starts it ends. A float number of
  seconds is a whole number of milliseconds.
\<close>

section \<open>World and environment\<close>

record 'w world =
  wd_mgr :: manager
  wd_heap :: heap
  wd_net :: 'w
  wd_audit :: "audit_client option"
  wd_posted :: "json list"

text \<open>
  One report to the audit log: the identifiers and times written into the entries, how the collector answers
  each attempt, and what other senders and the worker do between the selects of \<open>enqueue\<close>.
\<close>

record audit_io =
  au_cmdID :: bytes
  au_eventID :: bytes
  au_cmdTS :: bytes
  au_outTS :: bytes
  au_post :: "nat \<Rightarrow> post_outcome"
  au_mid :: "nat \<Rightarrow> audit_client \<Rightarrow> audit_client"

record 'w env =
  ev_rpc :: "'w rpc"
  ev_now :: int
  ev_queue :: "'w world \<Rightarrow> 'w world"
  ev_lockErr :: "go_error option"
  ev_pick :: bool
  ev_ctxErr :: "go_error option"
  ev_io :: sess_io
  ev_audit :: audit_io
  ev_compile :: "bytes \<Rightarrow> (bytes \<Rightarrow> bool) option"
  ev_ticks :: "bool list"
  ev_gap1 :: "bytes list"
  ev_gap2 :: "bytes list"
  ev_alive :: bool
  ev_wakes :: "wake list"
  ev_secret :: "bytes \<Rightarrow> bytes result"
  ev_keys :: "bytes list"
  ev_order :: "bytes list"
  ev_settle :: "int \<times> turn list"

definition set_mgr :: "'w world \<Rightarrow> manager \<Rightarrow> 'w world" where
  "set_mgr w m = w\<lparr>wd_mgr := m\<rparr>"

definition set_obj :: "'w world \<Rightarrow> ref \<Rightarrow> session \<Rightarrow> 'w \<Rightarrow> 'w world" where
  "set_obj w s obj net = w\<lparr>wd_heap := (wd_heap w)(s := obj), wd_net := net\<rparr>"

type_synonym ('w, 'a) outcome_of = "('w world \<times> 'a result) run"

section \<open>Running a body under a session's lock\<close>

text \<open>\<open>Get\<close>, then \<open>LockSession\<close>, the body, and the deferred \<open>UnlockSession\<close>.\<close>

definition fetch :: "'w env \<Rightarrow> bytes \<Rightarrow> 'w world \<Rightarrow> 'w world \<times> ref result" where
  "fetch e ID w = (case Get (ev_now e) ID (wd_mgr w) of (m, r) \<Rightarrow> (set_mgr w m, r))"

definition locked :: "'w env \<Rightarrow> bytes \<Rightarrow> 'w world \<Rightarrow> ('w world \<Rightarrow> ('w, 'a) outcome_of) \<Rightarrow> ('w, 'a) outcome_of" where
  "locked e ID w body =
     (let w = ev_queue e w
      in case LockSession (ev_lockErr e) (ev_pick e) ID (wd_mgr w) of
           None \<Rightarrow> StillWaiting
         | Some (m, Some err) \<Rightarrow> Returns (set_mgr w m, Inl err)
         | Some (m, None) \<Rightarrow>
             (case body (set_mgr w m) of
                Panics \<Rightarrow> Panics | StillWaiting \<Rightarrow> StillWaiting
              | Returns (w, r) \<Rightarrow> Returns (set_mgr w (UnlockSession ID (wd_mgr w)), r)))"

text \<open>The session's methods on a reference.\<close>

definition obj_Write :: "'w env \<Rightarrow> ref \<Rightarrow> bytes \<Rightarrow> 'w world \<Rightarrow> 'w world \<times> go_error option" where
  "obj_Write e s x w =
     (case sess_Write (ev_rpc e) (ev_io e) (wd_heap w s) (wd_net w) x of (obj, net, err) \<Rightarrow> (set_obj w s obj net, err))"

definition obj_WriteRaw :: "'w env \<Rightarrow> ref \<Rightarrow> bytes \<Rightarrow> 'w world \<Rightarrow> 'w world \<times> go_error option" where
  "obj_WriteRaw e s x w =
     (case sess_WriteRaw (ev_rpc e) (ev_io e) (wd_heap w s) (wd_net w) x of (obj, net, err) \<Rightarrow> (set_obj w s obj net, err))"

definition obj_ReadScreen :: "'w env \<Rightarrow> ref \<Rightarrow> int \<Rightarrow> 'w world \<Rightarrow> ('w world \<times> bytes \<times> bool) option" where
  "obj_ReadScreen e s ms w =
     do { (obj, net, out, c) \<leftarrow> sess_ReadScreen (ev_rpc e) (ev_io e) (wd_heap w s) (wd_net w) (ev_ctxErr e \<noteq> None) ms;
          Some (set_obj w s obj net, out, c) }"

definition obj_Close :: "'w env \<Rightarrow> ref \<Rightarrow> 'w world \<Rightarrow> 'w world \<times> go_error option" where
  "obj_Close e s w =
     (case sess_Close (ev_rpc e) (ev_io e) (wd_heap w s) (wd_net w) of (obj, net, err) \<Rightarrow> (set_obj w s obj net, err))"

definition buffer_of :: "'w world \<Rightarrow> ref \<Rightarrow> ring_buffer" where
  "buffer_of w s = sess_Buffer (wd_heap w s)"

definition set_buffer :: "'w world \<Rightarrow> ref \<Rightarrow> ring_buffer \<Rightarrow> 'w world" where
  "set_buffer w s rb = w\<lparr>wd_heap := (wd_heap w)(s := sess_set_Buffer (wd_heap w s) rb)\<rparr>"

section \<open>Secrets on a password prompt\<close>

text \<open>
  \<open>waitForSettle\<close>: the output that arrives while the write counter is polled, until it has not moved for
  \<open>settle\<close> or the deadline has passed.
\<close>

fun waitForSettle_loop :: "int \<Rightarrow> int \<Rightarrow> int \<Rightarrow> int \<Rightarrow> ring_buffer \<Rightarrow> turn list \<Rightarrow> ring_buffer option" where
  "waitForSettle_loop deadline settle lst lastChange rb [] = Some rb"
| "waitForSettle_loop deadline settle lst lastChange rb (q # qs) =
     (if \<not> t_now q < deadline then Some rb
      else do { rb \<leftarrow> arrive rb (t_arrivals q);
                let cur = Snapshot rb;
                if cur \<noteq> lst then waitForSettle_loop deadline settle cur (t_seen q) rb qs
                else if settle \<le> t_seen q - lastChange then Some rb
                else waitForSettle_loop deadline settle lst lastChange rb qs })"

definition waitForSettle :: "int \<times> turn list \<Rightarrow> ring_buffer \<Rightarrow> int \<Rightarrow> int \<Rightarrow> ring_buffer option" where
  "waitForSettle t rb settleMs maxWaitMs =
     (case t of (start, qs) \<Rightarrow> waitForSettle_loop (start + maxWaitMs) settleMs (Snapshot rb) start rb qs)"

definition maybeAutoSendSecret :: "'w env \<Rightarrow> ref \<Rightarrow> bytes \<Rightarrow> 'w world \<Rightarrow> ('w world \<times> bool) option" where
  "maybeAutoSendSecret e s output w =
     (let ID = sess_ID (wd_heap w s)
      in case TakeSecret ID (wd_mgr w) of
           (m, None) \<Rightarrow> Some (set_mgr w m, False)
         | (m, Some ps) \<Rightarrow>
             if cl_State (ClassifyOutput output) = Password_prompt
             then do { rb \<leftarrow> waitForSettle (ev_settle e) (buffer_of w s) 100 2000;
                       Some (fst (obj_WriteRaw e s (pe_Secret ps @ pe_LineEnding ps) (set_buffer (set_mgr w m) s rb)), True) }
             else Some (set_mgr w (SetPendingSecret ID ps m), False))"

definition auto_send :: "'w env \<Rightarrow> ref \<Rightarrow> bool \<Rightarrow> bytes \<Rightarrow> 'w world \<Rightarrow> 'w world option" where
  "auto_send e s asked output w = (if asked then map_option fst (maybeAutoSendSecret e s output w) else Some w)"

section \<open>Sending input\<close>

record SendInputParams =
  si_SessionID :: bytes
  si_Input :: bytes
  si_TimeoutMs :: int
  si_Raw :: bool
  si_WaitFor :: bytes
  si_WaitForTimeoutMs :: int

datatype tool_result =
    Screen (screen_output: bytes) (screen_cursor: int) (cursor_start: "int option") (screen_alive: bool)
      (screen_complete: bool)
  | Waited WaitForResult int
  | Incremental bytes int bool bool bool
  | Created bytes bytes bytes
  | SessionState bytes bytes bytes bool int ClassifyResult int int
  | Sessions "Info list"
  | Success
  | Buffered
  | Resized int int

text \<open>The wait shared by \<open>send_input\<close> and \<open>read_output\<close>: match, and consume and react on a match.\<close>

definition wait_and_react ::
  "'w env \<Rightarrow> ref \<Rightarrow> WaitForParams \<Rightarrow> 'w world \<Rightarrow> ('w, tool_result) outcome_of" where
  "wait_and_react e s params w =
     (case sess_PollRemote (ev_rpc e) (wd_heap w s) (wd_net w) (ev_ticks e) of
        None \<Rightarrow> Panics
      | Some (obj, net) \<Rightarrow>
          let w = set_obj w s obj net
          in (case waitForPattern (ev_compile e) params (buffer_of w s) (ev_gap1 e) (ev_gap2 e) (ev_alive e) (ev_wakes e) of
                Panics \<Rightarrow> Panics
              | StillWaiting \<Rightarrow> StillWaiting
              | Returns (r, rb) \<Rightarrow>
                  (case auto_send e s (wr_Matched r) (wr_MatchLine r) (set_buffer w s (if wr_Matched r then Mark rb else rb)) of
                     None \<Rightarrow> Panics
                   | Some w \<Rightarrow> Returns (w, Inr (Waited r (Snapshot (buffer_of w s)))))))"

definition read_reply :: "'w env \<Rightarrow> ref \<Rightarrow> int \<Rightarrow> bool \<Rightarrow> int option \<Rightarrow> 'w world \<Rightarrow> ('w, tool_result) outcome_of" where
  "read_reply e s ms autoSend cursorStart w =
     (case obj_ReadScreen e s ms w of
        None \<Rightarrow> Panics
      | Some (w, output, complete) \<Rightarrow>
          (case auto_send e s autoSend output w of
             None \<Rightarrow> Panics
           | Some w \<Rightarrow> Returns (w, Inr (Screen output (Snapshot (buffer_of w s)) cursorStart
                                     (sess_IsAlive (wd_heap w s)) complete))))"

text \<open>The command entry is sent before anything else is done, the output entry when the call ends.\<close>

definition cmd_entry :: "'w env \<Rightarrow> SendInputParams \<Rightarrow> ref \<Rightarrow> audit_client \<Rightarrow> 'w world \<Rightarrow> CmdEntry" where
  "cmd_entry e p s c w =
     (let info = GetInfo (wd_heap w) (si_SessionID p) (wd_mgr w); a = ev_audit e
      in \<lparr>ce_CmdID = au_cmdID a, ce_TS = au_cmdTS a, ce_User = ac_User c, ce_SessionID = si_SessionID p,
          ce_Type = sess_Type (wd_heap w s), ce_Target = in_Target info, ce_Cmd = si_Input p, ce_Raw = si_Raw p\<rparr>)"

definition audit_cmd :: "'w env \<Rightarrow> SendInputParams \<Rightarrow> ref \<Rightarrow> 'w world \<Rightarrow> 'w world \<times> go_error option" where
  "audit_cmd e p s w =
     (case wd_audit w of
        None \<Rightarrow> (w, None)
      | Some c \<Rightarrow>
          (let a = ev_audit e
           in case SendCmd (au_mid a 0) (au_mid a 1) (au_post a) (cmd_entry e p s c w) c of
                (c, posts, err) \<Rightarrow> (w\<lparr>wd_audit := Some c, wd_posted := wd_posted w @ posts\<rparr>, err)))"

definition audit_output :: "tool_result result \<Rightarrow> bytes" where
  "audit_output r = (case r of Inr (Screen out _ _ _ _) \<Rightarrow> out | Inr (Waited q _) \<Rightarrow> wr_MatchLine q | _ \<Rightarrow> [])"

definition audit_done :: "'w env \<Rightarrow> tool_result result \<Rightarrow> 'w world \<Rightarrow> 'w world" where
  "audit_done e r w =
     (case wd_audit w of
        None \<Rightarrow> w
      | Some c \<Rightarrow>
          (let a = ev_audit e
           in w\<lparr>wd_audit := Some (SendOutput (au_mid a 2) (au_mid a 3) (output_entry (au_cmdID a) (au_outTS a) (audit_output r)) c)\<rparr>))"

definition SendInput_run :: "'w env \<Rightarrow> SendInputParams \<Rightarrow> int \<Rightarrow> ref \<Rightarrow> 'w world \<Rightarrow> ('w, tool_result) outcome_of" where
  "SendInput_run e p ms s w =
     (case (wd_heap w s, si_WaitFor p = []) of
        (RemoteS r, True) \<Rightarrow>
          (case (if si_Raw p then obj_WriteRaw e s (si_Input p) w
                 else case r_WriteWithTimeout (ev_rpc e) r (wd_net w) (si_Input p) ms of
                        (r, net, err) \<Rightarrow> (set_obj w s (RemoteS r) net, err)) of
             (w, Some err) \<Rightarrow> Returns (w, Inl err)
           | (w, None) \<Rightarrow> read_reply e s ms False None w)
      | _ \<Rightarrow>
          (let cursorStart = Snapshot (buffer_of w s)
           in case (if si_Raw p then obj_WriteRaw e s (si_Input p) w else obj_Write e s (si_Input p) w) of
                (w, Some err) \<Rightarrow> Returns (w, Inl err)
              | (w, None) \<Rightarrow>
                  if si_WaitFor p \<noteq> []
                  then wait_and_react e s
                         \<lparr>wp_WaitFor = si_WaitFor p,
                          wp_TimeoutSeconds = (let t = si_WaitForTimeoutMs p;
                                                   t = (if t \<le> 0 then 10000 else t)
                                               in if t > 600000 then 600000 else t) div 1000,
                          wp_ContextLines = 0, wp_TailLines = 20\<rparr> w
                  else read_reply e s ms True (Some cursorStart) w))"

definition SendInput_body :: "'w env \<Rightarrow> SendInputParams \<Rightarrow> int \<Rightarrow> ref \<Rightarrow> 'w world \<Rightarrow> ('w, tool_result) outcome_of" where
  "SendInput_body e p ms s w =
     (case audit_cmd e p s w of
        (w, Some err) \<Rightarrow> Returns (w, Inl (Wrap ''audit'' err))
      | (w, None) \<Rightarrow>
          (case SendInput_run e p ms s w of
             Panics \<Rightarrow> Panics | StillWaiting \<Rightarrow> StillWaiting
           | Returns (w, r) \<Rightarrow> Returns (audit_done e r w, r)))"

definition SendInput :: "'w env \<Rightarrow> SendInputParams \<Rightarrow> 'w world \<Rightarrow> ('w, tool_result) outcome_of" where
  "SendInput e p w =
     (let ms = (if si_TimeoutMs p \<le> 0 then 5000 else si_TimeoutMs p);
          ms = (if ms > 30000 then 30000 else ms)
      in case fetch e (si_SessionID p) w of
           (w, Inl err) \<Rightarrow> Returns (w, Inl err)
         | (w, Inr s) \<Rightarrow> locked e (si_SessionID p) w (SendInput_body e p ms s))"

section \<open>Reading output\<close>

record ReadOutputParams =
  ro_SessionID :: bytes
  ro_TimeoutMs :: int
  ro_WaitFor :: bytes
  ro_ContextLines :: int
  ro_TailLines :: int
  ro_SinceCursor :: "int option"
  ro_MaxBytes :: "int option"

text \<open>Handlers that fetch again under the lock: the session could have been closed while queued.\<close>

definition fetch_locked ::
  "'w env \<Rightarrow> bytes \<Rightarrow> 'w world \<Rightarrow> (ref \<Rightarrow> 'w world \<Rightarrow> ('w, 'a) outcome_of) \<Rightarrow> ('w, 'a) outcome_of" where
  "fetch_locked e ID w body =
     (case fetch e ID w of
        (w, Inl err) \<Rightarrow> Returns (w, Inl err)
      | (w, Inr _) \<Rightarrow>
          locked e ID w (\<lambda>w. case fetch e ID w of (w, Inl err) \<Rightarrow> Returns (w, Inl err) | (w, Inr s) \<Rightarrow> body s w))"

definition ReadOutput_body :: "'w env \<Rightarrow> ReadOutputParams \<Rightarrow> ref \<Rightarrow> 'w world \<Rightarrow> ('w, tool_result) outcome_of" where
  "ReadOutput_body e p s w =
     (if ro_WaitFor p \<noteq> []
      then wait_and_react e s
             \<lparr>wp_WaitFor = ro_WaitFor p,
              wp_TimeoutSeconds = (let t = ro_TimeoutMs p; t = (if t \<le> 0 then 5000 else t)
                                   in if t > 600000 then 600000 else t) div 1000,
              wp_ContextLines = clampInt (ro_ContextLines p) 0 50, wp_TailLines = clampInt (ro_TailLines p) 0 100\<rparr> w
      else case ro_SinceCursor p of
        Some cursor \<Rightarrow>
          (let rb = buffer_of w s;
               maxBytes = (case ro_MaxBytes p of Some n \<Rightarrow> if n > 0 then n else 0 | None \<Rightarrow> 0)
           in case ReadSinceMax rb cursor maxBytes of
                None \<Rightarrow> Panics
              | Some (output, newCursor, hasMore) \<Rightarrow>
                  Returns (w, Inr (Incremental (StripANSI output) newCursor hasMore (IsTruncated rb cursor)
                                     (sess_IsAlive (wd_heap w s)))))
      | None \<Rightarrow>
          (let ms = (if ro_TimeoutMs p > 0 then (if ro_TimeoutMs p > 600000 then 600000 else ro_TimeoutMs p) else 5000)
           in read_reply e s ms False None w))"

definition ReadOutput :: "'w env \<Rightarrow> ReadOutputParams \<Rightarrow> 'w world \<Rightarrow> ('w, tool_result) outcome_of" where
  "ReadOutput e p w = fetch_locked e (ro_SessionID p) w (ReadOutput_body e p)"

section \<open>Control keys, state, closing, resizing\<close>

record SendControlParams =
  sk_SessionID :: bytes
  sk_Key :: bytes

definition SendControl :: "'w env \<Rightarrow> SendControlParams \<Rightarrow> 'w world \<Rightarrow> ('w, tool_result) outcome_of" where
  "SendControl e p w =
     (case controlKeys (sk_Key p) of
        None \<Rightarrow> Returns (w, Inl (Errorf (''unknown control key '' @ Quote (sk_Key p) @ '', supported: ['' @ Join (ev_keys e) '' '' @ '']'')))
      | Some sq \<Rightarrow>
          fetch_locked e (sk_SessionID p) w (\<lambda>s w. case obj_WriteRaw e s sq w of
             (w, Some err) \<Rightarrow> Returns (w, Inl err)
           | (w, None) \<Rightarrow> read_reply e s 5000 False None w))"

record SessionIDParams =
  sd_SessionID :: bytes

definition GetSessionState :: "'w env \<Rightarrow> SessionIDParams \<Rightarrow> 'w world \<Rightarrow> ('w, tool_result) outcome_of" where
  "GetSessionState e p w =
     (case fetch e (sd_SessionID p) w of
        (w, Inl err) \<Rightarrow> Returns (w, Inl err)
      | (w, Inr s) \<Rightarrow>
          (let info = GetInfo (wd_heap w) (sd_SessionID p) (wd_mgr w); rb = buffer_of w s; cursor = Snapshot rb
           in case ReadSinceMax rb (cursor - 2048) 0 of
                None \<Rightarrow> Panics
              | Some (lastChunk, _, _) \<Rightarrow>
                  Returns (w, Inr (SessionState (sess_ID (wd_heap w s)) (sess_Type (wd_heap w s)) (in_Target info)
                                     (sess_IsAlive (wd_heap w s)) cursor (ClassifyOutput lastChunk)
                                     (in_CreatedAt info) (in_LastUsed info)))))"

definition ListSessions :: "'w env \<Rightarrow> 'w world \<Rightarrow> ('w, tool_result) outcome_of" where
  "ListSessions e w = Returns (w, Inr (Sessions (List (wd_heap w) (ev_order e) (wd_mgr w))))"

text \<open>The manager's \<open>Close\<close> and \<open>Detach\<close>, with what they do to the session.\<close>

definition mgr_Close :: "'w env \<Rightarrow> bytes \<Rightarrow> 'w world \<Rightarrow> 'w world \<times> go_error option" where
  "mgr_Close e ID w =
     (case Close ID (wd_mgr w) of
        (m, Inl err) \<Rightarrow> (set_mgr w m, Some err)
      | (m, Inr s) \<Rightarrow> obj_Close e s (set_mgr w m))"

definition mgr_Detach :: "'w env \<Rightarrow> bytes \<Rightarrow> 'w world \<Rightarrow> 'w world \<times> go_error option" where
  "mgr_Detach e ID w =
     (case Detach ID (wd_mgr w) of
        (m, Inl err) \<Rightarrow> (set_mgr w m, Some err)
      | (m, Inr s) \<Rightarrow>
          (case detach_session (ev_rpc e) (ev_io e) (wd_heap w s) (wd_net w) of
             (obj, net, err) \<Rightarrow> (set_obj (set_mgr w m) s obj net, err)))"

definition succeed :: "'w world \<times> go_error option \<Rightarrow> ('w, tool_result) outcome_of" where
  "succeed r = (case r of (w, Some err) \<Rightarrow> Returns (w, Inl err) | (w, None) \<Rightarrow> Returns (w, Inr Success))"

definition CloseSession :: "'w env \<Rightarrow> SessionIDParams \<Rightarrow> 'w world \<Rightarrow> ('w, tool_result) outcome_of" where
  "CloseSession e p w =
     (case fetch e (sd_SessionID p) w of
        (w, Inl err) \<Rightarrow> Returns (w, Inl err)
      | (w, Inr _) \<Rightarrow> locked e (sd_SessionID p) w (\<lambda>w. succeed (mgr_Close e (sd_SessionID p) w)))"

definition DetachSession :: "'w env \<Rightarrow> SessionIDParams \<Rightarrow> 'w world \<Rightarrow> ('w, tool_result) outcome_of" where
  "DetachSession e p w =
     (case fetch e (sd_SessionID p) w of
        (w, Inl err) \<Rightarrow> Returns (w, Inl err)
      | (w, Inr _) \<Rightarrow> locked e (sd_SessionID p) w (\<lambda>w. succeed (mgr_Detach e (sd_SessionID p) w)))"

record ResizeSessionParams =
  rz_SessionID :: bytes
  rz_Rows :: int
  rz_Cols :: int

definition ResizeSession :: "'w env \<Rightarrow> ResizeSessionParams \<Rightarrow> 'w world \<Rightarrow> ('w, tool_result) outcome_of" where
  "ResizeSession e p w =
     (if rz_Rows p \<le> 0 \<or> rz_Cols p \<le> 0 then Returns (w, Inl (Errorf ''rows and cols must be positive integers''))
      else if rz_Rows p > 500 \<or> rz_Cols p > 1000
        then Returns (w, Inl (Errorf ''rows must be <= 500 and cols must be <= 1000''))
      else fetch_locked e (rz_SessionID p) w (\<lambda>s w.
             case sess_Resize (ev_rpc e) (ev_io e) (wd_heap w s) (wd_net w) (rz_Rows p) (rz_Cols p) of
               (obj, net, Some err) \<Rightarrow> Returns (set_obj w s obj net, Inl err)
             | (obj, net, None) \<Rightarrow> Returns (set_obj w s obj net, Inr (Resized (rz_Rows p) (rz_Cols p)))))"

section \<open>Secrets\<close>

definition secret_prompt :: "bytes \<Rightarrow> bytes" where
  "secret_prompt prompt = (if prompt = [] then ''Enter secret: '' else prompt)"

record PrepareSecretParams =
  pr_SessionID :: bytes
  pr_Prompt :: bytes
  pr_LineEnding :: bytes

definition PrepareSecret :: "'w env \<Rightarrow> PrepareSecretParams \<Rightarrow> 'w world \<Rightarrow> ('w, tool_result) outcome_of" where
  "PrepareSecret e p w =
     (let lineEnding = (if pr_LineEnding p = [] then [CR] else pr_LineEnding p)
      in fetch_locked e (pr_SessionID p) w (\<lambda>s w.
           case ev_secret e (secret_prompt (pr_Prompt p)) of
             Inl err \<Rightarrow> Returns (w, Inl err)
           | Inr secret \<Rightarrow>
               (case ev_ctxErr e of
                  Some err \<Rightarrow> Returns (w, Inl err)
                | None \<Rightarrow>
                    Returns (set_mgr w (SetPendingSecret (pr_SessionID p)
                               \<lparr>pe_Secret = secret, pe_LineEnding = lineEnding\<rparr> (wd_mgr w)), Inr Buffered))))"

record SendSecretParams =
  sn_SessionID :: bytes
  sn_Prompt :: bytes

definition send_secret_body :: "'w env \<Rightarrow> bytes \<Rightarrow> bytes result \<Rightarrow> ref \<Rightarrow> 'w world \<Rightarrow> ('w, tool_result) outcome_of" where
  "send_secret_body e ID secret s w =
     (case TakeSecret ID (wd_mgr w) of
        (m, Some ps) \<Rightarrow>
          (case obj_WriteRaw e s (pe_Secret ps @ pe_LineEnding ps) (set_mgr w m) of
             (w, Some err) \<Rightarrow> Returns (w, Inl (Wrap ''write to session'' err))
           | (w, None) \<Rightarrow> Returns (w, Inr Success))
      | (m, None) \<Rightarrow>
          (case secret of
             Inl err \<Rightarrow> Returns (set_mgr w m, Inl err)
           | Inr secret \<Rightarrow>
               (case ev_ctxErr e of
                  Some err \<Rightarrow> Returns (set_mgr w m, Inl err)
                | None \<Rightarrow>
                    (case obj_WriteRaw e s (secret @ [CR]) (set_mgr w m) of
                       (w, Some err) \<Rightarrow> Returns (w, Inl (Wrap ''write to session'' err))
                     | (w, None) \<Rightarrow> Returns (w, Inr Success)))))"

definition SendSecret :: "'w env \<Rightarrow> SendSecretParams \<Rightarrow> 'w world \<Rightarrow> ('w, tool_result) outcome_of" where
  "SendSecret e p w =
     fetch_locked e (sn_SessionID p) w
       (send_secret_body e (sn_SessionID p) (ev_secret e (secret_prompt (sn_Prompt p))))"

section \<open>Creating sessions\<close>

text \<open>
  The tail of the three creating handlers: the session \<open>obj\<close> came up and lives at the fresh reference
  \<open>s\<close>. \<open>ctx1\<close> and \<open>ctx2\<close> are \<open>ctx.Err()\<close> before and after it is registered.
\<close>

definition register_session ::
  "'w env \<Rightarrow> go_error option \<Rightarrow> go_error option \<Rightarrow> ref \<Rightarrow> session \<Rightarrow> bytes \<Rightarrow> 'w world
     \<Rightarrow> 'w world \<times> tool_result result" where
  "register_session e ctx1 ctx2 s obj target w =
     (let w = set_obj w s obj (wd_net w)
      in case ctx1 of
           Some err \<Rightarrow> (fst (obj_Close e s w), Inl err)
         | None \<Rightarrow>
             (case Add (ev_now e) target (sess_ID obj) (sess_Type obj) s (wd_mgr w) of
                (m, Some err) \<Rightarrow> (fst (obj_Close e s (set_mgr w m)), Inl err)
              | (m, None) \<Rightarrow>
                  (case ctx2 of
                     Some err \<Rightarrow> (fst (mgr_Close e (sess_ID obj) (set_mgr w m)), Inl err)
                   | None \<Rightarrow> (set_mgr w m, Inr (Created (sess_ID obj) (sess_Type obj) target)))))"

section \<open>What a handler leaves as it found it\<close>

definition same :: "('w world \<Rightarrow> 'b) \<Rightarrow> 'w world \<Rightarrow> 'w world \<Rightarrow> bool" where
  "same F w w' \<longleftrightarrow> F w' = F w"

definition keeps :: "('w world \<Rightarrow> 'b) \<Rightarrow> ('w world \<Rightarrow> ('w, 'a) outcome_of) \<Rightarrow> bool" where
  "keeps F body \<longleftrightarrow> (\<forall>w w' r. body w = Returns (w', r) \<longrightarrow> same F w w')"

lemma same_trans [trans]: "same F u v \<Longrightarrow> same F v w \<Longrightarrow> same F u w"
  by (simp add: same_def)

lemma same_refl [simp]: "same F w w"
  by (simp add: same_def)

lemma keepsI: "(\<And>w w' r. body w = Returns (w', r) \<Longrightarrow> same F w w') \<Longrightarrow> keeps F body"
  by (auto simp: keeps_def)

lemma keepsD: "keeps F body \<Longrightarrow> body w = Returns (w', r) \<Longrightarrow> same F w w'"
  by (auto simp: keeps_def)

lemma wd_simps [simp]:
  "wd_mgr (set_mgr w m) = m" "wd_heap (set_mgr w m) = wd_heap w" "wd_net (set_mgr w m) = wd_net w"
  "wd_audit (set_mgr w m) = wd_audit w" "wd_posted (set_mgr w m) = wd_posted w"
  "wd_mgr (set_obj w s obj net) = wd_mgr w" "wd_heap (set_obj w s obj net) = (wd_heap w)(s := obj)"
  "wd_net (set_obj w s obj net) = net" "wd_audit (set_obj w s obj net) = wd_audit w"
  "wd_posted (set_obj w s obj net) = wd_posted w" "wd_mgr (set_buffer w s rb) = wd_mgr w"
  "wd_audit (set_buffer w s rb) = wd_audit w" "wd_posted (set_buffer w s rb) = wd_posted w"
  by (simp_all add: set_mgr_def set_obj_def set_buffer_def)

lemma obj_frame [simp]:
  "wd_mgr (fst (obj_Write e s x w)) = wd_mgr w" "wd_mgr (fst (obj_WriteRaw e s x w)) = wd_mgr w"
  "wd_mgr (fst (obj_Close e s w)) = wd_mgr w"
  by (simp_all add: obj_Write_def obj_WriteRaw_def obj_Close_def split: prod.split)

lemma mgr_locks_frame [simp]:
  "m_sessionLocks (fst (Get now ID m)) = m_sessionLocks m"
  "m_sessionLocks (fst (TakeSecret ID m)) = m_sessionLocks m"
  "m_sessionLocks (SetPendingSecret ID ps m) = m_sessionLocks m"
  "m_sessionLocks (fst (Close ID m)) = m_sessionLocks m" "m_sessionLocks (fst (Detach ID m)) = m_sessionLocks m"
  "m_sessionLocks (fst (Add now target ID ty s m)) = m_sessionLocks m"
  by (simp_all add: Get_def TakeSecret_def SetPendingSecret_def Detach_Close Close_def clearSecret_def remove_def
      Add_def split: option.split)

text \<open>
  A part of the world that the methods of sessions and the manager's operations other than locking do not touch:
  no handler touches it either, outside of what it does with the lock and the audit client itself.
\<close>

locale world_view =
  fixes F :: "'w world \<Rightarrow> 'b"
  assumes view_obj: "F (set_obj w s obj net) = F w"
    and view_buffer: "F (set_buffer w s rb) = F w"
    and view_mgr: "m_sessionLocks m = m_sessionLocks (wd_mgr w) \<Longrightarrow> F (set_mgr w m) = F w"
begin

lemma take_secret:
  assumes "TakeSecret ID (wd_mgr w) = (m, ps)"
  shows "F (set_mgr w m) = F w" and "F (set_mgr w (SetPendingSecret ID' x m)) = F w"
  using mgr_locks_frame(2) [of ID "wd_mgr w"] assms by (simp_all add: view_mgr)

lemma obj_write:
  "F (fst (obj_Write e s x w)) = F w" "F (fst (obj_WriteRaw e s x w)) = F w" "F (fst (obj_Close e s w)) = F w"
  by (simp_all add: obj_Write_def obj_WriteRaw_def obj_Close_def view_obj split: prod.split)

lemma obj_write_eq:
  "obj_Write e s x w = (w', err) \<Longrightarrow> F w' = F w" "obj_WriteRaw e s x w = (w', err) \<Longrightarrow> F w' = F w"
  using obj_write(1) [of e s x w] obj_write(2) [of e s x w] by simp_all

lemma obj_read: "obj_ReadScreen e s ms w = Some (w', out, c) \<Longrightarrow> F w' = F w"
  by (auto simp: obj_ReadScreen_def view_obj split: bind_splits)

lemma fetched: "same F w (fst (fetch e ID w))"
  using mgr_locks_frame(1) [of "ev_now e" ID "wd_mgr w"]
  by (cases "Get (ev_now e) ID (wd_mgr w)") (simp add: same_def fetch_def view_mgr)

lemma auto_sent:
  assumes "auto_send e s asked out w = Some w'"
  shows "same F w w'"
proof (cases asked)
  case True
  with assms obtain sent where "maybeAutoSendSecret e s out w = Some (w', sent)" by (auto simp: auto_send_def)
  then show ?thesis
    by (auto simp: maybeAutoSendSecret_def Let_def same_def obj_write view_buffer take_secret
        split: prod.splits option.splits if_splits bind_splits)
qed (use assms in \<open>simp add: auto_send_def\<close>)

lemma keeps_read_reply: "keeps F (read_reply e s ms auto cs)"
proof (rule keepsI)
  fix w w' r assume "read_reply e s ms auto cs w = Returns (w', r)"
  then obtain w1 out c where 1: "obj_ReadScreen e s ms w = Some (w1, out, c)" "auto_send e s auto out w1 = Some w'"
    by (auto simp: read_reply_def split: option.splits)
  then have "same F w w1" by (simp add: same_def obj_read)
  then show "same F w w'" using auto_sent [OF 1(2)] by (rule same_trans)
qed

lemma keeps_wait: "keeps F (wait_and_react e s params)"
proof (rule keepsI)
  fix w w' r assume a: "wait_and_react e s params w = Returns (w', r)"
  then obtain obj net where p: "sess_PollRemote (ev_rpc e) (wd_heap w s) (wd_net w) (ev_ticks e) = Some (obj, net)"
    by (auto simp: wait_and_react_def split: option.splits)
  let ?w = "set_obj w s obj net"
  obtain q rb where q: "waitForPattern (ev_compile e) params (buffer_of ?w s) (ev_gap1 e) (ev_gap2 e) (ev_alive e)
      (ev_wakes e) = Returns (q, rb)"
    using a p by (auto simp: wait_and_react_def Let_def split: run.splits)
  let ?w1 = "set_buffer ?w s (if wr_Matched q then Mark rb else rb)"
  have "same F w ?w1" by (simp add: same_def view_obj view_buffer)
  moreover have "auto_send e s (wr_Matched q) (wr_MatchLine q) ?w1 = Some w'"
    using a p q by (auto simp: wait_and_react_def Let_def split: option.splits)
  ultimately show "same F w w'" using auto_sent by (blast intro: same_trans)
qed

text \<open>First something that can fail, then the rest.\<close>

lemma keeps_then:
  assumes "\<And>w. F (fst (f w)) = F w" and "keeps F k"
  shows "keeps F (\<lambda>w. case f w of (w, Some err) \<Rightarrow> Returns (w, Inl (g err)) | (w, None) \<Rightarrow> k w)"
proof (rule keepsI)
  fix w w' r assume a: "(case f w of (w, Some err) \<Rightarrow> Returns (w, Inl (g err)) | (w, None) \<Rightarrow> k w) = Returns (w', r)"
  obtain w1 err where f: "f w = (w1, err)" by fastforce
  with assms(1) [of w] have 1: "same F w w1" by (simp add: same_def)
  show "same F w w'"
  proof (cases err)
    case None
    with a f have "same F w1 w'" by (simp add: keepsD [OF assms(2)])
    with 1 show ?thesis by (rule same_trans)
  qed (use a f 1 in auto)
qed

lemma keeps_returns: "(\<And>w. F (fst (f w)) = F w) \<Longrightarrow> keeps F (\<lambda>w. Returns (f w))"
  by (rule keepsI) (auto simp: same_def, metis fst_conv)

lemma keeps_SendInput_run: "keeps F (SendInput_run e p ms s)"
proof (rule keepsI)
  fix w w' r assume a: "SendInput_run e p ms s w = Returns (w', r)"
  have w1: "F (fst (if si_Raw p then obj_WriteRaw e s (si_Input p) w else obj_Write e s (si_Input p) w)) = F w" for w
    by (simp add: obj_write)
  have w2: "F (fst (if si_Raw p then obj_WriteRaw e s (si_Input p) w
        else case r_WriteWithTimeout (ev_rpc e) rs (wd_net w) (si_Input p) ms of
             (r, net, err) \<Rightarrow> (set_obj w s (RemoteS r) net, err))) = F w" for rs w
    by (simp add: obj_write view_obj split: prod.split)
  have k: "keeps F (\<lambda>w. if si_WaitFor p \<noteq> [] then wait_and_react e s q w else read_reply e s ms b cs w)" for q b cs
    using keeps_wait keeps_read_reply by (cases "si_WaitFor p = []") auto
  have sel: "(case (x, q) of (RemoteS r, True) \<Rightarrow> A r | _ \<Rightarrow> B) = B" if "\<not> (\<exists>r. x = RemoteS r \<and> q)"
    for x q A and B :: "('w, tool_result) outcome_of"
    using that by (cases x; cases q) auto
  note b = a [unfolded SendInput_run_def Let_def]
  show "same F w w'"
  proof (cases "\<exists>rs. wd_heap w s = RemoteS rs \<and> si_WaitFor p = []")
    case True
    then obtain rs where "wd_heap w s = RemoteS rs" "si_WaitFor p = []" by blast
    with b show ?thesis using keepsD [OF keeps_then [OF w2 [of _ rs] keeps_read_reply]] by simp
  next
    case False
    from b [unfolded sel [OF False]] show ?thesis by (rule keepsD [OF keeps_then [OF w1 k]])
  qed
qed

lemma keeps_ReadOutput_body: "keeps F (ReadOutput_body e p s)"
proof -
  have "keeps F (\<lambda>w. case ReadSinceMax (buffer_of w s) c n of None \<Rightarrow> Panics
      | Some (a, b, d) \<Rightarrow> Returns (w, f w a b d))" for c n and f :: "'w world \<Rightarrow> _"
    by (rule keepsI) (auto split: option.splits)
  then show ?thesis
    unfolding ReadOutput_body_def Let_def
    by (cases "ro_WaitFor p = []"; cases "ro_SinceCursor p") (auto simp: keeps_wait keeps_read_reply)
qed

lemma keeps_fetch:
  assumes "\<And>s. keeps F (body s)"
  shows "keeps F (\<lambda>w. case fetch e ID w of (w, Inl err) \<Rightarrow> Returns (w, Inl err) | (w, Inr s) \<Rightarrow> body s w)"
proof (rule keepsI)
  fix w w' r
  assume a: "(case fetch e ID w of (w, Inl err) \<Rightarrow> Returns (w, Inl err) | (w, Inr s) \<Rightarrow> body s w) = Returns (w', r)"
  obtain w1 f where f: "fetch e ID w = (w1, f)" by fastforce
  then have 1: "same F w w1" using fetched [of w e ID] by simp
  show "same F w w'"
  proof (cases f)
    case (Inr s)
    with a f have "body s w1 = Returns (w', r)" by simp
    with 1 keepsD [OF assms] show ?thesis by (blast intro: same_trans)
  qed (use a f 1 in auto)
qed

lemma keeps_succeed: "(\<And>w. F (fst (f w)) = F w) \<Longrightarrow> keeps F (\<lambda>w. succeed (f w))"
  unfolding succeed_def using keeps_then [of f "\<lambda>w. Returns (w, Inr Success)" id] by (simp add: keeps_returns)

lemma mgr_closed: "F (fst (mgr_Close e ID w)) = F w" "F (fst (mgr_Detach e ID w)) = F w"
proof -
  obtain m r where c: "Close ID (wd_mgr w) = (m, r)" by fastforce
  then have "F (set_mgr w m) = F w" using mgr_locks_frame(4) [of ID "wd_mgr w"] by (simp add: view_mgr)
  with c show "F (fst (mgr_Close e ID w)) = F w" "F (fst (mgr_Detach e ID w)) = F w"
    by (auto simp: mgr_Close_def mgr_Detach_def Detach_Close obj_write view_obj split: sum.split prod.split)
qed

lemma keeps_control:
  "keeps F (\<lambda>w. case obj_WriteRaw e s sq w of (w, Some err) \<Rightarrow> Returns (w, Inl err)
      | (w, None) \<Rightarrow> read_reply e s ms auto cs w)"
  by (rule keeps_then [OF obj_write(2) keeps_read_reply])

lemma keeps_resize:
  "keeps F (\<lambda>w. case sess_Resize (ev_rpc e) (ev_io e) (wd_heap w s) (wd_net w) rows cols of
               (obj, net, Some err) \<Rightarrow> Returns (set_obj w s obj net, Inl err)
             | (obj, net, None) \<Rightarrow> Returns (set_obj w s obj net, Inr (Resized rows cols)))"
  by (rule keepsI) (auto simp: same_def view_obj split: prod.splits option.splits)

lemma keeps_PrepareSecret_body:
  "keeps F (\<lambda>w. case x of Inl err \<Rightarrow> Returns (w, Inl err)
       | Inr secret \<Rightarrow> (case ev_ctxErr e of Some err \<Rightarrow> Returns (w, Inl err)
            | None \<Rightarrow> Returns (set_mgr w (SetPendingSecret ID (f secret) (wd_mgr w)), Inr Buffered)))"
  by (rule keepsI) (auto simp: same_def view_mgr split: sum.splits option.splits)

lemma keeps_SendSecret_body: "keeps F (send_secret_body e ID secret s)"
proof (rule keepsI)
  fix w w' r assume a: "send_secret_body e ID secret s w = Returns (w', r)"
  obtain m ps where t: "TakeSecret ID (wd_mgr w) = (m, ps)" by fastforce
  have w: "F w1 = F w" if "obj_WriteRaw e s x (set_mgr w m) = (w1, err)" for x w1 err
    using obj_write_eq(2) [OF that] take_secret [OF t] by simp
  from a t take_secret(1) [OF t] show "same F w w'"
    by (auto simp: send_secret_body_def same_def w split: option.splits sum.splits prod.splits)
qed

end

text \<open>The table of locks is such a part, and so is what was reported to the audit log.\<close>

definition locks_of :: "'w world \<Rightarrow> bytes \<Rightarrow> bool option" where
  "locks_of w = m_sessionLocks (wd_mgr w)"

definition reports_of :: "'w world \<Rightarrow> audit_client option \<times> json list" where
  "reports_of w = (wd_audit w, wd_posted w)"

interpretation locks: world_view locks_of
  by unfold_locales (simp_all add: locks_of_def)

interpretation reports: world_view reports_of
  by unfold_locales (simp_all add: reports_of_def)

definition held :: "'w world \<Rightarrow> bytes set" where
  "held w = {ID. locks_of w ID = Some True}"

lemma same_locks_held: "same locks_of w w' \<Longrightarrow> held w' = held w"
  by (simp add: same_def held_def)

lemma audit_frame:
  "wd_mgr (fst (audit_cmd e p s w)) = wd_mgr w" "wd_heap (fst (audit_cmd e p s w)) = wd_heap w"
  "wd_net (fst (audit_cmd e p s w)) = wd_net w" "wd_mgr (audit_done e r w) = wd_mgr w"
  "wd_heap (audit_done e r w) = wd_heap w" "wd_net (audit_done e r w) = wd_net w" "wd_posted (audit_done e r w) = wd_posted w"
  by (simp_all add: audit_cmd_def audit_done_def Let_def split: option.split prod.split)

lemma keeps_SendInput_body: "keeps locks_of (SendInput_body e p ms s)"
proof -
  have "keeps locks_of (\<lambda>w. case SendInput_run e p ms s w of Panics \<Rightarrow> Panics | StillWaiting \<Rightarrow> StillWaiting
      | Returns (w, r) \<Rightarrow> Returns (audit_done e r w, r))"
    by (rule keepsI)
      (auto simp: same_def locks_of_def audit_frame split: run.splits dest: keepsD [OF locks.keeps_SendInput_run])
  then show ?thesis unfolding SendInput_body_def
    by (intro locks.keeps_then) (simp_all add: locks_of_def audit_frame)
qed

lemma locked_held:
  assumes "locked e ID w body = Returns (w', r)" and "keeps locks_of body"
  shows "held w' = held (ev_queue e w)"
proof -
  let ?w = "ev_queue e w"
  obtain m err where l: "LockSession (ev_lockErr e) (ev_pick e) ID (wd_mgr ?w) = Some (m, err)"
    using assms(1) by (auto simp: locked_def Let_def split: option.splits)
  show ?thesis
  proof (cases err)
    case (Some er)
    with assms(1) l have "w' = set_mgr ?w m" by (simp add: locked_def Let_def)
    with LockSession_cancelled [OF l [unfolded Some]] show ?thesis by (simp add: held_def locks_of_def)
  next
    case None
    with assms(1) l obtain w1 where b: "body (set_mgr ?w m) = Returns (w1, r)"
        "w' = set_mgr w1 (UnlockSession ID (wd_mgr w1))"
      by (auto simp: locked_def Let_def split: run.splits)
    have "m_sessionLocks (wd_mgr w1) = m_sessionLocks m"
      using keepsD [OF assms(2) b(1)] by (simp add: same_def locks_of_def)
    moreover note LockSession_got [OF l [unfolded None]]
    ultimately show ?thesis
      using UnlockSession_frees [of ID "wd_mgr w1"] by (auto simp: held_def locks_of_def b(2))
  qed
qed

text \<open>The world in which a call that is queued for the lock finds the session.\<close>

definition queued :: "'w env \<Rightarrow> bytes \<Rightarrow> 'w world \<Rightarrow> 'w world" where
  "queued e ID w = ev_queue e (fst (fetch e ID w))"

definition releases :: "'w env \<Rightarrow> bytes \<Rightarrow> 'w world \<Rightarrow> ('w, 'a) outcome_of \<Rightarrow> bool" where
  "releases e ID w out \<longleftrightarrow> (\<forall>w' r. out = Returns (w', r) \<longrightarrow> held w' = held w \<or> held w' = held (queued e ID w))"

lemma releases_now: "releases e ID w (Returns (w, r))"
  by (simp add: releases_def)

lemma releases_keeps: "keeps locks_of body \<Longrightarrow> releases e ID w (body w)"
  by (auto simp: releases_def dest: keepsD same_locks_held)

lemma releases_fetch:
  assumes "\<And>s. keeps locks_of (body s)"
  shows "releases e ID w (case fetch e ID w of (w, Inl err) \<Rightarrow> Returns (w, Inl err) | (w, Inr s) \<Rightarrow> locked e ID w (body s))"
proof -
  obtain w1 f where f: "fetch e ID w = (w1, f)" by fastforce
  then have "held w1 = held w" using same_locks_held [OF locks.fetched [of w e ID]] by simp
  with f locked_held [OF _ assms] show ?thesis by (cases f) (auto simp: releases_def queued_def)
qed

lemma releases_fetch_locked: "(\<And>s. keeps locks_of (body s)) \<Longrightarrow> releases e ID w (fetch_locked e ID w body)"
  unfolding fetch_locked_def using releases_fetch [of "\<lambda>_. _"] locks.keeps_fetch by blast

section \<open>Properties of the handlers\<close>

datatype call = C_SendInput SendInputParams | C_ReadOutput ReadOutputParams | C_SendControl SendControlParams
  | C_GetSessionState SessionIDParams | C_ListSessions | C_CloseSession SessionIDParams | C_DetachSession SessionIDParams
  | C_ResizeSession ResizeSessionParams | C_PrepareSecret PrepareSecretParams | C_SendSecret SendSecretParams

fun call_session :: "call \<Rightarrow> bytes" where
  "call_session (C_SendInput p) = si_SessionID p"
| "call_session (C_ReadOutput p) = ro_SessionID p"
| "call_session (C_SendControl p) = sk_SessionID p"
| "call_session (C_GetSessionState p) = sd_SessionID p"
| "call_session C_ListSessions = []"
| "call_session (C_CloseSession p) = sd_SessionID p"
| "call_session (C_DetachSession p) = sd_SessionID p"
| "call_session (C_ResizeSession p) = rz_SessionID p"
| "call_session (C_PrepareSecret p) = pr_SessionID p"
| "call_session (C_SendSecret p) = sn_SessionID p"

fun run_call :: "'w env \<Rightarrow> call \<Rightarrow> 'w world \<Rightarrow> ('w, tool_result) outcome_of" where
  "run_call e (C_SendInput p) w = SendInput e p w"
| "run_call e (C_ReadOutput p) w = ReadOutput e p w"
| "run_call e (C_SendControl p) w = SendControl e p w"
| "run_call e (C_GetSessionState p) w = GetSessionState e p w"
| "run_call e C_ListSessions w = ListSessions e w"
| "run_call e (C_CloseSession p) w = CloseSession e p w"
| "run_call e (C_DetachSession p) w = DetachSession e p w"
| "run_call e (C_ResizeSession p) w = ResizeSession e p w"
| "run_call e (C_PrepareSecret p) w = PrepareSecret e p w"
| "run_call e (C_SendSecret p) w = SendSecret e p w"


definition world_sample :: "unit world" where
  "world_sample = \<lparr>wd_mgr = fst (Add 5 ''/dev/ttyS0@9600'' ''p1'' ''serial'' 1 (NewManager 600)),
     wd_heap = (\<lambda>_. SerialS serial_sample), wd_net = (), wd_audit = None, wd_posted = []\<rparr>"

definition io_quiet :: sess_io where
  "io_quiet = \<lparr>io_now = 0, io_err = None, io_turns = [], io_late = []\<rparr>"

definition audit_sample :: audit_io where
  "audit_sample = \<lparr>au_cmdID = ''c1'', au_eventID = ''v1'', au_cmdTS = ''t1'', au_outTS = ''t2'',
     au_post = (\<lambda>_. Answered 200), au_mid = (\<lambda>_. id)\<rparr>"

definition call_env :: "unit env" where
  "call_env = \<lparr>ev_rpc = (\<lambda>w _. (w, ReadClosed)), ev_now = 7, ev_queue = id, ev_lockErr = None, ev_pick = True,
     ev_ctxErr = None, ev_io = io_quiet, ev_audit = audit_sample, ev_compile = (\<lambda>_. None),
     ev_ticks = [], ev_gap1 = [], ev_gap2 = [], ev_alive = True, ev_wakes = [], ev_secret = (\<lambda>_. Inr ''pw''), ev_keys = [],
     ev_order = [], ev_settle = (0, [])\<rparr>"

abbreviation on_session :: "bytes \<Rightarrow> SessionIDParams" where
  "on_session ID \<equiv> \<lparr>sd_SessionID = ID\<rparr>"

lemma world_sample_facts:
  "m_sessions (wd_mgr world_sample) ''p1'' = Some 1" "m_sessionLocks (wd_mgr world_sample) = Map.empty"
  "m_pendingSecrets (wd_mgr world_sample) = Map.empty" "wd_heap world_sample 1 = SerialS serial_sample"
  "held world_sample = {}"
  by (simp_all add: world_sample_def Add_def NewManager_def maxSessions_def held_def locks_of_def)

lemma fetch_sample: "\<exists>m. fetch call_env ''p1'' world_sample = (set_mgr world_sample m, Inr 1)
    \<and> m_sessions m ''p1'' = Some 1 \<and> m_sessionLocks m = Map.empty \<and> m_pendingSecrets m = Map.empty"
  using world_sample_facts by (auto simp: fetch_def Get_def call_env_def split: option.split)

lemma succeed_eq: "succeed x = Returns (fst x, case snd x of None \<Rightarrow> Inr Success | Some err \<Rightarrow> Inl err)"
  by (auto simp: succeed_def split: prod.split option.split)


text \<open>No orphans: when one of the creating handlers fails after the session came up (cancelled during the
  handshake, registry full, cancelled while registering), the session has been closed and the registry is what
  it was before; when it succeeds, the session is registered under the identifier it answers and still as it
  came up.\<close>

theorem register_session_no_orphan:
  assumes "sess_ok obj" and "m_sessions (wd_mgr w) (sess_ID obj) = None"
    and "register_session e ctx1 ctx2 s obj target w = (w', r)"
  shows "case r of
      Inl err \<Rightarrow> \<not> sess_IsAlive (wd_heap w' s) \<and> m_sessions (wd_mgr w') = m_sessions (wd_mgr w)
        \<and> (\<exists>net. wd_heap w' s = fst (sess_Close (ev_rpc e) (ev_io e) obj net))
    | Inr res \<Rightarrow> res = Created (sess_ID obj) (sess_Type obj) target \<and> wd_heap w' s = obj
        \<and> m_sessions (wd_mgr w') = (m_sessions (wd_mgr w))(sess_ID obj \<mapsto> s)"
proof -
  let ?w = "set_obj w s obj (wd_net w)"
  have closed: "\<not> sess_IsAlive (wd_heap (fst (obj_Close e s v)) s) \<and> wd_mgr (fst (obj_Close e s v)) = wd_mgr v
      \<and> (\<exists>net. wd_heap (fst (obj_Close e s v)) s = fst (sess_Close (ev_rpc e) (ev_io e) obj net))"
    if "wd_heap v s = obj" for v :: "'a world"
  proof -
    obtain obj' net' err where c: "sess_Close (ev_rpc e) (ev_io e) obj (wd_net v) = (obj', net', err)" by (cases rule: prod_cases3)
    with that sess_close_kills [OF assms(1) c] show ?thesis
      by (auto simp: obj_Close_def intro!: exI [of _ "wd_net v"])
  qed
  show ?thesis
  proof (cases ctx1)
    case (Some err)
    with assms(3) closed [of ?w] show ?thesis by (auto simp: register_session_def Let_def)
  next
    case None
    obtain m err where a: "Add (ev_now e) target (sess_ID obj) (sess_Type obj) s (wd_mgr w) = (m, err)" by fastforce
    show ?thesis
    proof (cases err)
      case (Some er)
      with a have "m = wd_mgr w" by (auto simp: Add_def split: if_splits)
      with None a Some assms(3) closed [of "set_mgr ?w m"] show ?thesis by (auto simp: register_session_def Let_def)
    next
      case ok: None
      with a have m: "m_sessions m = (m_sessions (wd_mgr w))(sess_ID obj \<mapsto> s)"
        by (auto simp: Add_def split: if_splits)
      show ?thesis
      proof (cases ctx2)
        case (Some er)
        have "m_sessions (remove (sess_ID obj) m) = m_sessions (wd_mgr w)"
          using m assms(2) by (auto simp: remove_def fun_eq_iff map_delete_def)
        with None a ok Some m assms(3) closed [of "set_mgr ?w (clearSecret (sess_ID obj) (remove (sess_ID obj) m))"]
        show ?thesis
          by (auto simp: register_session_def Let_def mgr_Close_def Close_def clearSecret_def set_mgr_def set_obj_def)
      next
        case n2: None
        with None a ok m assms(3) show ?thesis by (auto simp: register_session_def Let_def)
      qed
    qed
  qed
qed

lemma register_session_no_orphan_witness:
  "\<exists>w'. register_session call_env None (Some Canceled) 2 (SSHS ssh_sample) ''me@host'' world_sample = (w', Inl Canceled)
     \<and> \<not> sess_IsAlive (wd_heap w' 2) \<and> m_sessions (wd_mgr w') = [''p1'' \<mapsto> 1]"
proof -
  obtain w' r where r: "register_session call_env None (Some Canceled) 2 (SSHS ssh_sample) ''me@host'' world_sample
      = (w', r)" by fastforce
  have 1: "sess_ok (SSHS ssh_sample)" "m_sessions (wd_mgr world_sample) (sess_ID (SSHS ssh_sample)) = None"
    by (simp_all add: ssh_ok_def ssh_sample_def world_sample_def Add_def NewManager_def maxSessions_def)
  have 2: "m_sessions (wd_mgr world_sample) = [''p1'' \<mapsto> 1]"
    by (simp add: world_sample_def Add_def NewManager_def maxSessions_def)
  have "r = Inl Canceled"
    using r 2 by (simp add: register_session_def Let_def Add_def maxSessions_def ssh_sample_def)
  with register_session_no_orphan [OF 1 r] r 2 show ?thesis by auto
qed


text \<open>The wait before the secret ends and only adds the output that arrived to the buffer.\<close>

lemma waitForSettle_loop_holds:
  "holds h rb \<Longrightarrow> \<exists>rb' n. waitForSettle_loop deadline settle lst lastChange rb qs = Some rb'
     \<and> holds (h @ arrived (take n qs)) rb' \<and> rb_mark rb' = rb_mark rb"
proof (induction qs arbitrary: h lst lastChange rb)
  case Nil
  then show ?case by (auto simp: arrived_def)
next
  case (Cons q qs)
  obtain rb1 where 1: "arrive rb (t_arrivals q) = Some rb1" "holds (h @ concat (t_arrivals q)) rb1" "rb_mark rb1 = rb_mark rb"
    using arrive_holds [OF Cons.prems] by blast
  have stop: "\<exists>n. holds (h @ arrived (take n (q # qs))) rb1"
    using 1(2) by (intro exI [of _ 1]) (simp add: arrived_def)
  have stay: "\<exists>n. holds (h @ arrived (take n (q # qs))) rb"
    using Cons.prems by (intro exI [of _ 0]) (simp add: arrived_def)
  have more: "\<exists>n. holds (h @ arrived (take n (q # qs))) rb'" if "holds ((h @ concat (t_arrivals q)) @ arrived (take n qs)) rb'" for rb' n
    using that by (intro exI [of _ "Suc n"]) (simp add: arrived_def)
  show ?case
    using 1(1,3) stop stay more Cons.IH [OF 1(2)] by (auto simp: Let_def) blast+
qed

lemma waitForSettle_holds:
  assumes "holds h rb"
  obtains rb' n where "waitForSettle t rb settleMs maxWaitMs = Some rb'" "holds (h @ arrived (take n (snd t))) rb'"
    "rb_mark rb' = rb_mark rb"
proof (cases t)
  case (Pair start qs)
  from waitForSettle_loop_holds [OF assms, of "start + maxWaitMs" settleMs "Snapshot rb" start qs] that Pair
  show thesis by (auto simp: waitForSettle_def)
qed


lemma fetch_lockedE:
  assumes "ev_lockErr e = None" and "fetch e ID w = (w1, Inr s0)" and "m_sessions (wd_mgr (queued e ID w)) ID = Some s"
    and "fetch_locked e ID w body = Returns (w', r)"
  obtains m v where "body s (set_mgr (queued e ID w) m) = Returns (v, r)"
    "w' = set_mgr v (UnlockSession ID (wd_mgr v))"
    "m_sessions m = m_sessions (wd_mgr (queued e ID w))"
    "m_pendingSecrets m = m_pendingSecrets (wd_mgr (queued e ID w))"
proof -
  let ?w = "queued e ID w"
  let ?m = "wd_mgr ?w\<lparr>m_sessionLocks := (m_sessionLocks (wd_mgr ?w))(ID \<mapsto> True)\<rparr>"
  have l: "LockSession None (ev_pick e) ID (wd_mgr ?w) = Some (?m, None)"
    using assms by (auto simp: fetch_locked_def locked_def Let_def queued_def LockSession_def sessionLockChan_def
        split: option.splits if_splits)
  obtain m where g: "Get (ev_now e) ID ?m = (m, Inr s)" "m_sessions m = m_sessions (wd_mgr ?w)"
      "m_pendingSecrets m = m_pendingSecrets (wd_mgr ?w)"
    using assms(3) by (cases "m_infos ?m ID") (auto simp: Get_def)
  have "fetch e ID (set_mgr ?w ?m) = (set_mgr ?w m, Inr s)"
    using g(1) by (simp add: fetch_def set_mgr_def)
  with assms l have "(case body s (set_mgr ?w m) of Panics \<Rightarrow> Panics | StillWaiting \<Rightarrow> StillWaiting
      | Returns (w, r) \<Rightarrow> Returns (set_mgr w (UnlockSession ID (wd_mgr w)), r)) = Returns (w', r)"
    by (simp add: fetch_locked_def locked_def Let_def queued_def)
  with that [of m] g show thesis by (auto split: run.splits)
qed

text \<open>An abandoned password dialog has no effect: when the caller has cancelled by the time the operator answers,
  or the operator declines, \<open>prepare_secret\<close> stages nothing and \<open>send_secret\<close> without a staged
  secret types nothing; both report the error, and the sessions, the far end and the staged secrets are as they
  were when the call's turn came.\<close>

theorem abandoned_dialog_no_effect:
  assumes "(case ev_secret e (secret_prompt prompt) of Inl err \<Rightarrow> Some err | Inr _ \<Rightarrow> ev_ctxErr e) = Some err"
    and "ev_lockErr e = None"
    and "run_call e c w = Returns (w', r)"
    and "c = C_PrepareSecret \<lparr>pr_SessionID = ID, pr_Prompt = prompt, pr_LineEnding = ending\<rparr>
      \<or> c = C_SendSecret \<lparr>sn_SessionID = ID, sn_Prompt = prompt\<rparr> \<and> m_pendingSecrets (wd_mgr (queued e ID w)) ID = None"
    and "fetch e ID w = (w1, Inr s)" and "m_sessions (wd_mgr (queued e ID w)) ID = Some s"
  shows "r = Inl err \<and> wd_heap w' = wd_heap (queued e ID w) \<and> wd_net w' = wd_net (queued e ID w)
    \<and> m_pendingSecrets (wd_mgr w') = m_pendingSecrets (wd_mgr (queued e ID w))
    \<and> m_sessions (wd_mgr w') = m_sessions (wd_mgr (queued e ID w))"
proof -
  let ?w = "queued e ID w"
  have frame: "wd_heap (set_mgr v (UnlockSession ID k)) = wd_heap v \<and> wd_net (set_mgr v (UnlockSession ID k)) = wd_net v
      \<and> m_pendingSecrets (UnlockSession ID k) = m_pendingSecrets k \<and> m_sessions (UnlockSession ID k) = m_sessions k"
    for v :: "'a world" and k
    by (auto simp: UnlockSession_def sessionLockChan_def split: option.split)
  from assms(4) show ?thesis
  proof
    assume c: "c = C_PrepareSecret \<lparr>pr_SessionID = ID, pr_Prompt = prompt, pr_LineEnding = ending\<rparr>"
    from assms(3) [unfolded c run_call.simps PrepareSecret_def Let_def PrepareSecretParams.simps]
    obtain m v where m: "w' = set_mgr v (UnlockSession ID (wd_mgr v))"
      "m_sessions m = m_sessions (wd_mgr ?w)" "m_pendingSecrets m = m_pendingSecrets (wd_mgr ?w)"
      and b: "v = set_mgr ?w m" "r = Inl err"
    proof (rule fetch_lockedE [OF assms(2,5,6)], goal_cases)
      case (1 m v)
      from 1(2) assms(1) have "v = set_mgr ?w m" "r = Inl err" by (auto split: sum.splits)
      with 1 show thesis by blast
    qed
    with frame [of v "wd_mgr v"] show ?thesis by simp
  next
    assume c: "c = C_SendSecret \<lparr>sn_SessionID = ID, sn_Prompt = prompt\<rparr> \<and> m_pendingSecrets (wd_mgr ?w) ID = None"
    from assms(3) [unfolded c [THEN conjunct1] run_call.simps SendSecret_def SendSecretParams.simps]
    obtain m v where m: "w' = set_mgr v (UnlockSession ID (wd_mgr v))"
      "m_sessions m = m_sessions (wd_mgr ?w)" "m_pendingSecrets m = m_pendingSecrets (wd_mgr ?w)"
      and b: "v = set_mgr ?w m" "r = Inl err"
    proof (rule fetch_lockedE [OF assms(2,5,6)], goal_cases)
      case (1 m v)
      have "TakeSecret ID m = (m, None)" using c 1(5) by (simp add: TakeSecret_def)
      with 1(2) assms(1) have "v = set_mgr ?w m" "r = Inl err"
        by (auto simp: send_secret_body_def set_mgr_def split: sum.splits)
      with 1 show thesis by blast
    qed
    with frame [of v "wd_mgr v"] show ?thesis by simp
  qed
qed

lemma abandoned_dialog_no_effect_witness:
  "\<exists>w' r. run_call (call_env\<lparr>ev_ctxErr := Some Canceled\<rparr>) (C_SendSecret \<lparr>sn_SessionID = ''p1'', sn_Prompt = []\<rparr>) world_sample = Returns (w', r)
     \<and> r = Inl Canceled \<and> wd_heap w' = wd_heap world_sample"
proof -
  let ?e = "call_env\<lparr>ev_ctxErr := Some Canceled\<rparr>"
  have same: "fetch ?e ''p1'' v = fetch call_env ''p1'' v" for v by (simp add: fetch_def call_env_def)
  obtain m where m: "fetch ?e ''p1'' world_sample = (set_mgr world_sample m, Inr 1)"
      "m_sessions m ''p1'' = Some 1" "m_sessionLocks m = Map.empty" "m_pendingSecrets m = Map.empty"
    using fetch_sample by (auto simp: same)
  have q: "queued ?e ''p1'' world_sample = set_mgr world_sample m"
    using m(1) by (simp add: queued_def call_env_def)
  obtain m2 where m2: "fetch ?e ''p1'' (set_mgr (set_mgr world_sample m) (m\<lparr>m_sessionLocks := [''p1'' \<mapsto> True]\<rparr>))
      = (set_mgr world_sample m2, Inr 1)" "m_pendingSecrets m2 = Map.empty"
    using m by (cases "m_infos m ''p1''") (auto simp: fetch_def Get_def set_mgr_def)
  obtain w' r where r: "run_call ?e (C_SendSecret \<lparr>sn_SessionID = ''p1'', sn_Prompt = []\<rparr>) world_sample = Returns (w', r)"
    using m m2 by (auto simp: SendSecret_def send_secret_body_def fetch_locked_def locked_def Let_def call_env_def LockSession_def
        sessionLockChan_def TakeSecret_def)
  have "r = Inl Canceled \<and> wd_heap w' = wd_heap (queued ?e ''p1'' world_sample)"
    using abandoned_dialog_no_effect [OF _ _ r, of "[]" Canceled "''p1''" "[]" "set_mgr world_sample m" 1] m q
    by (simp add: call_env_def)
  with r q show ?thesis by simp
qed

section \<open>What is reported of a command\<close>

lemma SendInput_cases:
  assumes "SendInput e p w = Returns (w', r)"
  obtains (refused) err where "r = Inl err" "wd_heap w' = wd_heap w \<and> wd_net w' = wd_net w \<and> reports_of w' = reports_of w
        \<or> wd_heap w' = wd_heap (queued e (si_SessionID p) w) \<and> wd_net w' = wd_net (queued e (si_SessionID p) w)
          \<and> reports_of w' = reports_of (queued e (si_SessionID p) w)"
  | (ran) s m ms w1 where "SendInput_body e p ms s (set_mgr (queued e (si_SessionID p) w) m) = Returns (w1, r)"
      "wd_heap w' = wd_heap w1" "wd_net w' = wd_net w1" "reports_of w' = reports_of w1"
proof -
  obtain w0 f where f: "fetch e (si_SessionID p) w = (w0, f)" by fastforce
  have w0: "wd_heap w0 = wd_heap w" "wd_net w0 = wd_net w" "reports_of w0 = reports_of w"
    using f by (auto simp: fetch_def reports_of_def split: prod.splits)
  show thesis
  proof (cases f)
    case (Inl err)
    with assms f w0 show thesis by (intro refused) (auto simp: SendInput_def Let_def)
  next
    case (Inr s)
    let ?q = "queued e (si_SessionID p) w"
    obtain ms where l: "locked e (si_SessionID p) w0 (SendInput_body e p ms s) = Returns (w', r)"
      using assms f Inr by (auto simp: SendInput_def Let_def)
    have q: "ev_queue e w0 = ?q" using f by (simp add: queued_def)
    obtain m err where k: "LockSession (ev_lockErr e) (ev_pick e) (si_SessionID p) (wd_mgr ?q) = Some (m, err)"
      using l q by (auto simp: locked_def Let_def split: option.splits)
    show thesis
    proof (cases err)
      case (Some er)
      with l k q show thesis by (intro refused) (auto simp: locked_def Let_def reports_of_def)
    next
      case None
      with l k q obtain w1 where "SendInput_body e p ms s (set_mgr ?q m) = Returns (w1, r)"
        "w' = set_mgr w1 (UnlockSession (si_SessionID p) (wd_mgr w1))"
        by (auto simp: locked_def Let_def split: run.splits)
      then show thesis by (intro ran) (auto simp: reports_of_def)
    qed
  qed
qed

lemma SendInput_run_reports:
  "SendInput_run e p ms s w = Returns (w', r) \<Longrightarrow> wd_audit w' = wd_audit w \<and> wd_posted w' = wd_posted w"
  using keepsD [OF reports.keeps_SendInput_run, of e p ms s w w' r] by (simp add: same_def reports_of_def)

text \<open>In strict mode nothing is typed that the collector has not acknowledged: \<open>send_input\<close> either fails and leaves
  every session as it was, or the last of its posts, all of the same entry with the redacted command, the user and
  the session, was answered with a status below 400.\<close>

theorem strict_audit_first:
  assumes "SendInput e p w = Returns (w', r)"
    and "wd_audit (queued e (si_SessionID p) w) = Some c" and "ac_URL c \<noteq> []" and "ac_Mode c = ''strict''"
  shows "((\<exists>err. r = Inl err)
        \<and> (wd_heap w' = wd_heap w \<and> wd_net w' = wd_net w
           \<or> wd_heap w' = wd_heap (queued e (si_SessionID p) w) \<and> wd_net w' = wd_net (queued e (si_SessionID p) w)))
    \<or> (\<exists>n st entry. au_post (ev_audit e) n = Answered st \<and> st < 400
        \<and> wd_posted w' = wd_posted (queued e (si_SessionID p) w) @ replicate (Suc n) (json_CmdEntry entry)
        \<and> ce_Cmd entry = Redact (si_Input p) \<and> ce_SessionID entry = si_SessionID p \<and> ce_User entry = ac_User c
        \<and> ce_CmdID entry = au_cmdID (ev_audit e) \<and> ce_Raw entry = si_Raw p)"
  using assms(1)
proof (cases rule: SendInput_cases)
  case (refused err)
  then show ?thesis by blast
next
  case (ran s m ms w1)
  let ?q = "set_mgr (queued e (si_SessionID p) w) m" and ?a = "ev_audit e"
  let ?entry = "(cmd_entry e p s c ?q)\<lparr>ce_Cmd := Redact (si_Input p)\<rparr>"
  obtain n slept perr where post: "postWithRetry (au_post ?a) = (n, slept, perr)" by (cases "postWithRetry (au_post ?a)")
  note bounded = postWithRetry_spec [OF post]
  have "ce_Cmd (cmd_entry e p s c ?q) = si_Input p" by (simp add: cmd_entry_def Let_def)
  then have cmd: "audit_cmd e p s ?q = (?q\<lparr>wd_audit := Some c, wd_posted := wd_posted ?q @ replicate n (json_CmdEntry ?entry)\<rparr>,
      map_option post_go_error perr)"
    using assms(2-4) post by (simp add: audit_cmd_def Let_def SendCmd_def)
  show ?thesis
  proof (cases perr)
    case (Some er)
    with cmd ran(1) have "r = Inl (Wrap ''audit'' (post_go_error er))" "wd_heap w1 = wd_heap ?q" "wd_net w1 = wd_net ?q"
      by (auto simp: SendInput_body_def)
    with ran(2,3) show ?thesis by simp
  next
    case None
    from bounded None have n: "1 \<le> n" "ac_post (au_post ?a (n - 1)) = None" by simp_all
    from n(2) obtain st where st: "au_post ?a (n - 1) = Answered st" "st < 400"
      by (auto simp: ac_post_def split: post_outcome.splits if_splits)
    from cmd ran(1) None have "wd_posted w1 = wd_posted ?q @ replicate n (json_CmdEntry ?entry)"
      by (auto simp: SendInput_body_def audit_frame dest: SendInput_run_reports split: run.splits)
    with ran(4) n(1) have "wd_posted w' = wd_posted (queued e (si_SessionID p) w) @ replicate (Suc (n - 1)) (json_CmdEntry ?entry)"
      by (simp add: reports_of_def)
    moreover have "ce_Cmd ?entry = Redact (si_Input p) \<and> ce_SessionID ?entry = si_SessionID p \<and> ce_User ?entry = ac_User c
        \<and> ce_CmdID ?entry = au_cmdID ?a \<and> ce_Raw ?entry = si_Raw p"
      by (simp add: cmd_entry_def Let_def)
    ultimately show ?thesis using st by blast
  qed
qed

definition strict_world :: "unit world" where
  "strict_world = world_sample\<lparr>wd_audit := Some (NewClient ''http://c'' ''ray'' ''t'' ''strict'')\<rparr>"

definition input_sample :: SendInputParams where
  "input_sample = \<lparr>si_SessionID = ''p1'', si_Input = ''reboot'', si_TimeoutMs = 0, si_Raw = False, si_WaitFor = [],
     si_WaitForTimeoutMs = 0\<rparr>"

lemma strict_audit_first_witness:
  "\<exists>w' r. SendInput (call_env\<lparr>ev_audit := audit_sample\<lparr>au_post := (\<lambda>_. Answered 500)\<rparr>\<rparr>) input_sample strict_world = Returns (w', r)
     \<and> (\<exists>err. r = Inl err) \<and> wd_heap w' = wd_heap strict_world"
proof -
  let ?e = "call_env\<lparr>ev_audit := audit_sample\<lparr>au_post := (\<lambda>_. Answered 500)\<rparr>\<rparr>"
  let ?c = "NewClient ''http://c'' ''ray'' ''t'' ''strict''"
  have g: "\<exists>m. fetch ?e ''p1'' strict_world = (set_mgr strict_world m, Inr 1)"
    using world_sample_facts(1) by (auto simp: fetch_def Get_def strict_world_def call_env_def split: option.split)
  then obtain m where m: "fetch ?e ''p1'' strict_world = (set_mgr strict_world m, Inr 1)" by blast
  then have m': "m_sessionLocks m = Map.empty"
    using locks.fetched [of strict_world ?e "''p1''"] world_sample_facts(2)
    by (simp add: same_def locks_of_def strict_world_def)
  have q: "queued ?e ''p1'' strict_world = set_mgr strict_world m" using m by (simp add: queued_def call_env_def)
  have c: "wd_audit strict_world = Some ?c" "ac_URL ?c \<noteq> []" "ac_Mode ?c = ''strict''"
    by (simp_all add: strict_world_def NewClient_def)
  have p: "postWithRetry (\<lambda>_. Answered 500) = (4, 7000, Some (httpStatusError 500))" by code_simp
  then have a: "\<exists>u x. audit_cmd ?e input_sample 1 (set_mgr strict_world k) = (u, Some x)" for k
    using c by (auto simp: audit_cmd_def SendCmd_def Let_def audit_sample_def)
  obtain w' r where r: "SendInput ?e input_sample strict_world = Returns (w', r)"
    using m m' a [of "m\<lparr>m_sessionLocks := [''p1'' \<mapsto> True]\<rparr>"]
    by (auto simp: SendInput_def Let_def input_sample_def locked_def call_env_def LockSession_def sessionLockChan_def
        SendInput_body_def set_mgr_def)
  have q': "wd_audit (queued ?e (si_SessionID input_sample) strict_world) = Some ?c"
      "wd_heap (queued ?e (si_SessionID input_sample) strict_world) = wd_heap strict_world"
    using q c by (simp_all add: input_sample_def)
  from strict_audit_first [OF r q'(1) c(2,3)] r q'(2) show ?thesis by (auto simp: audit_sample_def)
qed


lemma input_sample_run:
  assumes "wd_heap v 1 = SerialS serial_sample" and "m_pendingSecrets (wd_mgr v) = Map.empty"
  shows "\<exists>u x. SendInput_run call_env input_sample 5000 1 v = Returns (u, Inr x)"
proof -
  have "case sess_Write (ev_rpc call_env) io_quiet (SerialS serial_sample) () ''reboot'' of
      (obj, _, None) \<Rightarrow> (case sess_ReadScreen (ev_rpc call_env) io_quiet obj () False 5000 of Some _ \<Rightarrow> True | None \<Rightarrow> False)
    | _ \<Rightarrow> False" by code_simp
  then obtain obj obj' out fin where "sess_Write (ev_rpc call_env) io_quiet (SerialS serial_sample) () ''reboot'' = (obj, (), None)"
    "sess_ReadScreen (ev_rpc call_env) io_quiet obj () False 5000 = Some (obj', (), out, fin)"
    by (auto split: prod.splits option.splits)
  with assms show ?thesis
    by (simp add: SendInput_run_def input_sample_def Let_def obj_Write_def set_obj_def call_env_def read_reply_def
        obj_ReadScreen_def auto_send_def maybeAutoSendSecret_def TakeSecret_def set_mgr_def)
qed

lemma SendInput_sample:
  assumes "wd_mgr w0 = wd_mgr world_sample" and "wd_heap w0 = wd_heap world_sample"
    and "\<And>m. snd (audit_cmd call_env input_sample 1 (set_mgr w0 m)) = None"
  obtains w' r where "SendInput call_env input_sample w0 = Returns (w', Inr r)"
proof -
  obtain m where m: "fetch call_env ''p1'' w0 = (set_mgr w0 m, Inr 1)" "m_sessionLocks m = Map.empty" "m_pendingSecrets m = Map.empty"
    using world_sample_facts assms(1)
    by (cases "m_infos (wd_mgr world_sample) ''p1''") (auto simp: fetch_def Get_def call_env_def)
  let ?m = "m\<lparr>m_sessionLocks := [''p1'' \<mapsto> True]\<rparr>"
  obtain v where v: "audit_cmd call_env input_sample 1 (set_mgr w0 ?m) = (v, None)"
    using assms(3) [of ?m] by (metis prod.collapse)
  have "wd_heap v 1 = SerialS serial_sample" "m_pendingSecrets (wd_mgr v) = Map.empty"
    using audit_frame(1,2) [of call_env input_sample 1 "set_mgr w0 ?m"] v m(3) assms(2) world_sample_facts(4) by simp_all
  from input_sample_run [OF this] v obtain u x where "SendInput_body call_env input_sample 5000 1 (set_mgr w0 ?m) = Returns (u, Inr x)"
    by (auto simp: SendInput_body_def)
  then have "\<exists>w' r. SendInput call_env input_sample w0 = Returns (w', Inr r)"
    using m(1,2)
    by (auto simp: SendInput_def Let_def input_sample_def locked_def call_env_def LockSession_def sessionLockChan_def set_mgr_def)
  with that show thesis by blast
qed

definition audited_world :: "unit world" where
  "audited_world = world_sample\<lparr>wd_audit := Some (NewClient ''http://c'' ''ray'' ''t'' ''best-effort'')\<rparr>"


end
