(* ===== verification/Mcp_Server.thy ===== *)
theory Mcp_Server
  imports Handlers
begin

text \<open>
  \<open>internal/mcp/server.go\<close>: JSON-RPC requests, the registry of those in flight, and the stdio
  server loop. Requests keep the text of their identifier, so a JSON document is modelled with the text of
  each of its values. The loop is a step function: its event says which goroutine moves and, for the
  reader, which line came in; the reachable states are those of all interleavings. A handler's effect on the
  world happens in one step. The wire form of a response is the library's.
\<close>

section \<open>Documents and requests\<close>

datatype raw = RVal (raw_text: bytes) json | RArr (raw_text: bytes) "raw list" | RObj (raw_text: bytes) "(bytes \<times> raw) list"

primrec raw_json :: "raw \<Rightarrow> json" where
  "raw_json (RVal t v) = v"
| "raw_json (RArr t xs) = JArr (map raw_json xs)"
| "raw_json (RObj t fs) = JObj (map (map_prod id raw_json) fs)"

fun raw_members :: "raw \<Rightarrow> (bytes \<times> raw) list result" where
  "raw_members (RObj t fs) = Inr fs"
| "raw_members (RVal t JNull) = Inr []"
| "raw_members r = Inl (type_error [] (raw_json r) ''struct'')"

text \<open>A \<open>json.RawMessage\<close> member: its text, empty when it is absent.\<close>

definition raw_at :: "bytes \<Rightarrow> (bytes \<times> raw) list \<Rightarrow> bytes" where
  "raw_at name fs = (case field name fs of None \<Rightarrow> [] | Some r \<Rightarrow> raw_text r)"

record request =
  q_JSONRPC :: bytes
  q_ID :: bytes
  q_Method :: bytes
  q_Params :: "raw option"

definition parse_request :: "raw \<Rightarrow> request result" where
  "parse_request r =
     bind_result (raw_members r) (\<lambda>fs.
     bind_result (get_string ''jsonrpc'' (map (map_prod id raw_json) fs)) (\<lambda>v.
     bind_result (get_string ''method'' (map (map_prod id raw_json) fs)) (\<lambda>m.
     Inr \<lparr>q_JSONRPC = v, q_ID = raw_at ''id'' fs, q_Method = m, q_Params = field ''params'' fs\<rparr>)))"

datatype reply_value = InitializeResult bytes | ToolsResult | TextResult json bool

record response =
  p_JSONRPC :: bytes
  p_ID :: bytes
  p_Result :: "reply_value option"
  p_Error :: "(int \<times> bytes) option"

section \<open>Requests in flight\<close>

text \<open>
  An entry is a reference; whether it is cancelled is a field of the entry, and its context is cancelled
  together with it.
\<close>

record inflight =
  if_entries :: "bytes \<Rightarrow> nat list"
  if_cancelled :: "nat set"

definition newInflightRegistry :: inflight where
  "newInflightRegistry = \<lparr>if_entries = (\<lambda>_. []), if_cancelled = {}\<rparr>"

definition if_add :: "bytes \<Rightarrow> nat \<Rightarrow> inflight \<Rightarrow> inflight" where
  "if_add key n r = r\<lparr>if_entries := (if_entries r)(key := if_entries r key @ [n])\<rparr>"

definition if_cancel :: "bytes \<Rightarrow> inflight \<Rightarrow> inflight" where
  "if_cancel key r = r\<lparr>if_cancelled := if_cancelled r \<union> set (if_entries r key)\<rparr>"

definition if_finish :: "bytes \<Rightarrow> nat \<Rightarrow> inflight \<Rightarrow> inflight \<times> bool" where
  "if_finish key n r =
     (r\<lparr>if_entries := (if_entries r)(key := remove1 n (if_entries r key))\<rparr>, n \<in> if_cancelled r)"

text \<open>The key a cancellation names; \<open>None\<close> when it names none.\<close>

definition cancel_key :: "raw option \<Rightarrow> bytes option" where
  "cancel_key params =
     (case params of
        None \<Rightarrow> None
      | Some r \<Rightarrow>
          (case raw_members r of
             Inl _ \<Rightarrow> None
           | Inr fs \<Rightarrow>
               (let key = (if raw_at ''requestId'' fs = [] then raw_at ''id'' fs else raw_at ''requestId'' fs)
                in if key = [] \<or> key = ''null'' then None else Some key)))"

definition handleCancellation :: "raw option \<Rightarrow> inflight \<Rightarrow> inflight" where
  "handleCancellation params r = (case cancel_key params of None \<Rightarrow> r | Some key \<Rightarrow> if_cancel key r)"

definition is_cancellation :: "request \<Rightarrow> bool" where
  "is_cancellation req \<longleftrightarrow> q_Method req = ''notifications/cancelled'' \<or> q_Method req = ''$/cancelRequest''"

section \<open>Answering a request\<close>

definition serverProtocolVersion :: bytes where "serverProtocolVersion = ''2025-11-25''"

definition supportedProtocolVersions :: "bytes list" where
  "supportedProtocolVersions = [''2025-11-25'', ''2025-06-18'', ''2025-03-26'', ''2024-11-05'', ''2024-10-07'']"

definition negotiateProtocolVersion :: "raw option \<Rightarrow> bytes" where
  "negotiateProtocolVersion params =
     (let v = (case params of
                 None \<Rightarrow> []
               | Some r \<Rightarrow>
                   (case bind_result (members (raw_json r)) (get_string ''protocolVersion'') of Inl _ \<Rightarrow> [] | Inr v \<Rightarrow> v))
      in if v \<in> set supportedProtocolVersions then v else serverProtocolVersion)"

datatype tool = T_CreateSSHSession | T_CreateLocalSession | T_CreateSerialSession | T_SendInput | T_ReadOutput
  | T_PrepareSecret | T_SendSecret | T_SendControl | T_GetSessionState | T_ListSessions | T_ListRemoteSessions
  | T_CloseSession | T_DetachSession | T_ResizeSession | T_GetCredentialBundle | T_InjectSecret

text \<open>The advertised tools: name, properties with their JSON type, and the required ones; descriptions left out.\<close>

definition log_props :: "(bytes \<times> bytes) list" where
  "log_props = [(''log_file'', ''string''), (''log_max_size'', ''integer''), (''log_max_files'', ''integer'')]"

definition toolsList :: "(bytes \<times> (bytes \<times> bytes) list \<times> bytes list) list" where
  "toolsList =
    [(''create_ssh_session'',
       [(''host'', ''string''), (''port'', ''string''), (''user'', ''string''), (''password'', ''string''),
        (''key_path'', ''string''), (''ignore_host_key'', ''boolean''), (''persistent'', ''boolean''),
        (''command'', ''string''), (''session_id'', ''string'')] @ log_props, [''host'', ''user'']),
     (''create_local_session'', (''command'', ''string'') # log_props, []),
     (''create_serial_session'', [(''device'', ''string''), (''baud_rate'', ''integer'')] @ log_props, [''device'']),
     (''send_input'',
       [(''session_id'', ''string''), (''input'', ''string''), (''timeout_ms'', ''integer''), (''raw'', ''boolean''),
        (''wait_for'', ''string''), (''wait_for_timeout'', ''number'')], [''session_id'', ''input'']),
     (''read_output'',
       [(''session_id'', ''string''), (''timeout'', ''number''), (''since_cursor'', ''integer''),
        (''max_bytes'', ''integer''), (''wait_for'', ''string''), (''context_lines'', ''integer''),
        (''tail_lines'', ''integer'')], [''session_id'']),
     (''prepare_secret'', [(''session_id'', ''string''), (''prompt'', ''string''), (''line_ending'', ''string'')],
       [''session_id'']),
     (''send_secret'', [(''session_id'', ''string''), (''prompt'', ''string'')], [''session_id'']),
     (''send_control'', [(''session_id'', ''string''), (''key'', ''string'')], [''session_id'', ''key'']),
     (''get_session_state'', [(''session_id'', ''string'')], [''session_id'']),
     (''list_sessions'', [], []),
     (''list_remote_sessions'',
       [(''host'', ''string''), (''port'', ''string''), (''user'', ''string''), (''password'', ''string''),
        (''key_path'', ''string''), (''ignore_host_key'', ''boolean''), (''status'', ''string'')], [''host'', ''user'']),
     (''close_session'', [(''session_id'', ''string'')], [''session_id'']),
     (''detach_session'', [(''session_id'', ''string'')], [''session_id'']),
     (''resize_session'', [(''session_id'', ''string''), (''rows'', ''integer''), (''cols'', ''integer'')],
       [''session_id'', ''rows'', ''cols'']),
     (''get_credential_bundle'', [(''consumer_id'', ''string''), (''ttl_seconds'', ''integer'')], []),
     (''inject_secret'', [(''pty_session_id'', ''string''), (''sealed_box'', ''object'')],
       [''pty_session_id'', ''sealed_box''])]"

definition tool_of :: "bytes \<Rightarrow> tool option" where
  "tool_of name = map_of
     [(''create_ssh_session'', T_CreateSSHSession), (''create_local_session'', T_CreateLocalSession),
      (''create_serial_session'', T_CreateSerialSession), (''send_input'', T_SendInput),
      (''read_output'', T_ReadOutput), (''prepare_secret'', T_PrepareSecret), (''send_secret'', T_SendSecret),
      (''send_control'', T_SendControl), (''get_session_state'', T_GetSessionState),
      (''list_sessions'', T_ListSessions), (''list_remote_sessions'', T_ListRemoteSessions),
      (''close_session'', T_CloseSession), (''detach_session'', T_DetachSession),
      (''resize_session'', T_ResizeSession), (''get_credential_bundle'', T_GetCredentialBundle),
      (''inject_secret'', T_InjectSecret)] name"

definition contains :: "bytes \<Rightarrow> bytes list \<Rightarrow> bool" where
  "contains s substrs = list_ex (Contains s) substrs"

definition classifyError :: "go_error \<Rightarrow> bytes \<times> bytes \<times> bool" where
  "classifyError err =
     (case err of
        ToolError c m retryable \<Rightarrow> (c, m, retryable)
      | _ \<Rightarrow>
        let msg = ErrorMsg err
        in case unwrapped err of
             SessionNotFoundError _ \<Rightarrow> (''SESSION_NOT_FOUND'', msg, False)
           | SessionLimitError \<Rightarrow> (''SESSION_LIMIT_REACHED'', msg, True)
           | _ \<Rightarrow>
             if contains msg [''ssh: unable to authenticate'', ''ssh: handshake failed'', ''no supported methods remain'']
               then (''SSH_AUTH_FAILED'', msg, False)
             else if contains msg [''dial tcp'', ''connection refused'', ''no route to host'', ''i/o timeout'']
               then (''SSH_CONNECT_FAILED'', msg, True)
             else if contains msg [''serial'', ''no such file or directory''] \<and> contains msg [''/dev/'']
               then (''SERIAL_OPEN_FAILED'', msg, False)
             else if contains msg [''write to session'', ''broken pipe'', ''write:'']
               then (''WRITE_FAILED'', msg, False)
             else (''INTERNAL_ERROR'', msg, False))"

definition json_ToolError :: "bytes \<times> bytes \<times> bool \<Rightarrow> json" where
  "json_ToolError te = (case te of (c, m, retryable) \<Rightarrow>
     JObj [(''code'', Str c), (''message'', Str m), (''retryable'', JBool retryable)])"

definition errResp :: "bytes \<Rightarrow> int \<Rightarrow> bytes \<Rightarrow> response" where
  "errResp ID cd msg = \<lparr>p_JSONRPC = ''2.0'', p_ID = ID, p_Result = None, p_Error = Some (cd, msg)\<rparr>"

definition okResp :: "bytes \<Rightarrow> reply_value \<Rightarrow> response" where
  "okResp ID v = \<lparr>p_JSONRPC = ''2.0'', p_ID = ID, p_Result = Some v, p_Error = None\<rparr>"

text \<open>\<open>run\<close> is the handler of a tool, applied to the raw arguments.\<close>

definition handleToolCall ::
  "(tool \<Rightarrow> raw option \<Rightarrow> 'w \<Rightarrow> 'w \<times> json result) \<Rightarrow> request \<Rightarrow> 'w \<Rightarrow> 'w \<times> response" where
  "handleToolCall run req w =
     (case (case q_Params req of
              None \<Rightarrow> Inl (Errorf ''unexpected end of JSON input'')
            | Some r \<Rightarrow> bind_result (raw_members r) (\<lambda>fs.
                bind_result (get_string ''name'' (map (map_prod id raw_json) fs)) (\<lambda>n. Inr (n, field ''arguments'' fs)))) of
        Inl err \<Rightarrow> (w, errResp (q_ID req) (-32602) (ErrorMsg err))
      | Inr (name, args) \<Rightarrow>
          (case tool_of name of
             None \<Rightarrow> (w, errResp (q_ID req) (-32601) (''unknown tool: '' @ name))
           | Some t \<Rightarrow>
               (case run t args w of
                  (w, Inl err) \<Rightarrow> (w, okResp (q_ID req) (TextResult (json_ToolError (classifyError err)) True))
                | (w, Inr v) \<Rightarrow> (w, okResp (q_ID req) (TextResult v False)))))"

definition handle ::
  "(tool \<Rightarrow> raw option \<Rightarrow> 'w \<Rightarrow> 'w \<times> json result) \<Rightarrow> request \<Rightarrow> 'w \<Rightarrow> 'w \<times> response" where
  "handle run req w =
     (if q_Method req = ''initialize''
        then (w, okResp (q_ID req) (InitializeResult (negotiateProtocolVersion (q_Params req))))
      else if q_Method req = ''tools/list'' then (w, okResp (q_ID req) ToolsResult)
      else if q_Method req = ''tools/call'' then handleToolCall run req w
      else if q_Method req = ''notifications/initialized''
        then (w, \<lparr>p_JSONRPC = [], p_ID = [], p_Result = None, p_Error = None\<rparr>)
      else (w, errResp (q_ID req) (-32601) (''method not found: '' @ q_Method req)))"

section \<open>The server loop\<close>

definition maxConcurrentToolCalls :: nat where "maxConcurrentToolCalls = 32"

datatype line = Blank | Garbage | Doc raw

datatype stage = Spawned | Queued | Running | Replying response | Finished

record task =
  k_req :: request
  k_stage :: stage

text \<open>
  \<open>sv_tasks\<close> holds every request goroutine ever started, its index being the reference of its entry;
  \<open>sv_chan\<close> is \<open>respCh\<close> and \<open>sv_out\<close> what the writer has encoded to standard output, each
  response with the goroutine that sent it.
\<close>

record 'w serve =
  sv_inflight :: inflight
  sv_tasks :: "task list"
  sv_sem :: nat
  sv_chan :: "(nat \<times> response) list"
  sv_out :: "(nat \<times> response) list"
  sv_world :: 'w

definition serve_init :: "'w \<Rightarrow> 'w serve" where
  "serve_init w = \<lparr>sv_inflight = newInflightRegistry, sv_tasks = [], sv_sem = 0, sv_chan = [], sv_out = [],
     sv_world = w\<rparr>"

definition set_stage :: "nat \<Rightarrow> stage \<Rightarrow> 'w serve \<Rightarrow> 'w serve" where
  "set_stage n sg st = st\<lparr>sv_tasks := (sv_tasks st)[n := (sv_tasks st ! n)\<lparr>k_stage := sg\<rparr>]\<rparr>"

definition drop_entry :: "nat \<Rightarrow> 'w serve \<Rightarrow> 'w serve" where
  "drop_entry n st =
     (let ID = q_ID (k_req (sv_tasks st ! n))
      in if ID = [] then st else st\<lparr>sv_inflight := fst (if_finish ID n (sv_inflight st))\<rparr>)"

definition spawn :: "request \<Rightarrow> 'w serve \<Rightarrow> 'w serve" where
  "spawn req st = st\<lparr>
     sv_inflight := (if q_ID req = [] then sv_inflight st
                     else if_add (q_ID req) (length (sv_tasks st)) (sv_inflight st)),
     sv_tasks := sv_tasks st @ [\<lparr>k_req = req, k_stage = Spawned\<rparr>]\<rparr>"

definition read_line :: "line \<Rightarrow> 'w serve \<Rightarrow> 'w serve" where
  "read_line l st =
     (case l of
        Blank \<Rightarrow> st | Garbage \<Rightarrow> st
      | Doc r \<Rightarrow>
          (case parse_request r of
             Inl _ \<Rightarrow> st
           | Inr req \<Rightarrow>
               if is_cancellation req
               then st\<lparr>sv_inflight := handleCancellation (q_Params req) (sv_inflight st)\<rparr>
               else spawn req st))"

datatype event = ReadLine line | Check nat | Acquire nat | GiveUp nat | Complete nat | Send nat | Flush

definition stage_of :: "'w serve \<Rightarrow> nat \<Rightarrow> stage option" where
  "stage_of st n = (if n < length (sv_tasks st) then Some (k_stage (sv_tasks st ! n)) else None)"

definition is_cancelled :: "'w serve \<Rightarrow> nat \<Rightarrow> bool" where
  "is_cancelled st n \<longleftrightarrow> n \<in> if_cancelled (sv_inflight st)"

fun serve_step :: "(tool \<Rightarrow> raw option \<Rightarrow> 'w \<Rightarrow> 'w \<times> json result) \<Rightarrow> event \<Rightarrow> 'w serve \<Rightarrow> 'w serve option" where
  "serve_step run (ReadLine l) st = Some (read_line l st)"
| "serve_step run (Check n) st =
     (if stage_of st n = Some Spawned
      then Some (if is_cancelled st n then set_stage n Finished (drop_entry n st) else set_stage n Queued st)
      else None)"
| "serve_step run (Acquire n) st =
     (if stage_of st n = Some Queued \<and> sv_sem st < maxConcurrentToolCalls
      then Some ((set_stage n Running st)\<lparr>sv_sem := sv_sem st + 1\<rparr>) else None)"
| "serve_step run (GiveUp n) st =
     (if stage_of st n = Some Queued \<and> is_cancelled st n
      then Some (set_stage n Finished (drop_entry n st)) else None)"
| "serve_step run (Complete n) st =
     (if stage_of st n = Some Running
      then (let req = k_req (sv_tasks st ! n)
            in case handle run req (sv_world st) of
                 (w, resp) \<Rightarrow>
                   let st = st\<lparr>sv_world := w\<rparr>
                   in if q_ID req = [] \<or> is_cancelled st n
                      then Some ((set_stage n Finished (drop_entry n st))\<lparr>sv_sem := sv_sem st - 1\<rparr>)
                      else Some (set_stage n (Replying resp) (drop_entry n st)))
      else None)"
| "serve_step run (Send n) st =
     (case stage_of st n of
        Some (Replying resp) \<Rightarrow>
          if length (sv_chan st) < 64
          then Some ((set_stage n Finished st)\<lparr>sv_chan := sv_chan st @ [(n, resp)], sv_sem := sv_sem st - 1\<rparr>) else None
      | _ \<Rightarrow> None)"
| "serve_step run Flush st =
     (case sv_chan st of
        [] \<Rightarrow> None
      | r # rs \<Rightarrow> Some (st\<lparr>sv_chan := rs, sv_out := sv_out st @ [r]\<rparr>))"

inductive serve_reach :: "(tool \<Rightarrow> raw option \<Rightarrow> 'w \<Rightarrow> 'w \<times> json result) \<Rightarrow> 'w \<Rightarrow> 'w serve \<Rightarrow> bool"
  for run w0
where
  init: "serve_reach run w0 (serve_init w0)"
| step: "serve_reach run w0 st \<Longrightarrow> serve_step run e st = Some st' \<Longrightarrow> serve_reach run w0 st'"

section \<open>The accessors under a step\<close>

definition task_ID :: "'w serve \<Rightarrow> nat \<Rightarrow> bytes" where
  "task_ID st n = q_ID (k_req (sv_tasks st ! n))"

lemma set_stage_simps [simp]:
  "length (sv_tasks (set_stage n sg st)) = length (sv_tasks st)"
  "sv_inflight (set_stage n sg st) = sv_inflight st" "sv_sem (set_stage n sg st) = sv_sem st"
  "sv_chan (set_stage n sg st) = sv_chan st" "sv_out (set_stage n sg st) = sv_out st"
  "sv_world (set_stage n sg st) = sv_world st"
  by (simp_all add: set_stage_def)

lemma set_stage_req [simp]: "k_req (sv_tasks (set_stage n sg st) ! m) = k_req (sv_tasks st ! m)"
proof (cases "n < length (sv_tasks st)")
  case False
  then show ?thesis by (simp add: set_stage_def list_update_beyond)
qed (simp add: set_stage_def nth_list_update)

lemma set_stage_ID [simp]: "task_ID (set_stage n sg st) m = task_ID st m"
  by (simp add: task_ID_def)

lemma stage_of_set [simp]:
  "stage_of (set_stage n sg st) m = (if m = n \<and> n < length (sv_tasks st) then Some sg else stage_of st m)"
  by (auto simp: stage_of_def set_stage_def nth_list_update)

lemma drop_entry_simps [simp]:
  "sv_tasks (drop_entry n st) = sv_tasks st" "sv_sem (drop_entry n st) = sv_sem st"
  "sv_chan (drop_entry n st) = sv_chan st" "sv_out (drop_entry n st) = sv_out st"
  "sv_world (drop_entry n st) = sv_world st" "if_cancelled (sv_inflight (drop_entry n st)) = if_cancelled (sv_inflight st)"
  by (simp_all add: drop_entry_def Let_def if_finish_def)

lemma stage_of_cong:
  "sv_tasks st' = sv_tasks st \<Longrightarrow> stage_of st' = stage_of st" "sv_tasks st' = sv_tasks st \<Longrightarrow> task_ID st' = task_ID st"
  by (auto simp: stage_of_def task_ID_def fun_eq_iff)

lemma stage_of_less: "stage_of st n = Some sg \<Longrightarrow> n < length (sv_tasks st)"
  by (simp add: stage_of_def split: if_splits)

lemma spawn_simps [simp]:
  "length (sv_tasks (spawn req st)) = Suc (length (sv_tasks st))" "sv_sem (spawn req st) = sv_sem st"
  "sv_chan (spawn req st) = sv_chan st" "sv_out (spawn req st) = sv_out st"
  "if_cancelled (sv_inflight (spawn req st)) = if_cancelled (sv_inflight st)"
  "stage_of (spawn req st) m = (if m = length (sv_tasks st) then Some Spawned else stage_of st m)"
  "m < length (sv_tasks st) \<Longrightarrow> task_ID (spawn req st) m = task_ID st m"
  "m < length (sv_tasks st) \<Longrightarrow> k_req (sv_tasks (spawn req st) ! m) = k_req (sv_tasks st ! m)"
  "task_ID (spawn req st) (length (sv_tasks st)) = q_ID req"
  by (auto simp: spawn_def stage_of_def task_ID_def if_add_def nth_append)

section \<open>The invariant\<close>

fun waits_for_reply :: "stage \<Rightarrow> bool" where
  "waits_for_reply Spawned = True"
| "waits_for_reply Queued = True"
| "waits_for_reply Running = True"
| "waits_for_reply (Replying r) = False"
| "waits_for_reply Finished = False"

fun holds_slot :: "stage \<Rightarrow> bool" where
  "holds_slot Running = True"
| "holds_slot (Replying r) = True"
| "holds_slot sg = False"

definition holders :: "'w serve \<Rightarrow> nat set" where
  "holders st = {n. \<exists>sg. stage_of st n = Some sg \<and> holds_slot sg}"

definition in_flight :: "'w serve \<Rightarrow> bytes \<Rightarrow> nat \<Rightarrow> bool" where
  "in_flight st key n \<longleftrightarrow> (\<exists>sg. stage_of st n = Some sg \<and> waits_for_reply sg) \<and> task_ID st n = key"

definition sent :: "'w serve \<Rightarrow> (nat \<times> response) list" where
  "sent st = sv_out st @ sv_chan st"

definition answered :: "'w serve \<Rightarrow> nat \<Rightarrow> bool" where
  "answered st n \<longleftrightarrow> n \<in> fst ` set (sent st)"

text \<open>An answer carries the identifier of its request; \<open>notifications/initialized\<close> sent as a
  request is the exception.\<close>

definition answer_for :: "request \<Rightarrow> response \<Rightarrow> bool" where
  "answer_for req resp \<longleftrightarrow> p_ID resp = q_ID req \<or> q_Method req = ''notifications/initialized'' \<and> p_ID resp = []"

definition slots_ok :: "'w serve \<Rightarrow> bool" where
  "slots_ok st \<longleftrightarrow> sv_sem st = card (holders st) \<and> sv_sem st \<le> maxConcurrentToolCalls"

definition table_ok :: "'w serve \<Rightarrow> bool" where
  "table_ok st \<longleftrightarrow> (\<forall>key. if_entries (sv_inflight st) key =
     (if key = [] then [] else filter (in_flight st key) [0..<length (sv_tasks st)]))"

definition replies_ok :: "'w serve \<Rightarrow> bool" where
  "replies_ok st \<longleftrightarrow> distinct (map fst (sent st))
     \<and> (\<forall>n resp. (n, resp) \<in> set (sent st) \<longrightarrow>
          stage_of st n = Some Finished \<and> task_ID st n \<noteq> [] \<and> answer_for (k_req (sv_tasks st ! n)) resp)
     \<and> (\<forall>n resp. stage_of st n = Some (Replying resp) \<longrightarrow>
          task_ID st n \<noteq> [] \<and> \<not> is_cancelled st n \<and> answer_for (k_req (sv_tasks st ! n)) resp)
     \<and> (\<forall>n. is_cancelled st n \<longrightarrow> n < length (sv_tasks st) \<and> \<not> answered st n)
     \<and> (\<forall>n. stage_of st n = Some Finished \<longrightarrow> task_ID st n \<noteq> [] \<longrightarrow> is_cancelled st n \<or> answered st n)"

lemma holders_finite [simp]: "finite (holders st)"
  by (rule finite_subset [of _ "{..<length (sv_tasks st)}"]) (auto simp: holders_def dest: stage_of_less)

lemma holders_set_stage:
  "n < length (sv_tasks st) \<Longrightarrow>
    holders (set_stage n sg st) = (if holds_slot sg then insert n (holders st) else holders st - {n})"
  by (auto simp: holders_def split: if_splits)

lemma update_simps [simp]:
  "stage_of (st\<lparr>sv_sem := k\<rparr>) = stage_of st" "stage_of (st\<lparr>sv_chan := c\<rparr>) = stage_of st"
  "stage_of (st\<lparr>sv_out := c\<rparr>) = stage_of st" "stage_of (st\<lparr>sv_world := w\<rparr>) = stage_of st"
  "stage_of (st\<lparr>sv_inflight := i\<rparr>) = stage_of st" "stage_of (drop_entry n st) = stage_of st"
  "task_ID (st\<lparr>sv_sem := k\<rparr>) = task_ID st" "task_ID (st\<lparr>sv_chan := c\<rparr>) = task_ID st"
  "task_ID (st\<lparr>sv_out := c\<rparr>) = task_ID st" "task_ID (st\<lparr>sv_world := w\<rparr>) = task_ID st"
  "task_ID (st\<lparr>sv_inflight := i\<rparr>) = task_ID st" "task_ID (drop_entry n st) = task_ID st"
  "holders (st\<lparr>sv_sem := k\<rparr>) = holders st" "holders (st\<lparr>sv_chan := c\<rparr>) = holders st"
  "holders (st\<lparr>sv_out := c\<rparr>) = holders st" "holders (st\<lparr>sv_world := w\<rparr>) = holders st"
  "holders (st\<lparr>sv_inflight := i\<rparr>) = holders st" "holders (drop_entry n st) = holders st"
  by (simp_all add: stage_of_def task_ID_def holders_def fun_eq_iff)

lemma holders_spawn [simp]: "holders (spawn req st) = holders st"
  by (auto simp: holders_def dest: stage_of_less)

lemma mcp_handle_answers: "answer_for req (snd (handle run req w))"
  by (auto simp: handle_def handleToolCall_def answer_for_def okResp_def errResp_def Let_def
      split: option.splits sum.splits prod.splits)

section \<open>Every step keeps the invariant\<close>

lemma read_line_cases:
  obtains "read_line l st = st" | req where "read_line l st = spawn req st"
  | key where "read_line l st = st\<lparr>sv_inflight := if_cancel key (sv_inflight st)\<rparr>" "key \<noteq> []"
proof (cases l)
  case (Doc r)
  show thesis
  proof (cases "parse_request r")
    case (Inr req)
    show thesis
    proof (cases "is_cancellation req")
      case True
      then show thesis
        using Doc Inr that
        by (cases "cancel_key (q_Params req)")
          (auto simp: read_line_def handleCancellation_def cancel_key_def Let_def split: option.splits sum.splits if_splits)
    qed (use Doc Inr that in \<open>auto simp: read_line_def\<close>)
  qed (use Doc that in \<open>auto simp: read_line_def\<close>)
qed (use that in \<open>auto simp: read_line_def\<close>)

lemma slots_step:
  assumes "serve_step run e st = Some st'" and "slots_ok st"
  shows "slots_ok st'"
proof (cases e)
  case (ReadLine l)
  then show ?thesis using assms by (cases l st rule: read_line_cases) (auto simp: slots_ok_def)
next
  case (Check n)
  then have "n < length (sv_tasks st)" "n \<notin> holders st"
    using assms(1) by (auto simp: holders_def dest: stage_of_less split: if_splits)
  then show ?thesis using assms Check by (auto simp: slots_ok_def holders_set_stage split: if_splits)
next
  case (Acquire n)
  then have "n < length (sv_tasks st)" "n \<notin> holders st"
    using assms(1) by (auto simp: holders_def dest: stage_of_less split: if_splits)
  then show ?thesis using assms Acquire by (auto simp: slots_ok_def holders_set_stage split: if_splits)
next
  case (GiveUp n)
  then have "n < length (sv_tasks st)" "n \<notin> holders st"
    using assms(1) by (auto simp: holders_def dest: stage_of_less split: if_splits)
  then show ?thesis using assms GiveUp by (auto simp: slots_ok_def holders_set_stage split: if_splits)
next
  case (Complete n)
  then have n: "n < length (sv_tasks st)" "n \<in> holders st"
    using assms(1) by (auto simp: holders_def dest: stage_of_less split: if_splits)
  then show ?thesis using assms Complete
    by (auto simp: slots_ok_def holders_set_stage Let_def insert_absorb card_Diff_singleton split: if_splits prod.splits)
next
  case (Send n)
  then have n: "n < length (sv_tasks st)" "n \<in> holders st"
    using assms(1) by (auto simp: holders_def dest: stage_of_less split: if_splits option.splits stage.splits)
  then show ?thesis using assms Send
    by (auto simp: slots_ok_def holders_set_stage card_Diff_singleton split: if_splits option.splits stage.splits)
next
  case Flush
  then show ?thesis using assms by (auto simp: slots_ok_def split: list.splits)
qed

lemma remove1_filter: "distinct xs \<Longrightarrow> remove1 n (filter P xs) = filter (\<lambda>m. P m \<and> m \<noteq> n) xs"
  by (induction xs) (auto intro: filter_cong)

lemma table_settled:
  assumes "table_ok st" and "n < length (sv_tasks st)" and "\<not> waits_for_reply sg"
    and "sv_tasks st' = sv_tasks (set_stage n sg st)" and "sv_inflight st' = sv_inflight (drop_entry n st)"
  shows "table_ok st'"
proof -
  have f: "in_flight st' key m \<longleftrightarrow> in_flight st key m \<and> m \<noteq> n" for key m
    using assms(2,3) by (auto simp: in_flight_def stage_of_cong(1) [OF assms(4)] stage_of_cong(2) [OF assms(4)])
  have e: "if_entries (sv_inflight st') key = (if key = [] then [] else remove1 n (if_entries (sv_inflight st) key))"
    for key
    using assms(1) by (auto simp: assms(5) drop_entry_def Let_def if_finish_def table_ok_def remove1_filter in_flight_def
        task_ID_def intro: filter_cong)
  show ?thesis
    using assms(1) by (auto simp: table_ok_def e f [abs_def] assms(4) remove1_filter)
qed

lemma table_same:
  assumes "table_ok st" and "sv_inflight st' = sv_inflight st" and "length (sv_tasks st') = length (sv_tasks st)"
    and "\<And>key m. in_flight st' key m = in_flight st key m"
  shows "table_ok st'"
  using assms(1,2,3) assms(4) [abs_def] by (simp add: table_ok_def)
lemma stage_lt [dest]: "stage_of st n = Some sg \<Longrightarrow> n < length (sv_tasks st)"
  by (rule stage_of_less)

lemma table_spawn:
  assumes "table_ok st"
  shows "table_ok (spawn req st)"
proof -
  have 1: "in_flight (spawn req st) key m = in_flight st key m" if "m < length (sv_tasks st)" for key m
    using that by (auto simp: in_flight_def)
  have 2: "in_flight (spawn req st) key (length (sv_tasks st)) = (q_ID req = key)" for key
    by (auto simp: in_flight_def)
  have "filter (in_flight (spawn req st) key) [0..<length (sv_tasks st)] = filter (in_flight st key) [0..<length (sv_tasks st)]"
    for key by (rule filter_cong) (auto simp: 1)
  with assms show ?thesis by (auto simp: table_ok_def 2) (auto simp: spawn_def if_add_def)
qed

lemma cancelled_simps [simp]:
  "is_cancelled (set_stage n sg st) = is_cancelled st" "is_cancelled (drop_entry n st) = is_cancelled st"
  "is_cancelled (spawn req st) = is_cancelled st" "is_cancelled (st\<lparr>sv_sem := k\<rparr>) = is_cancelled st"
  "is_cancelled (st\<lparr>sv_chan := c\<rparr>) = is_cancelled st" "is_cancelled (st\<lparr>sv_out := c\<rparr>) = is_cancelled st"
  "is_cancelled (st\<lparr>sv_world := w\<rparr>) = is_cancelled st"
  by (simp_all add: is_cancelled_def fun_eq_iff)

text \<open>What a step of each kind does, by inversion.\<close>

lemma step_inv:
  shows step_Check: "serve_step run (Check n) st = Some st' \<Longrightarrow> stage_of st n = Some Spawned
      \<and> st' = (if is_cancelled st n then set_stage n Finished (drop_entry n st) else set_stage n Queued st)"
    and step_Acquire: "serve_step run (Acquire n) st = Some st' \<Longrightarrow> stage_of st n = Some Queued
      \<and> sv_sem st < maxConcurrentToolCalls \<and> st' = (set_stage n Running st)\<lparr>sv_sem := sv_sem st + 1\<rparr>"
    and step_GiveUp: "serve_step run (GiveUp n) st = Some st' \<Longrightarrow> stage_of st n = Some Queued
      \<and> is_cancelled st n \<and> st' = set_stage n Finished (drop_entry n st)"
    and step_Complete: "serve_step run (Complete n) st = Some st' \<Longrightarrow> stage_of st n = Some Running
      \<and> (let req = k_req (sv_tasks st ! n); (w, resp) = handle run req (sv_world st); st1 = drop_entry n (st\<lparr>sv_world := w\<rparr>)
         in st' = (if q_ID req = [] \<or> is_cancelled st n then (set_stage n Finished st1)\<lparr>sv_sem := sv_sem st - 1\<rparr>
                   else set_stage n (Replying resp) st1))"
  by (auto simp: Let_def split: if_splits prod.splits)

lemma step_Send:
  assumes "serve_step run (Send n) st = Some st'"
  obtains resp where "stage_of st n = Some (Replying resp)" "length (sv_chan st) < 64"
    "st' = (set_stage n Finished st)\<lparr>sv_chan := sv_chan st @ [(n, resp)], sv_sem := sv_sem st - 1\<rparr>"
proof -
  obtain sg where sg: "stage_of st n = Some sg" using assms by (cases "stage_of st n") simp_all
  show thesis
  proof (cases sg)
    case (Replying resp)
    with assms sg that [of resp] show thesis by (simp split: if_splits)
  qed (use assms sg in simp_all)
qed

lemma step_Flush:
  assumes "serve_step run Flush st = Some st'"
  obtains r rs where "sv_chan st = r # rs" "st' = st\<lparr>sv_chan := rs, sv_out := sv_out st @ [r]\<rparr>"
  using assms that by (cases "sv_chan st") simp_all

lemma in_flight_move:
  "stage_of st n = Some sg \<Longrightarrow> waits_for_reply sg' = waits_for_reply sg \<Longrightarrow>
    in_flight (set_stage n sg' st) key m = in_flight st key m"
  using stage_of_less [of st n sg] by (auto simp: in_flight_def)

lemma table_step:
  assumes "serve_step run e st = Some st'" and t: "table_ok st"
  shows "table_ok st'"
proof (cases e)
  case (ReadLine l)
  then have "st' = read_line l st" using assms(1) by simp
  then show ?thesis using t table_spawn [of st]
    by (cases l st rule: read_line_cases) (simp_all add: table_ok_def if_cancel_def in_flight_def [abs_def])
next
  case (Check n)
  note i = step_Check [OF assms(1) [unfolded Check]]
  show ?thesis
  proof (cases "is_cancelled st n")
    case True
    with i have "st' = set_stage n Finished (drop_entry n st)" by simp
    then show ?thesis
      using i by (intro table_settled [OF t stage_of_less, of n Spawned Finished]) (simp_all add: set_stage_def)
  next
    case False
    with i have "st' = set_stage n Queued st" by simp
    moreover have "in_flight (set_stage n Queued st) key m = in_flight st key m" for key m
      using i by (intro in_flight_move) auto
    ultimately show ?thesis by (intro table_same [OF t]) simp_all
  qed
next
  case (Acquire n)
  note i = step_Acquire [OF assms(1) [unfolded Acquire]]
  then have "in_flight (set_stage n Running st) key m = in_flight st key m" for key m
    by (intro in_flight_move) auto
  with i show ?thesis by (intro table_same [OF t]) (simp_all add: in_flight_def)
next
  case (GiveUp n)
  note i = step_GiveUp [OF assms(1) [unfolded GiveUp]]
  then show ?thesis
    by (intro table_settled [OF t stage_of_less, of n Queued Finished]) (simp_all add: set_stage_def)
next
  case (Complete n)
  note i = step_Complete [OF assms(1) [unfolded Complete]]
  obtain w resp where h: "handle run (k_req (sv_tasks st ! n)) (sv_world st) = (w, resp)" by fastforce
  let ?sg = "if q_ID (k_req (sv_tasks st ! n)) = [] \<or> is_cancelled st n then Finished else Replying resp"
  have "sv_tasks st' = sv_tasks (set_stage n ?sg st)" "sv_inflight st' = sv_inflight (drop_entry n st)"
    using i h by (simp_all add: Let_def set_stage_def drop_entry_def)
  then show ?thesis using i by (intro table_settled [OF t stage_of_less, of n Running ?sg]) simp_all
next
  case (Send n)
  from assms(1) [unfolded Send] obtain resp where i: "stage_of st n = Some (Replying resp)"
      "st' = (set_stage n Finished st)\<lparr>sv_chan := sv_chan st @ [(n, resp)], sv_sem := sv_sem st - 1\<rparr>"
    by (rule step_Send)
  then have "in_flight (set_stage n Finished st) key m = in_flight st key m" for key m
    by (intro in_flight_move) auto
  with i show ?thesis by (intro table_same [OF t]) (simp_all add: in_flight_def)
next
  case Flush
  from assms(1) [unfolded Flush] obtain r rs where "st' = st\<lparr>sv_chan := rs, sv_out := sv_out st @ [r]\<rparr>"
    by (rule step_Flush)
  then show ?thesis by (intro table_same [OF t]) (simp_all add: in_flight_def)
qed

lemma sent_simps [simp]:
  "sent (set_stage n sg st) = sent st" "sent (drop_entry n st) = sent st" "sent (spawn req st) = sent st"
  "sent (st\<lparr>sv_sem := k\<rparr>) = sent st" "sent (st\<lparr>sv_world := w\<rparr>) = sent st" "sent (st\<lparr>sv_inflight := i\<rparr>) = sent st"
  by (simp_all add: sent_def)

lemma replies_ok_parts:
  assumes "replies_ok st"
  shows replies_distinct: "distinct (map fst (sent st))"
    and replies_sent: "(n, resp) \<in> set (sent st) \<Longrightarrow>
          stage_of st n = Some Finished \<and> task_ID st n \<noteq> [] \<and> answer_for (k_req (sv_tasks st ! n)) resp"
    and replies_ready: "stage_of st n = Some (Replying resp) \<Longrightarrow>
          task_ID st n \<noteq> [] \<and> \<not> is_cancelled st n \<and> answer_for (k_req (sv_tasks st ! n)) resp"
    and replies_cancelled: "is_cancelled st n \<Longrightarrow> n < length (sv_tasks st) \<and> \<not> answered st n"
    and replies_done: "stage_of st n = Some Finished \<Longrightarrow> task_ID st n \<noteq> [] \<Longrightarrow>
          is_cancelled st n \<or> answered st n"
  using assms unfolding replies_ok_def by blast+

lemma replies_okI:
  assumes "distinct (map fst (sent st))"
    and "\<And>n resp. (n, resp) \<in> set (sent st) \<Longrightarrow>
          stage_of st n = Some Finished \<and> task_ID st n \<noteq> [] \<and> answer_for (k_req (sv_tasks st ! n)) resp"
    and "\<And>n resp. stage_of st n = Some (Replying resp) \<Longrightarrow>
          task_ID st n \<noteq> [] \<and> \<not> is_cancelled st n \<and> answer_for (k_req (sv_tasks st ! n)) resp"
    and "\<And>n. is_cancelled st n \<Longrightarrow> n < length (sv_tasks st) \<and> \<not> answered st n"
    and "\<And>n. stage_of st n = Some Finished \<Longrightarrow> task_ID st n \<noteq> [] \<Longrightarrow>
          is_cancelled st n \<or> answered st n"
  shows "replies_ok st"
  using assms unfolding replies_ok_def by blast

lemma answered_simps [simp]:
  "answered (set_stage n sg st) = answered st" "answered (drop_entry n st) = answered st"
  "answered (spawn req st) = answered st" "answered (st\<lparr>sv_sem := k\<rparr>) = answered st"
  "answered (st\<lparr>sv_world := w\<rparr>) = answered st" "answered (st\<lparr>sv_inflight := i\<rparr>) = answered st"
  by (simp_all add: answered_def fun_eq_iff)

lemma replies_not_sent: "replies_ok st \<Longrightarrow> stage_of st n = Some sg \<Longrightarrow> sg \<noteq> Finished \<Longrightarrow> \<not> answered st n"
  using replies_sent [of st n] by (force simp: answered_def)

lemma replies_spawn:
  assumes "replies_ok st"
  shows "replies_ok (spawn req st)"
proof (rule replies_okI, goal_cases)
  case 1
  show ?case using replies_distinct [OF assms] by simp
next
  case (2 n resp)
  then have "(n, resp) \<in> set (sent st)" by simp
  from replies_sent [OF assms this] show ?case
    using stage_of_less [of st n Finished] by simp
next
  case (3 n resp)
  then have s: "stage_of st n = Some (Replying resp)" by (simp split: if_splits)
  with replies_ready [OF assms s] stage_of_less [OF s] show ?case by simp
next
  case (4 n)
  with replies_cancelled [OF assms, of n] show ?case by simp
next
  case (5 n)
  then have s: "stage_of st n = Some Finished" by (simp split: if_splits)
  with replies_done [OF assms s] stage_of_less [OF s] 5 show ?case by simp
qed

lemma replies_move:
  assumes "replies_ok st" and s: "stage_of st n = Some sg" and "sg \<noteq> Finished"
    and r: "\<And>resp. sg' = Replying resp \<Longrightarrow>
           task_ID st n \<noteq> [] \<and> \<not> is_cancelled st n \<and> answer_for (k_req (sv_tasks st ! n)) resp"
    and f: "sg' = Finished \<Longrightarrow> task_ID st n = [] \<or> is_cancelled st n"
  shows "replies_ok (set_stage n sg' st)"
proof (rule replies_okI, goal_cases)
  note p = replies_ok_parts [OF assms(1)]
  {
    case 1
    show ?case using p(1) by simp
  next
    case (2 m resp)
    then have m: "(m, resp) \<in> set (sent st)" by simp
    then have "answered st m" unfolding answered_def by (rule rev_image_eqI) simp
    with replies_not_sent [OF assms(1) s assms(3)] have "m \<noteq> n" by blast
    with p(2) [OF m] show ?case by simp
  next
    case (3 m resp)
    show ?case
    proof (cases "m = n")
      case True
      with 3 stage_of_less [OF s] have "sg' = Replying resp" by simp
      from r [OF this] True show ?thesis by simp
    next
      case False
      with 3 have "stage_of st m = Some (Replying resp)" by simp
      from p(3) [OF this] show ?thesis by simp
    qed
  next
    case (4 m)
    with p(4) [of m] show ?case by simp
  next
    case (5 m)
    show ?case
    proof (cases "m = n")
      case True
      with 5 stage_of_less [OF s] have "sg' = Finished" by simp
      from f [OF this] True 5 show ?thesis by simp
    next
      case False
      with 5 have "stage_of st m = Some Finished" "task_ID st m \<noteq> []" by simp_all
      from p(5) [OF this] show ?thesis by simp
    qed
  }
qed

lemma replies_cong:
  assumes ok: "replies_ok st" and t: "sv_tasks st' = sv_tasks st" and "sent st' = sent st"
    and "if_cancelled (sv_inflight st') = if_cancelled (sv_inflight st)"
  shows "replies_ok st'"
proof -
  have "answered st' = answered st" "is_cancelled st' = is_cancelled st"
    using assms(3,4) by (simp_all add: answered_def is_cancelled_def fun_eq_iff)
  with ok show ?thesis
    unfolding replies_ok_def stage_of_cong(1) [OF t] stage_of_cong(2) [OF t] t assms(3) by simp
qed

lemma replies_send:
  assumes "replies_ok st" and s: "stage_of st n = Some (Replying resp)"
  shows "replies_ok ((set_stage n Finished st)\<lparr>sv_chan := sv_chan st @ [(n, resp)], sv_sem := k\<rparr>)"
proof -
  note p = replies_ok_parts [OF assms(1)]
  let ?st = "(set_stage n Finished st)\<lparr>sv_chan := sv_chan st @ [(n, resp)], sv_sem := k\<rparr>"
  have n: "\<not> answered st n" by (rule replies_not_sent [OF assms]) simp
  have e: "sent ?st = sent st @ [(n, resp)]" "\<And>m. answered ?st m \<longleftrightarrow> m = n \<or> answered st m"
    by (auto simp: sent_def answered_def)
  have l: "n < length (sv_tasks st)" using s by (rule stage_of_less)
  show ?thesis
  proof (rule replies_okI, goal_cases)
    case 1
    show ?case unfolding e(1) using p(1) n by (simp add: answered_def)
  next
    case (2 m r)
    then have "(m, r) \<in> set (sent st) \<or> m = n \<and> r = resp" unfolding e(1) by auto
    then show ?case using p(2) [of m r] p(3) [OF s] l by auto
  next
    case (3 m r)
    then show ?case using p(3) [of m r] by (simp split: if_splits)
  next
    case (4 m)
    then show ?case using p(3) [OF s] p(4) [of m] unfolding e(2) by auto
  next
    case (5 m)
    then show ?case using p(5) [of m] l unfolding e(2) by (simp split: if_splits)
  qed
qed

lemma replies_cancel:
  assumes "replies_ok st" and "table_ok st" and "key \<noteq> []"
  shows "replies_ok (st\<lparr>sv_inflight := if_cancel key (sv_inflight st)\<rparr>)"
proof -
  note p = replies_ok_parts [OF assms(1)]
  have c: "is_cancelled (st\<lparr>sv_inflight := if_cancel key (sv_inflight st)\<rparr>) m
      \<longleftrightarrow> is_cancelled st m \<or> m < length (sv_tasks st) \<and> in_flight st key m" for m
    using assms(2,3) by (auto simp: table_ok_def is_cancelled_def if_cancel_def)
  have "\<not> answered st m \<and> stage_of st m \<noteq> Some (Replying resp)" if f: "in_flight st key m" for m resp
  proof -
    obtain sg where sg: "stage_of st m = Some sg" "waits_for_reply sg" using f by (auto simp: in_flight_def)
    then have "sg \<noteq> Finished" "\<And>resp. sg \<noteq> Replying resp" by auto
    with sg replies_not_sent [OF assms(1) sg(1)] show ?thesis by simp
  qed
  note f = this
  show ?thesis
  proof (rule replies_okI, goal_cases)
    case (3 m r)
    then have s: "stage_of st m = Some (Replying r)" by simp
    with p(3) [OF s] f [of m r] c [of m] show ?case by auto
  next
    case (4 m)
    with c [of m] p(4) [of m] f [of m] show ?case by auto
  next
    case (5 m)
    with p(5) [of m] c [of m] show ?case by auto
  qed (use p(1,2) in simp_all)
qed

lemma replies_step:
  assumes "serve_step run e st = Some st'" and ok: "replies_ok st" and "table_ok st"
  shows "replies_ok st'"
proof (cases e)
  case (ReadLine l)
  then have "st' = read_line l st" using assms(1) by simp
  then show ?thesis using replies_spawn [OF ok] replies_cancel [OF ok assms(3)] ok
    by (cases l st rule: read_line_cases) simp_all
next
  case (Check n)
  then have s: "stage_of st n = Some Spawned" using assms by (simp split: if_splits)
  have "replies_ok (drop_entry n st)" by (rule replies_cong [OF ok]) simp_all
  with Check s assms show ?thesis
    by (auto intro!: replies_move [where n = n and sg = Spawned])
next
  case (Acquire n)
  then have s: "stage_of st n = Some Queued" using assms by (simp split: if_splits)
  have "replies_ok (set_stage n Running st)" by (rule replies_move [OF ok s]) simp_all
  then have "replies_ok ((set_stage n Running st)\<lparr>sv_sem := sv_sem st + 1\<rparr>)" by (rule replies_cong) simp_all
  with Acquire assms show ?thesis by (simp split: if_splits)
next
  case (GiveUp n)
  then have s: "stage_of st n = Some Queued" using assms by (simp split: if_splits)
  have "replies_ok (drop_entry n st)" by (rule replies_cong [OF ok]) simp_all
  with GiveUp s assms show ?thesis
    by (auto intro!: replies_move [where n = n and sg = Queued] split: if_splits)
next
  case (Complete n)
  then have s: "stage_of st n = Some Running" using assms by (simp split: if_splits)
  let ?req = "k_req (sv_tasks st ! n)"
  obtain w resp where h: "handle run ?req (sv_world st) = (w, resp)" by fastforce
  then have a: "answer_for ?req resp" using mcp_handle_answers [of ?req run "sv_world st"] by simp
  let ?st = "drop_entry n (st\<lparr>sv_world := w\<rparr>)"
  have st: "replies_ok ?st" "stage_of ?st n = Some Running" by (rule replies_cong [OF ok]) (simp_all add: s)
  show ?thesis
  proof (cases "q_ID ?req = [] \<or> is_cancelled st n")
    case True
    have "replies_ok (set_stage n Finished ?st)"
      by (rule replies_move [OF st]) (use True in \<open>auto simp: task_ID_def\<close>)
    then have "replies_ok ((set_stage n Finished ?st)\<lparr>sv_sem := sv_sem st - 1\<rparr>)" by (rule replies_cong) simp_all
    with Complete assms(1) s h True show ?thesis by (simp add: Let_def)
  next
    case False
    have "replies_ok (set_stage n (Replying resp) ?st)"
      by (rule replies_move [OF st]) (use False a in \<open>auto simp: task_ID_def\<close>)
    with Complete assms(1) s h False show ?thesis by (simp add: Let_def)
  qed
next
  case (Send n)
  with assms show ?thesis by (auto intro: replies_send split: if_splits option.splits stage.splits)
next
  case Flush
  then obtain r rs where "sv_chan st = r # rs" "st' = st\<lparr>sv_chan := rs, sv_out := sv_out st @ [r]\<rparr>"
    using assms(1) by (auto split: list.splits)
  then show ?thesis by (intro replies_cong [OF ok]) (simp_all add: sent_def)
qed
section \<open>Reachable states\<close>

definition serve_ok :: "'w serve \<Rightarrow> bool" where
  "serve_ok st \<longleftrightarrow> slots_ok st \<and> table_ok st \<and> replies_ok st"

lemma serve_ok_init: "serve_ok (serve_init w)"
  by (auto simp: serve_ok_def slots_ok_def table_ok_def replies_ok_def serve_init_def newInflightRegistry_def
      holders_def stage_of_def is_cancelled_def sent_def)

lemma serve_ok_step: "serve_step run e st = Some st' \<Longrightarrow> serve_ok st \<Longrightarrow> serve_ok st'"
  using slots_step table_step replies_step unfolding serve_ok_def by blast

lemma serve_reach_ok: "serve_reach run w0 st \<Longrightarrow> serve_ok st"
  by (induction rule: serve_reach.induct) (auto intro: serve_ok_init serve_ok_step simp del: serve_step.simps)

fun serve_runs :: "(tool \<Rightarrow> raw option \<Rightarrow> 'w \<Rightarrow> 'w \<times> json result) \<Rightarrow> event list \<Rightarrow> 'w serve \<Rightarrow> 'w serve option" where
  "serve_runs run [] st = Some st"
| "serve_runs run (e # es) st = do { st' \<leftarrow> serve_step run e st; serve_runs run es st' }"

lemma serve_runs_Cons:
  "serve_runs run (e # es) st = Some st' \<longleftrightarrow> (\<exists>st1. serve_step run e st = Some st1 \<and> serve_runs run es st1 = Some st')"
  by (simp add: bind_eq_Some_conv)

lemma serve_runs_induct [consumes 1, case_names start step]:
  assumes "serve_runs run es st = Some st'" and "P st"
    and "\<And>e s s'. P s \<Longrightarrow> serve_step run e s = Some s' \<Longrightarrow> e \<in> set es \<Longrightarrow> P s'"
  shows "P st'"
  using assms
proof (induction es arbitrary: st)
  case (Cons e es)
  from Cons.prems(1) obtain st1 where 1: "serve_step run e st = Some st1" "serve_runs run es st1 = Some st'"
    unfolding serve_runs_Cons by blast
  from Cons.prems(3) [OF Cons.prems(2) 1(1)] have "P st1" by simp
  from Cons.IH [OF 1(2) this] Cons.prems(3) show ?case by simp
qed simp

lemma serve_runs_reach: "serve_runs run es st = Some st' \<Longrightarrow> serve_reach run w0 st \<Longrightarrow> serve_reach run w0 st'"
  by (induction es arbitrary: st) (auto simp: bind_eq_Some_conv intro: serve_reach.step simp del: serve_step.simps)

lemma cancelled_mono: "serve_step run e st = Some st' \<Longrightarrow> is_cancelled st n \<Longrightarrow> is_cancelled st' n"
proof (cases e)
  case (ReadLine l)
  assume "serve_step run e st = Some st'" "is_cancelled st n"
  with ReadLine show ?thesis
    by (cases l st rule: read_line_cases) (auto simp: is_cancelled_def if_cancel_def)
next
  case (Send m)
  assume s: "serve_step run e st = Some st'" "is_cancelled st n"
  from s(1) [unfolded Send] show ?thesis by (rule step_Send) (use s(2) in simp)
next
  case Flush
  assume s: "serve_step run e st = Some st'" "is_cancelled st n"
  from s(1) [unfolded Flush] show ?thesis by (rule step_Flush) (use s(2) in simp)
qed (auto dest!: step_inv simp: Let_def split: prod.splits simp del: serve_step.simps)

section \<open>The registry of requests in flight\<close>

datatype ('k, 'e) registry_call = Add_call 'k 'e | Cancel_call 'k | Finish_call 'k 'e

locale request_registry =
  fixes ok :: "'r \<Rightarrow> bool" and pending :: "'r \<Rightarrow> 'k \<Rightarrow> 'e set" and marked :: "'r \<Rightarrow> 'e set"
    and add :: "'k \<Rightarrow> 'e \<Rightarrow> 'r \<Rightarrow> 'r" and cancel :: "'k \<Rightarrow> 'r \<Rightarrow> 'r" and finish :: "'k \<Rightarrow> 'e \<Rightarrow> 'r \<Rightarrow> 'r \<times> bool"
  assumes add_ok: "ok r \<Longrightarrow> e \<notin> pending r k \<Longrightarrow> ok (add k e r)"
    and add_pending: "pending (add k e r) j = (if j = k then insert e (pending r j) else pending r j)"
    and add_marked: "marked (add k e r) = marked r"
    and cancel_ok: "ok r \<Longrightarrow> ok (cancel k r)"
    and cancel_pending: "pending (cancel k r) = pending r"
    and cancel_marked: "marked (cancel k r) = marked r \<union> pending r k"
    and finish_ok: "ok r \<Longrightarrow> ok (fst (finish k e r))"
    and finish_pending: "ok r \<Longrightarrow> pending (fst (finish k e r)) j = (if j = k then pending r j - {e} else pending r j)"
    and finish_marked: "marked (fst (finish k e r)) = marked r" "snd (finish k e r) \<longleftrightarrow> e \<in> marked r"
begin

fun do_call :: "('k, 'e) registry_call \<Rightarrow> 'r \<Rightarrow> 'r" where
  "do_call (Add_call k e) r = (if e \<in> pending r k then r else add k e r)"
| "do_call (Cancel_call k) r = cancel k r"
| "do_call (Finish_call k e) r = fst (finish k e r)"

text \<open>A request is suppressed exactly when its key is cancelled while it is in flight.\<close>

lemma suppressed_iff:
  "ok r \<Longrightarrow> pending r k = S \<Longrightarrow> e \<in> S \<Longrightarrow> (\<forall>j. e \<in> pending r j \<longrightarrow> j = k) \<Longrightarrow>
    (\<forall>j. Add_call j e \<notin> set calls \<and> Finish_call j e \<notin> set calls) \<Longrightarrow>
    snd (finish k e (fold do_call calls r)) \<longleftrightarrow> e \<in> marked r \<or> Cancel_call k \<in> set calls"
proof (induction calls arbitrary: r S)
  case Nil
  then show ?case by (simp add: finish_marked)
next
  case (Cons c calls)
  let ?r = "do_call c r"
  have ok: "ok ?r" using Cons.prems(1) by (cases c) (auto intro: add_ok cancel_ok finish_ok)
  have p: "e \<in> pending ?r j \<longleftrightarrow> e \<in> pending r j" for j
    using Cons.prems(1,5) by (cases c) (auto simp: add_pending cancel_pending finish_pending)
  have m: "e \<in> marked ?r \<longleftrightarrow> e \<in> marked r \<or> c = Cancel_call k"
    using Cons.prems(2,3,4) by (cases c) (auto simp: add_marked cancel_marked finish_marked)
  have "snd (finish k e (fold do_call calls ?r)) \<longleftrightarrow> e \<in> marked ?r \<or> Cancel_call k \<in> set calls"
    using Cons.prems p by (intro Cons.IH [OF ok refl]) auto
  with m show ?case by auto
qed

end

definition inflight_ok :: "inflight \<Rightarrow> bool" where
  "inflight_ok r \<longleftrightarrow> (\<forall>key. distinct (if_entries r key))"

interpretation inflight_reg: request_registry inflight_ok "\<lambda>r key. set (if_entries r key)" if_cancelled
    if_add if_cancel if_finish
  by unfold_locales (auto simp: inflight_ok_def if_add_def if_cancel_def if_finish_def)

section \<open>Properties of the server\<close>

text \<open>C3. Every request is answered once or cancelled: in every reachable state of the stdio server, under any
  interleaving of its goroutines, no request has two responses, each response on standard output carries the
  identifier of its request, no cancelled request and no notification has a response, and a request whose
  goroutine has ended is cancelled or its response is written or waiting for the writer.\<close>

theorem serve_answers_once:
  assumes "serve_reach run w0 st"
  shows "distinct (map fst (sv_out st @ sv_chan st))
    \<and> (\<forall>(n, resp) \<in> set (sv_out st). n < length (sv_tasks st) \<and> \<not> is_cancelled st n
          \<and> q_ID (k_req (sv_tasks st ! n)) \<noteq> [] \<and> answer_for (k_req (sv_tasks st ! n)) resp)
    \<and> (\<forall>n. stage_of st n = Some Finished \<and> q_ID (k_req (sv_tasks st ! n)) \<noteq> [] \<and> \<not> is_cancelled st n
          \<longrightarrow> n \<in> fst ` set (sv_out st @ sv_chan st))"
proof -
  have ok: "replies_ok st" using serve_reach_ok [OF assms] by (simp add: serve_ok_def)
  note p = replies_ok_parts [OF ok]
  have "n < length (sv_tasks st) \<and> \<not> is_cancelled st n \<and> task_ID st n \<noteq> [] \<and> answer_for (k_req (sv_tasks st ! n)) resp"
    if "(n, resp) \<in> set (sv_out st)" for n resp
  proof -
    have m: "(n, resp) \<in> set (sent st)" using that by (simp add: sent_def)
    then have "answered st n" unfolding answered_def by (rule rev_image_eqI) simp
    with p(2) [OF m] p(4) [of n] stage_of_less [of st n Finished] show ?thesis by blast
  qed
  moreover have "n \<in> fst ` set (sv_out st @ sv_chan st)"
    if "stage_of st n = Some Finished" "task_ID st n \<noteq> []" "\<not> is_cancelled st n" for n
    using p(5) [OF that(1,2)] that(3) by (simp add: answered_def sent_def)
  ultimately show ?thesis using p(1) unfolding sent_def task_ID_def by blast
qed

text \<open>C27. The server runs at most 32 handlers at a time, and its table of requests in flight is exact: under each
  identifier it lists the requests with this identifier that are not yet answered or cancelled off, oldest
  first, and it lists nothing once they are done.\<close>

theorem serve_bounded:
  assumes "serve_reach run w0 st"
  shows "card {n. stage_of st n = Some Running} \<le> 32
    \<and> (\<forall>key. key \<noteq> [] \<longrightarrow> if_entries (sv_inflight st) key =
          filter (\<lambda>n. k_stage (sv_tasks st ! n) \<in> {Spawned, Queued, Running} \<and> q_ID (k_req (sv_tasks st ! n)) = key)
            [0..<length (sv_tasks st)])"
proof -
  have ok: "slots_ok st" "table_ok st" using serve_reach_ok [OF assms] by (simp_all add: serve_ok_def)
  have "{n. stage_of st n = Some Running} \<subseteq> holders st" by (auto simp: holders_def)
  then have "card {n. stage_of st n = Some Running} \<le> card (holders st)" by (intro card_mono) simp_all
  also have "\<dots> \<le> 32" using ok(1) by (simp add: slots_ok_def maxConcurrentToolCalls_def)
  finally have 1: "card {n. stage_of st n = Some Running} \<le> 32" .
  have w: "waits_for_reply sg \<longleftrightarrow> sg \<in> {Spawned, Queued, Running}" for sg by (cases sg) simp_all
  have "filter (in_flight st key) [0..<length (sv_tasks st)] =
      filter (\<lambda>n. k_stage (sv_tasks st ! n) \<in> {Spawned, Queued, Running} \<and> q_ID (k_req (sv_tasks st ! n)) = key)
            [0..<length (sv_tasks st)]" for key
    by (rule filter_cong) (auto simp: in_flight_def stage_of_def task_ID_def w)
  with 1 ok(2) show ?thesis by (simp add: table_ok_def)
qed

text \<open>C8. A cancelled request stays silent: once the reader has taken a cancellation that names a request in
  flight, no response to it is sent in any continuation, and if its goroutine had not yet looked at its
  context its handler is never run.\<close>

theorem serve_cancelled_silent:
  assumes "serve_reach run w0 st" and "n \<in> set (if_entries (sv_inflight st) key)"
    and "parse_request r = Inr req" and "is_cancellation req" and "cancel_key (q_Params req) = Some key"
    and "serve_runs run (ReadLine (Doc r) # es) st = Some st'"
  shows "n \<notin> fst ` set (sv_out st' @ sv_chan st')
    \<and> (stage_of st n = Some Spawned \<longrightarrow> stage_of st' n \<noteq> Some Running)"
proof -
  let ?st = "read_line (Doc r) st"
  have eq: "?st = st\<lparr>sv_inflight := if_cancel key (sv_inflight st)\<rparr>"
    using assms(3-5) by (simp add: read_line_def handleCancellation_def)
  then have c: "is_cancelled ?st n" using assms(2) by (simp add: is_cancelled_def if_cancel_def)
  have runs: "serve_runs run es ?st = Some st'" using assms(6) by simp
  have "is_cancelled st' n" using runs
  proof (induction rule: serve_runs_induct)
    case (step e s s')
    from step(2,1) show ?case by (rule cancelled_mono)
  qed (rule c)
  moreover have "replies_ok st'"
    using serve_reach_ok [OF serve_runs_reach [OF assms(6,1)]] by (simp add: serve_ok_def)
  ultimately have "\<not> answered st' n" using replies_cancelled by blast
  then have 1: "n \<notin> fst ` set (sv_out st' @ sv_chan st')" by (simp add: answered_def sent_def)
  have "is_cancelled st' n \<and> stage_of st' n \<in> {Some Spawned, Some Finished}" if "stage_of st n = Some Spawned"
    using runs
  proof (induction rule: serve_runs_induct)
    case start
    show ?case using c that eq by simp
  next
    case (step e s s')
    have c': "is_cancelled s' n" using cancelled_mono [OF step(2)] step(1) by blast
    have "stage_of s' n \<in> {Some Spawned, Some Finished}"
    proof (cases e)
      case (ReadLine l)
      with step show ?thesis
        using stage_of_less [of s n Spawned] stage_of_less [of s n Finished]
        by (cases l s rule: read_line_cases) auto
    next
      case (Send m)
      from step(2) [unfolded Send] show ?thesis by (rule step_Send) (use step(1) in auto)
    next
      case Flush
      from step(2) [unfolded Flush] show ?thesis by (rule step_Flush) (use step(1) in auto)
    qed (use step in \<open>auto dest!: step_inv simp: Let_def split: prod.splits if_splits simp del: serve_step.simps\<close>)
    with c' show ?case by blast
  qed
  with 1 show ?thesis by auto
qed
text \<open>A sample: one request with identifier 1 in flight.\<close>

definition no_tool :: "tool \<Rightarrow> raw option \<Rightarrow> unit \<Rightarrow> unit \<times> json result" where
  "no_tool t args w = (w, Inl (SessionNotFoundError ''s1''))"

definition list_req :: raw where
  "list_req = RObj [] [(''id'', RVal ''1'' (JInt 1)), (''method'', RVal [] (JStr ''tools/list''))]"

definition cancel_req :: raw where
  "cancel_req = RObj [] [(''method'', RVal [] (JStr ''notifications/cancelled'')),
     (''params'', RObj [] [(''requestId'', RVal ''1'' (JInt 1))])]"

definition serve_answered :: "unit serve" where
  "serve_answered = the (serve_runs no_tool [ReadLine (Doc list_req), Check 0, Acquire 0, Complete 0, Send 0, Flush]
     (serve_init ()))"

lemma serve_sample_reach:
  "serve_reach no_tool () (read_line (Doc list_req) (serve_init ()))" "serve_reach no_tool () serve_answered"
proof -
  show "serve_reach no_tool () (read_line (Doc list_req) (serve_init ()))"
    using serve_reach.step [OF serve_reach.init, of no_tool "ReadLine (Doc list_req)"] by simp
  have "serve_runs no_tool [ReadLine (Doc list_req), Check 0, Acquire 0, Complete 0, Send 0, Flush] (serve_init ())
      = Some serve_answered"
  proof -
    have "serve_runs no_tool [ReadLine (Doc list_req), Check 0, Acquire 0, Complete 0, Send 0, Flush] (serve_init ()) \<noteq> None"
      by code_simp
    then show ?thesis by (auto simp: serve_answered_def)
  qed
  then show "serve_reach no_tool () serve_answered" by (rule serve_runs_reach) (rule serve_reach.init)
qed

lemma serve_answered_out:
  "sv_out serve_answered = [(0, \<lparr>p_JSONRPC = ''2.0'', p_ID = ''1'', p_Result = Some ToolsResult, p_Error = None\<rparr>)]"
  "sv_chan serve_answered = []" "length (sv_tasks serve_answered) = 1"
  by code_simp+

lemma serve_answers_once_witness:
  "q_ID (k_req (sv_tasks serve_answered ! 0)) \<noteq> [] \<and> \<not> is_cancelled serve_answered 0"
  using serve_answers_once [OF serve_sample_reach(2)] by (auto simp: serve_answered_out)

lemma serve_bounded_witness: "card {n. stage_of serve_answered n = Some Running} \<le> 32"
  using serve_bounded [OF serve_sample_reach(2)] by blast

lemma serve_cancelled_silent_witness:
  "\<exists>st'. serve_runs no_tool (ReadLine (Doc cancel_req) # [Check 0]) (read_line (Doc list_req) (serve_init ())) = Some st'
     \<and> 0 \<notin> fst ` set (sv_out st' @ sv_chan st') \<and> stage_of st' 0 \<noteq> Some Running"
proof -
  let ?st = "read_line (Doc list_req) (serve_init ())"
  obtain req where req: "parse_request cancel_req = Inr req" "is_cancellation req" "cancel_key (q_Params req) = Some ''1''"
  proof -
    have "\<exists>req. parse_request cancel_req = Inr req \<and> is_cancellation req \<and> cancel_key (q_Params req) = Some ''1''"
      by (rule exI [of _ "\<lparr>q_JSONRPC = [], q_ID = [], q_Method = ''notifications/cancelled'',
            q_Params = Some (RObj [] [(''requestId'', RVal ''1'' (JInt 1))])\<rparr>"]) code_simp
    then show thesis using that by blast
  qed
  have i: "0 \<in> set (if_entries (sv_inflight ?st) ''1'')" "stage_of ?st 0 = Some Spawned" by code_simp+
  have "serve_runs no_tool (ReadLine (Doc cancel_req) # [Check 0]) ?st \<noteq> None" by code_simp
  then obtain st' where st': "serve_runs no_tool (ReadLine (Doc cancel_req) # [Check 0]) ?st = Some st'" by blast
  from serve_cancelled_silent [OF serve_sample_reach(1) i(1) req st'] st' i(2) show ?thesis by blast
qed

text \<open>The steps still to be made without further input.\<close>

fun stage_work :: "stage \<Rightarrow> nat" where
  "stage_work Spawned = 5"
| "stage_work Queued = 4"
| "stage_work Running = 3"
| "stage_work (Replying r) = 2"
| "stage_work Finished = 0"

definition work :: "'w serve \<Rightarrow> nat" where
  "work st = sum_list (map (stage_work \<circ> k_stage) (sv_tasks st)) + length (sv_chan st)"

lemma sum_list_update_nat: "n < length xs \<Longrightarrow> sum_list (map f (xs[n := x])) + f (xs ! n) = sum_list (map f xs) + (f x :: nat)"
  by (induction xs arbitrary: n) (auto split: nat.splits)

lemma work_set_stage:
  assumes "stage_of st n = Some sg" and "sv_tasks st' = sv_tasks (set_stage n sg' st)"
  shows "work st' + stage_work sg + length (sv_chan st) = work st + stage_work sg' + length (sv_chan st')"
proof -
  have n: "n < length (sv_tasks st)" "k_stage (sv_tasks st ! n) = sg"
    using assms(1) by (auto simp: stage_of_def split: if_splits)
  show ?thesis
    using sum_list_update_nat [OF n(1), of "stage_work \<circ> k_stage" "(sv_tasks st ! n)\<lparr>k_stage := sg'\<rparr>"] n(2)
    by (simp add: work_def assms(2) set_stage_def)
qed

lemma work_step:
  assumes "serve_step run e st = Some st'" and "\<And>l. e \<noteq> ReadLine l"
  shows "work st' < work st"
proof (cases e)
  case (ReadLine l)
  with assms(2) show ?thesis by blast
next
  case (Check n)
  note i = step_Check [OF assms(1) [unfolded Check]]
  show ?thesis
  proof (cases "is_cancelled st n")
    case True
    with i work_set_stage [of st n Spawned st' Finished] show ?thesis by (simp add: set_stage_def)
  next
    case False
    with i work_set_stage [of st n Spawned st' Queued] show ?thesis by simp
  qed
next
  case (Acquire n)
  note i = step_Acquire [OF assms(1) [unfolded Acquire]]
  with work_set_stage [of st n Queued st' Running] show ?thesis by simp
next
  case (GiveUp n)
  note i = step_GiveUp [OF assms(1) [unfolded GiveUp]]
  with work_set_stage [of st n Queued st' Finished] show ?thesis by (simp add: set_stage_def)
next
  case (Complete n)
  note i = step_Complete [OF assms(1) [unfolded Complete]]
  obtain w resp where h: "handle run (k_req (sv_tasks st ! n)) (sv_world st) = (w, resp)" by fastforce
  let ?sg = "if q_ID (k_req (sv_tasks st ! n)) = [] \<or> is_cancelled st n then Finished else Replying resp"
  have "sv_tasks st' = sv_tasks (set_stage n ?sg st)" "sv_chan st' = sv_chan st"
    using i h by (simp_all add: Let_def set_stage_def)
  with i work_set_stage [of st n Running st' ?sg] show ?thesis by (auto split: if_splits)
next
  case (Send n)
  from assms(1) [unfolded Send] obtain resp where i: "stage_of st n = Some (Replying resp)"
      "st' = (set_stage n Finished st)\<lparr>sv_chan := sv_chan st @ [(n, resp)], sv_sem := sv_sem st - 1\<rparr>"
    by (rule step_Send)
  with work_set_stage [of st n "Replying resp" st' Finished] show ?thesis by simp
next
  case Flush
  from assms(1) [unfolded Flush] obtain r rs where "sv_chan st = r # rs"
      "st' = st\<lparr>sv_chan := rs, sv_out := sv_out st @ [r]\<rparr>"
    by (rule step_Flush)
  then show ?thesis by (simp add: work_def)
qed

lemma serve_not_stuck:
  assumes "serve_ok st" and "\<And>e. (\<And>l. e \<noteq> ReadLine l) \<Longrightarrow> serve_step run e st = None" and "n < length (sv_tasks st)"
  shows "k_stage (sv_tasks st ! n) = Finished \<and> sv_chan st = []"
proof -
  have c: "sv_chan st = []" using assms(2) [of Flush] by (simp split: list.splits)
  have s: "k_stage (sv_tasks st ! m) = Queued \<or> k_stage (sv_tasks st ! m) = Finished" if m: "m < length (sv_tasks st)" for m
  proof (cases "k_stage (sv_tasks st ! m)")
    case Spawned
    with m assms(2) [of "Check m"] show ?thesis by (simp add: stage_of_def)
  next
    case Running
    with m assms(2) [of "Complete m"] show ?thesis by (simp add: stage_of_def Let_def split: prod.splits if_splits)
  next
    case (Replying r)
    with m c assms(2) [of "Send m"] show ?thesis by (simp add: stage_of_def)
  qed simp_all
  then have "holders st = {}" by (fastforce simp: holders_def stage_of_def split: if_splits)
  then have "sv_sem st = 0" using assms(1) by (simp add: serve_ok_def slots_ok_def)
  with s [OF assms(3)] assms(3) assms(2) [of "Acquire n"] c show ?thesis
    by (auto simp: stage_of_def maxConcurrentToolCalls_def)
qed

text \<open>C17. The server drains: from any reachable state, once no further line comes in, every run of the
  goroutines and the writer is finite, with at most \<open>work\<close> steps, and it cannot get stuck: when none of
  them can move, every request goroutine has ended, every slot is free and every response is written. (A
  handler that never returns is a step that never comes.)\<close>

theorem serve_drains:
  assumes "serve_reach run w0 st" and "serve_runs run es st = Some st'" and "\<forall>l. ReadLine l \<notin> set es"
  shows "length es \<le> work st
    \<and> ((\<forall>e. (\<forall>l. e \<noteq> ReadLine l) \<longrightarrow> serve_step run e st' = None) \<longrightarrow>
        (\<forall>t \<in> set (sv_tasks st'). k_stage t = Finished) \<and> sv_sem st' = 0 \<and> sv_chan st' = [])"
proof
  show "length es \<le> work st" using assms(2,3)
  proof (induction es arbitrary: st)
    case (Cons e es)
    obtain st1 where 1: "serve_step run e st = Some st1" "serve_runs run es st1 = Some st'"
      using Cons.prems(1) unfolding serve_runs_Cons by blast
    have "work st1 < work st" using Cons.prems(2) by (intro work_step [OF 1(1)]) auto
    with Cons.IH [OF 1(2)] Cons.prems(2) show ?case by simp
  qed simp
  have ok: "serve_ok st'" by (rule serve_reach_ok [OF serve_runs_reach [OF assms(2,1)]])
  show "(\<forall>e. (\<forall>l. e \<noteq> ReadLine l) \<longrightarrow> serve_step run e st' = None) \<longrightarrow>
        (\<forall>t \<in> set (sv_tasks st'). k_stage t = Finished) \<and> sv_sem st' = 0 \<and> sv_chan st' = []"
  proof
    assume stuck: "\<forall>e. (\<forall>l. e \<noteq> ReadLine l) \<longrightarrow> serve_step run e st' = None"
    then have f: "k_stage (sv_tasks st' ! n) = Finished \<and> sv_chan st' = []" if "n < length (sv_tasks st')" for n
      using serve_not_stuck [OF ok _ that, of run] by blast
    moreover have "sv_chan st' = []" using stuck [THEN spec, of Flush] by (simp split: list.splits)
    moreover from f have "holders st' = {}" by (auto simp: holders_def stage_of_def split: if_splits)
    ultimately show "(\<forall>t \<in> set (sv_tasks st'). k_stage t = Finished) \<and> sv_sem st' = 0
        \<and> sv_chan st' = []"
      using ok by (auto simp: serve_ok_def slots_ok_def in_set_conv_nth)
  qed
qed

lemma serve_drains_witness: "length [Check 0, Acquire 0, Complete 0] \<le> work (read_line (Doc list_req) (serve_init ()))"
proof -
  have "serve_runs no_tool [Check 0, Acquire 0, Complete 0] (read_line (Doc list_req) (serve_init ())) \<noteq> None" by code_simp
  then obtain st' where "serve_runs no_tool [Check 0, Acquire 0, Complete 0] (read_line (Doc list_req) (serve_init ()))
      = Some st'" by blast
  from serve_drains [OF serve_sample_reach(1) this] show ?thesis by simp
qed

lemma handleToolCall_replies:
  "(\<exists>code msg. handleToolCall run req w = (w, errResp (q_ID req) code msg) \<and> code \<in> {-32601, -32602})
   \<or> (\<exists>w' v. handleToolCall run req w = (w', okResp (q_ID req) v))"
proof (cases "case q_Params req of
              None \<Rightarrow> Inl (Errorf ''unexpected end of JSON input'')
            | Some r \<Rightarrow> bind_result (raw_members r) (\<lambda>fs.
                bind_result (get_string ''name'' (map (map_prod id raw_json) fs)) (\<lambda>n. Inr (n, field ''arguments'' fs)))")
  case (Inl err)
  then have "handleToolCall run req w = (w, errResp (q_ID req) (-32602) (ErrorMsg err))"
    by (simp add: handleToolCall_def)
  then show ?thesis by blast
next
  case (Inr na)
  obtain name args where na: "na = (name, args)" by fastforce
  show ?thesis
  proof (cases "tool_of name")
    case (Some t)
    obtain w' res where "run t args w = (w', res)" by fastforce
    with Inr na Some have "handleToolCall run req w = (w', okResp (q_ID req)
        (case res of Inl err \<Rightarrow> TextResult (json_ToolError (classifyError err)) True | Inr v \<Rightarrow> TextResult v False))"
      by (cases res) (simp_all add: handleToolCall_def)
    then show ?thesis by blast
  next
    case None
    with Inr na have "handleToolCall run req w = (w, errResp (q_ID req) (-32601) (''unknown tool: '' @ name))"
      by (simp add: handleToolCall_def)
    then show ?thesis by blast
  qed
qed

lemma handle_replies:
  "(\<exists>code msg. handle run req w = (w, errResp (q_ID req) code msg) \<and> code \<in> {-32601, -32602})
   \<or> (\<exists>w' v. handle run req w = (w', okResp (q_ID req) v))
   \<or> q_Method req = ''notifications/initialized'' \<and> p_Error (snd (handle run req w)) = None"
proof (cases "q_Method req \<in> {''initialize'', ''tools/list'', ''notifications/initialized'', ''tools/call''}")
  case True
  then consider (i) v where "handle run req w = (w, okResp (q_ID req) v)"
    | (n) "q_Method req = ''notifications/initialized''" "p_Error (snd (handle run req w)) = None"
    | (c) "handle run req w = handleToolCall run req w"
    by (auto simp: handle_def)
  then show ?thesis using handleToolCall_replies [of run req w] by cases auto
next
  case False
  then have "handle run req w = (w, errResp (q_ID req) (-32601) (''method not found: '' @ q_Method req))"
    by (simp add: handle_def)
  then show ?thesis by blast
qed

text \<open>Version negotiation and dispatch never fail: \<open>initialize\<close> is answered with the client's protocol
  version when the server supports it and with its newest one otherwise, always a supported one; an unknown
  method and an unknown tool are answered with error \<open>-32601\<close>, malformed parameters with \<open>-32602\<close>,
  none of them touching the sessions; every other tool call is answered with a result.\<close>

theorem handle_total:
  "negotiateProtocolVersion params \<in> set supportedProtocolVersions
   \<and> (params = Some (RObj t [(''protocolVersion'', RVal x (JStr v))]) \<and> v \<in> set supportedProtocolVersions
        \<longrightarrow> negotiateProtocolVersion params = v)
   \<and> (case handle run req w of (w', resp) \<Rightarrow>
        (p_Error resp \<noteq> None \<longrightarrow> w' = w \<and> fst (the (p_Error resp)) \<in> {-32601, -32602} \<and> p_Result resp = None)
        \<and> (p_Error resp = None \<longrightarrow> p_Result resp \<noteq> None \<or> q_Method req = ''notifications/initialized''))"
proof (intro conjI)
  show "negotiateProtocolVersion params \<in> set supportedProtocolVersions"
    by (simp add: negotiateProtocolVersion_def Let_def supportedProtocolVersions_def serverProtocolVersion_def)
  have "same_name ''protocolVersion'' ''protocolVersion''" by code_simp
  then show "params = Some (RObj t [(''protocolVersion'', RVal x (JStr v))]) \<and> v \<in> set supportedProtocolVersions
        \<longrightarrow> negotiateProtocolVersion params = v"
    by (simp add: negotiateProtocolVersion_def Let_def get_string_def)
  show "case handle run req w of (w', resp) \<Rightarrow>
        (p_Error resp \<noteq> None \<longrightarrow> w' = w \<and> fst (the (p_Error resp)) \<in> {-32601, -32602} \<and> p_Result resp = None)
        \<and> (p_Error resp = None \<longrightarrow> p_Result resp \<noteq> None \<or> q_Method req = ''notifications/initialized'')"
    using handle_replies [of run req w] by (auto simp: okResp_def errResp_def)
qed

lemma handle_total_witness:
  "negotiateProtocolVersion (Some (RObj [] [(''protocolVersion'', RVal [] (JStr ''2024-11-05''))])) = ''2024-11-05''"
proof -
  have "''2024-11-05'' \<in> set supportedProtocolVersions" by (simp add: supportedProtocolVersions_def)
  with handle_total [of "Some (RObj [] [(''protocolVersion'', RVal [] (JStr ''2024-11-05''))])" "[]" "[]" "''2024-11-05''"
      "()" "\<lparr>q_JSONRPC = [], q_ID = [], q_Method = [], q_Params = None\<rparr>" no_tool]
  show ?thesis by blast
qed

text \<open>The tool calls whose parameters are accepted before the session is looked up.\<close>

fun call_accepted :: "call \<Rightarrow> bool" where
  "call_accepted (C_SendControl p) \<longleftrightarrow> controlKeys (sk_Key p) \<noteq> None"
| "call_accepted (C_ResizeSession p) \<longleftrightarrow> 0 < rz_Rows p \<and> rz_Rows p \<le> 500 \<and> 0 < rz_Cols p \<and> rz_Cols p \<le> 1000"
| "call_accepted C_ListSessions \<longleftrightarrow> False"
| "call_accepted c \<longleftrightarrow> True"

text \<open>An unknown session is reported and leaves no trace: every tool call on an identifier that is not
  registered returns the not-found error and changes nothing, not even the table of session locks, and
  the client sees code \<open>SESSION_NOT_FOUND\<close>, not retryable, however the error was wrapped.\<close>

theorem unknown_session_reported:
  assumes "m_sessions (wd_mgr w) (call_session c) = None" and "call_accepted c"
  shows "run_call e c w = Returns (w, Inl (SessionNotFoundError (call_session c)))
    \<and> classifyError (Wrap pre (SessionNotFoundError ID)) =
        (''SESSION_NOT_FOUND'', pre @ '': session '' @ Quote ID @ '' not found'', False)"
proof -
  have "fetch e (call_session c) w = (w, Inl (SessionNotFoundError (call_session c)))"
    using assms(1) by (simp add: fetch_def Get_def set_mgr_def)
  then have "run_call e c w = Returns (w, Inl (SessionNotFoundError (call_session c)))"
    using assms(2) by (cases c)
      (auto simp: SendInput_def ReadOutput_def fetch_locked_def SendControl_def CloseSession_def DetachSession_def
        ResizeSession_def PrepareSecret_def SendSecret_def GetSessionState_def Let_def)
  then show ?thesis by (simp add: classifyError_def Let_def)
qed

lemma unknown_session_reported_witness:
  "run_call call_env (C_CloseSession (on_session ''zz'')) world_sample = Returns (world_sample, Inl (SessionNotFoundError ''zz''))"
  using unknown_session_reported [of world_sample "C_CloseSession (on_session ''zz'')" call_env]
  by (simp add: world_sample_def Add_def NewManager_def maxSessions_def)

text \<open>Structured errors keep the message: whatever error a handler returns, the message shown to the client is
  the error's own, the code is never empty unless a handler chose it, and apart from the errors that carry
  their own classification only the session limit and a failed connection are marked retryable.\<close>

theorem classifyError_keeps_message:
  "fst (snd (classifyError err)) = ErrorMsg err
   \<and> ((\<nexists>c m r. err = ToolError c m r) \<longrightarrow>
        fst (classifyError err) \<in> {''SESSION_NOT_FOUND'', ''SESSION_LIMIT_REACHED'', ''SSH_AUTH_FAILED'',
          ''SSH_CONNECT_FAILED'', ''SERIAL_OPEN_FAILED'', ''WRITE_FAILED'', ''INTERNAL_ERROR''}
        \<and> (snd (snd (classifyError err)) \<longleftrightarrow> fst (classifyError err) \<in> {''SESSION_LIMIT_REACHED'', ''SSH_CONNECT_FAILED''}))"
proof (cases "\<exists>c m r. err = ToolError c m r")
  case True
  then show ?thesis by (auto simp: classifyError_def)
next
  case False
  define body where "body = classifyError err"
  have "body = (''SESSION_NOT_FOUND'', ErrorMsg err, False) \<or> body = (''SESSION_LIMIT_REACHED'', ErrorMsg err, True)
      \<or> body = (''SSH_AUTH_FAILED'', ErrorMsg err, False) \<or> body = (''SSH_CONNECT_FAILED'', ErrorMsg err, True)
      \<or> body = (''SERIAL_OPEN_FAILED'', ErrorMsg err, False) \<or> body = (''WRITE_FAILED'', ErrorMsg err, False)
      \<or> body = (''INTERNAL_ERROR'', ErrorMsg err, False)"
    using False by (cases err; cases "unwrapped err") (simp_all add: body_def classifyError_def Let_def)
  then show ?thesis unfolding body_def [symmetric] by (elim disjE) simp_all
qed

lemma classifyError_keeps_message_witness:
  "fst (classifyError (Wrap ''ssh dial h:22'' (Errorf ''dial tcp: connection refused''))) \<noteq> []"
  using classifyError_keeps_message [of "Wrap ''ssh dial h:22'' (Errorf ''dial tcp: connection refused'')"] by auto

end
