(* ===== verification/Secret_Prompt.thy ===== *)
theory Secret_Prompt
  imports Go_Errors
begin

text \<open>
  Asking the operator for a secret (\<open>readSecretFromUser\<close> and what it calls in
  \<open>internal/mcp/tools.go\<close>): the choice of the dialogs, the commands they are run with, what their
  output is taken for, and the terminal as the last resort. The dialogs, the systemd query and the
  terminal are the environment, a record of what each of them does when it is run; the result comes with
  the trace of what was shown to the operator. Restoring the terminal on a signal is not modelled.
\<close>

section \<open>The environment\<close>

text \<open>What a \<open>select\<close> takes: between an answer, the timer and the context of the request, and between
  the end of a program and the context.\<close>

datatype tty_wake = Typed "bytes result" | TimerFired | CtxDone go_error

datatype dialog_wake = Exited "bytes result" | Abandoned go_error

text \<open>
  \<open>pv_sem\<close> is the error of the context when it ends before the prompting slot is free;
  \<open>pv_run\<close> the result of \<open>cmd.Output()\<close> for a program, its arguments and its
  environment (\<open>None\<close> inherits), with \<open>dialogCtx.Err()\<close> afterwards; \<open>pv_order\<close>
  the order in which Go iterates the map of display variables.
\<close>

record prompt_env =
  pv_goos :: bytes
  pv_sem :: "go_error option"
  pv_version :: "bytes result"
  pv_environ :: "bytes list"
  pv_uid :: int
  pv_systemctl :: "bytes list \<Rightarrow> bytes result"
  pv_order :: "bytes list"
  pv_installed :: "bytes \<Rightarrow> bool"
  pv_run :: "bytes \<Rightarrow> bytes list \<Rightarrow> bytes list option \<Rightarrow> bytes result \<times> go_error option"
  pv_powershell :: "bytes list \<Rightarrow> dialog_wake"
  pv_tty :: "go_error option"
  pv_hasState :: bool
  pv_wake :: tty_wake

datatype prompt_event =
    SemTaken
  | SemReleased
  | Ran bytes "bytes list" "bytes list option"
  | TtyPrompt bytes
  | TtyNewline
  | TtyRestored
  | TtyClosed

section \<open>Errors\<close>

definition guiDialogTimeout :: int where "guiDialogTimeout = 60000"

definition errSecretTimeout :: go_error where
  "errSecretTimeout = Errorf ''timed out waiting for secret input: operator did not respond''"

text \<open>\<open>errors.Is(err, target)\<close> for a \<open>target\<close> that wraps nothing.\<close>

definition errors_is :: "go_error \<Rightarrow> go_error \<Rightarrow> bool" where
  "errors_is err target \<longleftrightarrow> unwrapped err = target"

definition classifySecretDialogErr :: "go_error option \<Rightarrow> go_error \<Rightarrow> go_error" where
  "classifySecretDialogErr dialogErr err =
     (case dialogErr of
        Some DeadlineExceeded \<Rightarrow> errSecretTimeout
      | Some Canceled \<Rightarrow> Canceled
      | _ \<Rightarrow> err)"

section \<open>The desktop of the operator\<close>

text \<open>\<open>os.Getenv\<close>: the first entry of the name counts, and a missing one is the empty string.\<close>

definition Getenv :: "bytes list \<Rightarrow> bytes \<Rightarrow> bytes" where
  "Getenv environ k =
     (case find (\<lambda>s. case Cut s (CHR ''='') of (k', v, ok) \<Rightarrow> ok \<and> k' = k) environ of
        None \<Rightarrow> []
      | Some s \<Rightarrow> fst (snd (Cut s (CHR ''=''))))"

definition desktopKeys :: "bytes list" where
  "desktopKeys = [''DISPLAY'', ''WAYLAND_DISPLAY'', ''XDG_RUNTIME_DIR'', ''DBUS_SESSION_BUS_ADDRESS'', ''XAUTHORITY'']"

definition env_at :: "(bytes \<rightharpoonup> bytes) \<Rightarrow> bytes \<Rightarrow> bytes" where
  "env_at env k = (case env k of None \<Rightarrow> [] | Some v \<Rightarrow> v)"

definition dialogEnv :: "bytes list \<Rightarrow> bytes list \<Rightarrow> (bytes \<rightharpoonup> bytes) \<Rightarrow> bytes list" where
  "dialogEnv order environ extra =
     environ @ List.map_filter (\<lambda>k. case extra k of
         None \<Rightarrow> None | Some v \<Rightarrow> if v \<noteq> [] then Some (k @ CHR ''='' # v) else None) order"

text \<open>The lines of \<open>systemctl --user show-environment\<close>: those of a wanted variable replace its value.\<close>

definition recover_line :: "(bytes \<rightharpoonup> bytes) \<Rightarrow> bytes \<Rightarrow> (bytes \<rightharpoonup> bytes)" where
  "recover_line env line =
     (case Cut line (CHR ''='') of
        (k, v, ok) \<Rightarrow> if \<not> ok then env else if env k \<noteq> None then env(k \<mapsto> v) else env)"

definition has_display :: "(bytes \<rightharpoonup> bytes) \<Rightarrow> bool" where
  "has_display env \<longleftrightarrow> env_at env ''DISPLAY'' \<noteq> [] \<or> env_at env ''WAYLAND_DISPLAY'' \<noteq> []"

definition linuxDesktopEnv :: "prompt_env \<Rightarrow> (bytes \<rightharpoonup> bytes)" where
  "linuxDesktopEnv v =
     (let env = foldl (\<lambda>env k. env(k \<mapsto> Getenv (pv_environ v) k)) Map.empty desktopKeys
      in if has_display env then env
         else let env = (if env_at env ''XDG_RUNTIME_DIR'' = []
                         then env(''XDG_RUNTIME_DIR'' \<mapsto> ''/run/user/'' @ dec (pv_uid v)) else env)
              in case pv_systemctl v (dialogEnv (pv_order v) (pv_environ v) env) of
                   Inl err \<Rightarrow> env
                 | Inr out \<Rightarrow> foldl recover_line env (Split (CHR 0x0A) out))"

text \<open>The version line of a kernel is ASCII.\<close>

definition isWSL2 :: "prompt_env \<Rightarrow> bool" where
  "isWSL2 v =
     (case pv_version v of
        Inl err \<Rightarrow> False
      | Inr data \<Rightarrow> let lower = ToLowerASCII data in Contains lower ''microsoft'' \<or> Contains lower ''wsl'')"

section \<open>The dialogs\<close>

text \<open>Run a dialog and read its output.\<close>

definition ask ::
  "prompt_env \<Rightarrow> bytes \<Rightarrow> bytes list \<Rightarrow> bytes list option \<Rightarrow> (bytes \<Rightarrow> bytes result)
     \<Rightarrow> prompt_event list \<times> bytes result" where
  "ask v name args env parse =
     ([Ran name args env],
      case pv_run v name args env of
        (Inr out, dialogErr) \<Rightarrow> parse out
      | (Inl err, dialogErr) \<Rightarrow> Inl (classifySecretDialogErr dialogErr err))"

definition dq :: bytes where "dq = [CHR 0x22]"

text \<open>\<open>strings.NewReplacer\<close> on single bytes.\<close>

definition escape_osascript :: "bytes \<Rightarrow> bytes" where
  "escape_osascript prompt = concat (map (\<lambda>c.
     if c = CHR 0x5C then [CHR 0x5C, CHR 0x5C] else if c = CHR 0x22 then [CHR 0x5C, CHR 0x22]
     else if c = CHR 0x0D \<or> c = CHR 0x0A then [CHR 0x20] else [c]) prompt)"

definition osascript_prefix :: bytes where
  "osascript_prefix = ''tell application '' @ dq @ ''System Events'' @ dq @ '' to display dialog '' @ dq"

definition osascript_suffix :: bytes where
  "osascript_suffix = dq @ '' with hidden answer default answer '' @ dq @ dq @ '' buttons {'' @ dq @ ''OK'' @ dq
     @ ''} default button '' @ dq @ ''OK'' @ dq @ '' giving up after '' @ dec (guiDialogTimeout div 1000)"

definition osascript_text :: "bytes \<Rightarrow> bytes" where
  "osascript_text prompt = osascript_prefix @ escape_osascript prompt @ osascript_suffix"

definition parse_osascript :: "bytes \<Rightarrow> bytes result" where
  "parse_osascript out =
     (let result = TrimSpace out; prefix = ''button returned:OK, text returned:''
      in if HasSuffix result ''gave up:true'' then Inl errSecretTimeout
         else if \<not> HasPrefix result prefix then Inl (Errorf (''osascript: unexpected output: '' @ result))
         else let text = drop (length prefix) result
              in Inr (case LastIndex text '', gave up:'' of None \<Rightarrow> text | Some i \<Rightarrow> take i text))"

definition readSecretOsascript :: "prompt_env \<Rightarrow> bytes \<Rightarrow> prompt_event list \<times> bytes result" where
  "readSecretOsascript v prompt = ask v ''osascript'' [''-e'', osascript_text prompt] None parse_osascript"

definition readSecretZenity :: "prompt_env \<Rightarrow> bytes \<Rightarrow> (bytes \<rightharpoonup> bytes) \<Rightarrow> prompt_event list \<times> bytes result" where
  "readSecretZenity v prompt env =
     ask v ''zenity'' [''--password'', ''--title=pty-mcp'', ''--no-markup'', ''--text='' @ prompt]
       (Some (dialogEnv (pv_order v) (pv_environ v) env)) (\<lambda>out. Inr (TrimRight out [CHR 0x0A]))"

definition readSecretKdialog :: "prompt_env \<Rightarrow> bytes \<Rightarrow> (bytes \<rightharpoonup> bytes) \<Rightarrow> prompt_event list \<times> bytes result" where
  "readSecretKdialog v prompt env =
     ask v ''kdialog'' [''--password'', prompt, ''--title'', ''pty-mcp'']
       (Some (dialogEnv (pv_order v) (pv_environ v) env)) (\<lambda>out. Inr (TrimRight out [CHR 0x0A]))"

definition escape_powershell :: "bytes \<Rightarrow> bytes" where
  "escape_powershell prompt = concat (map (\<lambda>c. if c = CHR 0x27 then [c, c] else [c]) prompt)"

definition powershell_prefix :: bytes where
  "powershell_prefix = ''$cred = Get-Credential -UserName '' @ dq @ ''secret'' @ dq @ '' -Message '' @ [CHR 0x27]"

definition powershell_suffix :: bytes where
  "powershell_suffix = CHR 0x27 # ''; $cred.GetNetworkCredential().Password''"

text \<open>
  The PowerShell dialog has no timeout: when the request is cancelled the program is left running, so only
  its answer or the end of the context wakes the caller.
\<close>

definition readSecretPowerShell :: "prompt_env \<Rightarrow> bytes \<Rightarrow> prompt_event list \<times> bytes result" where
  "readSecretPowerShell v prompt =
     (let args = [''-NoProfile'', ''-Command'', powershell_prefix @ escape_powershell prompt @ powershell_suffix]
      in ([Ran ''powershell.exe'' args None],
          case pv_powershell v args of
            Exited (Inl err) \<Rightarrow> Inl err
          | Exited (Inr out) \<Rightarrow> Inr (TrimRight out [CHR 0x0D, CHR 0x0A])
          | Abandoned err \<Rightarrow> Inl err))"

section \<open>The terminal\<close>

definition readSecretTTY :: "prompt_env \<Rightarrow> bytes \<Rightarrow> prompt_event list \<times> bytes result" where
  "readSecretTTY v prompt =
     (case pv_tty v of
        Some err \<Rightarrow> ([], Inl (Wrap ''cannot open /dev/tty'' err))
      | None \<Rightarrow>
          (let restore = (if pv_hasState v then [TtyRestored] else []);
               (es, r) = (case pv_wake v of
                   Typed (Inl err) \<Rightarrow> ([TtyNewline], Inl (Wrap ''read secret'' err))
                 | Typed (Inr secret) \<Rightarrow> ([TtyNewline], Inr secret)
                 | TimerFired \<Rightarrow> (restore, Inl errSecretTimeout)
                 | CtxDone err \<Rightarrow> (restore, Inl err))
           in (TtyPrompt (CHR 0x0A # ''[pty-mcp] '' @ prompt) # es @ [TtyClosed], r)))"

section \<open>Choosing a way to ask\<close>

text \<open>The test after each dialog: its answer, or the error that must not fall through, is returned.\<close>

definition final :: "bytes result \<Rightarrow> bool" where
  "final r \<longleftrightarrow> (case r of Inr secret \<Rightarrow> True | Inl err \<Rightarrow> errors_is err errSecretTimeout \<or> errors_is err Canceled)"

definition or_else ::
  "prompt_event list \<times> bytes result \<Rightarrow> prompt_event list \<times> bytes result \<Rightarrow> prompt_event list \<times> bytes result" where
  "or_else a b = (if final (snd a) then a else (fst a @ fst b, snd b))"

definition readSecretFromUser :: "prompt_env \<Rightarrow> bytes \<Rightarrow> prompt_event list \<times> bytes result" where
  "readSecretFromUser v prompt =
     (case pv_sem v of
        Some err \<Rightarrow> ([], Inl err)
      | None \<Rightarrow>
          (let tty = readSecretTTY v prompt;
               (es, r) =
                 (if pv_goos v = ''darwin'' then or_else (readSecretOsascript v prompt) tty
                  else if pv_goos v = ''linux''
                  then let env = linuxDesktopEnv v;
                           kdialog = (if pv_installed v ''kdialog'' then or_else (readSecretKdialog v prompt env) tty else tty);
                           zenity = (if pv_installed v ''zenity'' then or_else (readSecretZenity v prompt env) kdialog else kdialog);
                           gui = (if has_display env then zenity else tty)
                       in if isWSL2 v then or_else (readSecretPowerShell v prompt) gui else gui
                  else tty)
           in (SemTaken # es @ [SemReleased], r)))"

section \<open>What is tried\<close>

text \<open>
  The order of the documentation: the dialogs of the platform that are there, then the terminal. They are
  tried one by one up to the first whose result is final.
\<close>

definition ways :: "prompt_env \<Rightarrow> bytes \<Rightarrow> (prompt_event list \<times> bytes result) list" where
  "ways v prompt =
     (let env = linuxDesktopEnv v
      in (if pv_goos v = ''darwin'' then [readSecretOsascript v prompt]
          else if pv_goos v = ''linux''
          then (if isWSL2 v then [readSecretPowerShell v prompt] else [])
            @ (if has_display env \<and> pv_installed v ''zenity'' then [readSecretZenity v prompt env] else [])
            @ (if has_display env \<and> pv_installed v ''kdialog'' then [readSecretKdialog v prompt env] else [])
          else []) @ [readSecretTTY v prompt])"

fun tried :: "(prompt_event list \<times> bytes result) list \<Rightarrow> (prompt_event list \<times> bytes result) list" where
  "tried [] = []"
| "tried (a # as) = (if final (snd a) then [a] else a # tried as)"

definition ask_all :: "(prompt_event list \<times> bytes result) list \<Rightarrow> prompt_event list \<times> bytes result" where
  "ask_all ws = (concat (map fst (tried ws)), snd (last (tried ws)))"

lemma tried_nonempty [simp]: "tried ws = [] \<longleftrightarrow> ws = []"
  by (cases ws) simp_all

lemma tried_prefix: "prefix (tried ws) ws"
  by (induction ws) auto

lemma tried_final_last: "a \<in> set (tried ws) \<Longrightarrow> final (snd a) \<Longrightarrow> \<exists>us. tried ws = us @ [a]"
proof (induction ws)
  case (Cons b ws)
  then show ?case
  proof (cases "final (snd b)")
    case False
    with Cons obtain us where "tried ws = us @ [a]" by auto
    with False have "tried (b # ws) = (b # us) @ [a]" by simp
    then show ?thesis ..
  qed simp
qed simp

lemma ask_all_single: "ask_all [a] = a"
  by (cases a) (simp add: ask_all_def)

lemma ask_all_Cons: "ws \<noteq> [] \<Longrightarrow> ask_all (a # ws) = or_else a (ask_all ws)"
  by (cases a) (simp add: ask_all_def or_else_def)

lemma readSecretFromUser_ways:
  "readSecretFromUser v prompt =
     (case pv_sem v of
        Some err \<Rightarrow> ([], Inl err)
      | None \<Rightarrow> (SemTaken # fst (ask_all (ways v prompt)) @ [SemReleased], snd (ask_all (ways v prompt))))"
  by (cases "pv_sem v")
    (simp_all add: readSecretFromUser_def ways_def Let_def ask_all_Cons ask_all_single split_def)

text \<open>C14. The prompting follows the documented order: the ways to ask that the platform has are tried one after
  the other, everything the operator is shown comes from those tried, the result is that of the last one, and
  the slot that serializes prompting is released on every path. Without the slot nothing is shown.\<close>

theorem readSecretFromUser_in_order:
  "readSecretFromUser v prompt =
     (case pv_sem v of
        Some err \<Rightarrow> ([], Inl err)
      | None \<Rightarrow> (SemTaken # concat (map fst (tried (ways v prompt))) @ [SemReleased], snd (last (tried (ways v prompt)))))"
  by (simp add: readSecretFromUser_ways ask_all_def split: option.split)

section \<open>Abandoned dialogs\<close>

lemma final_abandoned:
  "final (Inl (classifySecretDialogErr (Some Canceled) err))"
  "final (Inl (classifySecretDialogErr (Some DeadlineExceeded) err))"
  by (simp_all add: final_def classifySecretDialogErr_def errors_is_def errSecretTimeout_def)

lemma ran_in_ways:
  assumes "a \<in> set (ways v prompt)" and "Ran name args env \<in> set (fst a)" and "name \<noteq> ''powershell.exe''"
  shows "\<exists>parse. a = ask v name args env parse"
proof -
  have tty: "Ran name args env \<notin> set (fst (readSecretTTY v prompt))"
    by (auto simp: readSecretTTY_def Let_def split: option.split tty_wake.split sum.split)
  have ps: "Ran name args env \<notin> set (fst (readSecretPowerShell v prompt))"
    using assms(3) by (auto simp: readSecretPowerShell_def Let_def)
  have same: "\<exists>parse. ask v n as e p = ask v name args env parse" if "Ran name args env \<in> set (fst (ask v n as e p))" for n as e p
    using that by (auto simp: ask_def)
  from assms(1) consider "a = readSecretOsascript v prompt" | "a = readSecretPowerShell v prompt"
    | "a = readSecretZenity v prompt (linuxDesktopEnv v)" | "a = readSecretKdialog v prompt (linuxDesktopEnv v)"
    | "a = readSecretTTY v prompt"
    by (auto simp: ways_def Let_def split: if_splits)
  then show ?thesis
    using assms(2) tty ps
    by cases (auto simp: readSecretOsascript_def readSecretZenity_def readSecretKdialog_def dest!: same)
qed

text \<open>A dialog the operator let run into its timeout, or whose request was cancelled, is the last thing shown:
  no other dialog and no terminal prompt follows it, and the timeout or the cancellation is the error returned.\<close>

theorem abandoned_prompt_stops:
  assumes "Ran name args env \<in> set (fst (readSecretFromUser v prompt))" and "name \<noteq> ''powershell.exe''"
    and "pv_run v name args env = (Inl err, Some e)" and "e \<in> {Canceled, DeadlineExceeded}"
  shows "snd (readSecretFromUser v prompt) = Inl (if e = Canceled then Canceled else errSecretTimeout)
    \<and> (\<exists>es. fst (readSecretFromUser v prompt) = es @ [Ran name args env, SemReleased])"
proof -
  let ?ws = "tried (ways v prompt)"
  have sem: "pv_sem v = None" using assms(1) by (cases "pv_sem v") (simp_all add: readSecretFromUser_in_order)
  with assms(1) obtain a where a: "a \<in> set ?ws" "Ran name args env \<in> set (fst a)"
    by (auto simp: readSecretFromUser_in_order)
  have "a \<in> set (ways v prompt)" using a(1) tried_prefix by (meson set_mono_prefix subsetD)
  then obtain parse where ask: "a = ask v name args env parse" using ran_in_ways a(2) assms(2) by blast
  have r: "a = ([Ran name args env], Inl (classifySecretDialogErr (Some e) err))"
    using assms(3) by (simp add: ask ask_def)
  then have "final (snd a)" using assms(4) final_abandoned [of err] by auto
  then obtain us where us: "?ws = us @ [a]" using tried_final_last a(1) by blast
  have "fst (readSecretFromUser v prompt) = (SemTaken # concat (map fst us)) @ [Ran name args env, SemReleased]"
    using sem us r by (simp add: readSecretFromUser_in_order)
  moreover have "snd (readSecretFromUser v prompt) = Inl (if e = Canceled then Canceled else errSecretTimeout)"
    using sem us r assms(4) by (auto simp: readSecretFromUser_in_order classifySecretDialogErr_def)
  ultimately show ?thesis by blast
qed

section \<open>Reading the answer back\<close>

lemma parse_osascript_answer:
  assumes "t = ''button returned:OK, text returned:'' @ secret @ '', gave up:false''"
  shows "parse_osascript (t @ [CHR 0x0A]) = Inr secret" and "parse_osascript t = Inr secret"
proof -
  let ?p = "''button returned:OK, text returned:''"
  define mid where "mid = ''utton returned:OK, text returned:'' @ secret @ '', gave up:fals''"
  have t: "t = CHR ''b'' # mid @ [CHR ''e'']" by (simp add: assms mid_def)
  have trim: "TrimSpace (t @ [CHR 0x0A]) = t" "TrimSpace t = t"
    using TrimSpace_word_newline [of "CHR ''b''" "CHR ''e''" mid] by (simp_all add: t IsSpace_def)
  have "suffix ''gave up:true'' t \<Longrightarrow> False"
    by (auto simp: assms suffix_def append_eq_append_conv2 Cons_eq_append_conv append_eq_Cons_conv)
  then have s: "\<not> HasSuffix t ''gave up:true''" by (auto simp: HasSuffix_iff)
  have p: "HasPrefix t ?p" by (simp add: assms HasPrefix_iff)
  have d: "drop (length ?p) t = secret @ '', gave up:false''" by (simp add: assms)
  have l: "LastIndex (secret @ '', gave up:false'') '', gave up:'' = Some (length secret)"
    using LastIndex_append [of "'', gave up:false''" "'', gave up:''" 0 secret] by (simp add: HasPrefix_def)
  show "parse_osascript (t @ [CHR 0x0A]) = Inr secret" "parse_osascript t = Inr secret"
    unfolding parse_osascript_def Let_def trim using s p d l by simp_all
qed

text \<open>C22. What the operator types comes back byte for byte: from the record AppleScript prints, even when the secret
  itself contains the text of its last field, and from the line zenity and kdialog print, unless the secret
  ends in a newline; the self-dismissed AppleScript dialog is a timeout whatever its record holds.\<close>

theorem secret_read_back:
  "(pv_run v ''osascript'' [''-e'', osascript_text prompt] None
      = (Inr (''button returned:OK, text returned:'' @ secret @ '', gave up:false'' @ [CHR 0x0A]), d)
      \<longrightarrow> snd (readSecretOsascript v prompt) = Inr secret)
   \<and> (\<forall>name. Ran name args env \<in> set (fst (readSecretZenity v prompt denv) @ fst (readSecretKdialog v prompt denv))
        \<and> (secret = [] \<or> last secret \<noteq> CHR 0x0A) \<and> pv_run v name args env = (Inr (secret @ [CHR 0x0A]), d)
      \<longrightarrow> Inr secret \<in> {snd (readSecretZenity v prompt denv), snd (readSecretKdialog v prompt denv)})
   \<and> parse_osascript (''button returned:, text returned:'' @ secret @ '', gave up:true'' @ [CHR 0x0A]) = Inl errSecretTimeout"
proof -
  have 1: "snd (readSecretOsascript v prompt) = Inr secret"
    if "pv_run v ''osascript'' [''-e'', osascript_text prompt] None
      = (Inr (''button returned:OK, text returned:'' @ secret @ '', gave up:false'' @ [CHR 0x0A]), d)"
    using that parse_osascript_answer(1) [OF refl, of secret] by (simp add: readSecretOsascript_def ask_def)
  have 2: "Inr secret \<in> {snd (readSecretZenity v prompt denv), snd (readSecretKdialog v prompt denv)}"
    if "Ran name args env \<in> set (fst (readSecretZenity v prompt denv) @ fst (readSecretKdialog v prompt denv))"
      "secret = [] \<or> last secret \<noteq> CHR 0x0A" "pv_run v name args env = (Inr (secret @ [CHR 0x0A]), d)" for name
    using that TrimRight_append [of "[CHR 0x0A]" "[CHR 0x0A]" secret]
    by (auto simp: readSecretZenity_def readSecretKdialog_def ask_def)
  have "parse_osascript (''button returned:, text returned:'' @ secret @ '', gave up:true'' @ [CHR 0x0A]) = Inl errSecretTimeout"
  proof -
    let ?m = "''utton returned:, text returned:'' @ secret @ '', gave up:tru''"
    have "TrimSpace (CHR ''b'' # ?m @ CHR ''e'' # [CHR 0x0A]) = CHR ''b'' # ?m @ [CHR ''e'']"
      by (rule TrimSpace_word_newline) (simp_all add: IsSpace_def)
    moreover have "HasSuffix (CHR ''b'' # ?m @ [CHR ''e'']) ''gave up:true''"
      by (auto simp: HasSuffix_iff suffix_def intro!: exI [of _ "''button returned:, text returned:'' @ secret @ '', ''"])
    ultimately show ?thesis by (simp add: parse_osascript_def)
  qed
  with 1 2 show ?thesis by blast
qed

section \<open>The prompt stays a prompt\<close>

text \<open>
  A string literal of AppleScript, as far as the escapes that occur here go: a backslash stands for the byte
  after it and an unescaped quote ends the literal. The result is the text and what follows the literal.
\<close>

fun literal :: "bytes \<Rightarrow> (bytes \<times> bytes) option" where
  "literal [] = None"
| "literal (c # s) =
     (if c = CHR 0x22 then Some ([], s)
      else if c = CHR 0x5C
      then (case s of [] \<Rightarrow> None | d # s' \<Rightarrow> map_option (\<lambda>(t, rest). (d # t, rest)) (literal s'))
      else map_option (\<lambda>(t, rest). (c # t, rest)) (literal s))"

definition one_line :: "bytes \<Rightarrow> bytes" where
  "one_line = map (\<lambda>c. if c = CHR 0x0D \<or> c = CHR 0x0A then CHR 0x20 else c)"

lemma literal_escaped: "literal (escape_osascript prompt @ CHR 0x22 # rest) = Some (one_line prompt, rest)"
  by (induction prompt) (simp_all add: escape_osascript_def one_line_def)

text \<open>
  A verbatim string of PowerShell: a doubled quote stands for a quote, a single one ends it. \<open>q\<close> says
  which runes the shell takes for a quote.
\<close>

fun verbatim :: "(int \<Rightarrow> bool) \<Rightarrow> chunk list \<Rightarrow> (chunk list \<times> chunk list) option" where
  "verbatim q [] = None"
| "verbatim q (c # cs) =
     (if q (fst c)
      then (case cs of
              [] \<Rightarrow> Some ([], [])
            | d # cs' \<Rightarrow> if q (fst d) then map_option (\<lambda>(t, rest). (d # t, rest)) (verbatim q cs') else Some ([], cs))
      else map_option (\<lambda>(t, rest). (c # t, rest)) (verbatim q cs))"

definition double_quote :: "chunk \<Rightarrow> chunk list" where
  "double_quote c = (if fst c = 0x27 then [c, c] else [c])"

lemma escape_powershell_simps [simp]:
  "escape_powershell [] = []"
  "escape_powershell (c # s) = (if c = CHR 0x27 then [c, c] else [c]) @ escape_powershell s"
  "escape_powershell (s @ t) = escape_powershell s @ escape_powershell t"
  by (simp_all add: escape_powershell_def)

lemma escape_powershell_id: "CHR 0x27 \<notin> set s \<Longrightarrow> escape_powershell s = s"
  by (induction s) auto

lemma double_quote_id: "CHR 0x27 \<notin> set s \<Longrightarrow> concat (map double_quote (runes s)) = runes s"
proof -
  assume no: "CHR 0x27 \<notin> set s"
  have "double_quote c = [c]" if c: "c \<in> set (runes s)" for c
  proof -
    have "fst c \<noteq> 0x27"
    proof
      assume f: "fst c = 0x27"
      then obtain b where "b \<in> set s" "c = (code b, [b])" using runes_ascii_chunk [OF c] by auto
      with f no inj_code [of b "CHR 0x27"] show False by simp
    qed
    then show ?thesis by (simp add: double_quote_def)
  qed
  then have "map double_quote (runes s) = map (\<lambda>c. [c]) (runes s)" by simp
  then show ?thesis by (simp only: concat_map_singleton list.map_ident)
qed

lemma runes_escape_powershell:
  "runes (escape_powershell s @ CHR 0x27 # t) = concat (map double_quote (runes s)) @ runes (CHR 0x27 # t)"
proof (induction s rule: length_induct)
  case (1 s)
  have cut: "runes (u @ CHR 0x27 # w) = runes u @ (0x27, [CHR 0x27]) # runes w" for u w
    using runes_append_ascii [of "CHR 0x27" u w] runes_ascii_Cons [of "CHR 0x27" w] by simp
  show ?case
  proof (cases "CHR 0x27 \<in> set s")
    case False
    then show ?thesis using runes_append_ascii [of "CHR 0x27" s t] by (simp add: escape_powershell_id double_quote_id)
  next
    case True
    then obtain u w where s: "s = u @ CHR 0x27 # w" and u: "CHR 0x27 \<notin> set u" by (metis split_list_first)
    have "length w < length s" by (simp add: s)
    with 1 have IH: "runes (escape_powershell w @ CHR 0x27 # t) = concat (map double_quote (runes w)) @ runes (CHR 0x27 # t)"
      by blast
    have "runes (escape_powershell s @ CHR 0x27 # t)
        = runes (u @ CHR 0x27 # CHR 0x27 # escape_powershell w @ CHR 0x27 # t)"
      using u by (simp add: s escape_powershell_id)
    also have "\<dots> = runes u @ (0x27, [CHR 0x27]) # (0x27, [CHR 0x27]) # runes (escape_powershell w @ CHR 0x27 # t)"
      using cut [of u] runes_ascii_Cons [of "CHR 0x27" "escape_powershell w @ CHR 0x27 # t"] by simp
    also have "\<dots> = concat (map double_quote (runes s)) @ runes (CHR 0x27 # t)"
      using u cut [of u w] by (simp add: s IH double_quote_id double_quote_def)
    finally show ?thesis .
  qed
qed

lemma verbatim_doubled:
  assumes "\<And>c. c \<in> set cs \<Longrightarrow> q (fst c) \<Longrightarrow> fst c = 0x27" and "q 0x27" and "rest = [] \<or> \<not> q (fst (hd rest))"
  shows "verbatim q (concat (map double_quote cs) @ (0x27, w) # rest) = Some (cs, rest)"
  using assms(1)
proof (induction cs)
  case Nil
  then show ?case using assms(2,3) by (cases rest) simp_all
next
  case (Cons c cs)
  have IH: "verbatim q (concat (map double_quote cs) @ (0x27, w) # rest) = Some (cs, rest)"
    by (rule Cons.IH) (rule Cons.prems, simp_all)
  show ?case
  proof (cases "fst c = 0x27")
    case True
    then have "double_quote c = [c, c]" by (simp add: double_quote_def)
    with True assms(2) IH show ?thesis by simp
  next
    case False
    then have "\<not> q (fst c)" using Cons.prems [of c] by auto
    moreover have "double_quote c = [c]" using False by (simp add: double_quote_def)
    ultimately show ?thesis using IH by simp
  qed
qed

text \<open>C21. A prompt cannot leave the script it is put in. AppleScript reads the script's literal as the prompt with
  its line breaks turned into blanks, followed by the rest of the script. PowerShell reads the message as the
  prompt, provided the prompt contains no rune other than the apostrophe that the shell takes for a quote.\<close>

theorem prompt_contained:
  "literal (drop (length osascript_prefix) (osascript_text prompt)) = Some (one_line prompt, tl osascript_suffix)
   \<and> (q 0x27 \<and> \<not> q 0x3B \<and> (\<forall>c \<in> set (runes prompt). q (fst c) \<longrightarrow> fst c = 0x27)
      \<longrightarrow> verbatim q (runes (escape_powershell prompt @ powershell_suffix)) = Some (runes prompt, runes (tl powershell_suffix)))"
proof -
  have o: "osascript_suffix = CHR 0x22 # tl osascript_suffix" by (simp add: osascript_suffix_def dq_def)
  have 1: "literal (drop (length osascript_prefix) (osascript_text prompt)) = Some (one_line prompt, tl osascript_suffix)"
    using literal_escaped [of prompt "tl osascript_suffix"] o by (simp add: osascript_text_def)
  have p: "powershell_suffix = CHR 0x27 # tl powershell_suffix" by (simp add: powershell_suffix_def)
  have h: "runes (CHR 0x27 # tl powershell_suffix) = (0x27, [CHR 0x27]) # runes (tl powershell_suffix)"
    using runes_ascii_Cons [of "CHR 0x27" "tl powershell_suffix"] by simp
  have hd: "fst (hd (runes (tl powershell_suffix))) = 0x3B"
    by (simp add: powershell_suffix_def runes_ascii_Cons)
  have "verbatim q (runes (escape_powershell prompt @ powershell_suffix)) = Some (runes prompt, runes (tl powershell_suffix))"
    if "q 0x27" "\<not> q 0x3B" "\<forall>c \<in> set (runes prompt). q (fst c) \<longrightarrow> fst c = 0x27"
    using verbatim_doubled [of "runes prompt" q "runes (tl powershell_suffix)" "[CHR 0x27]"] that hd
    by (subst p) (simp add: runes_escape_powershell h)
  with 1 show ?thesis by blast
qed

text \<open>PowerShell's language takes U+2019 for a quote as well. A prompt with this rune ends the message there,
  and what follows in the prompt is read as commands of the script.\<close>

theorem curly_quote_ends_message:
  assumes "\<And>r. r < 0x80 \<Longrightarrow> q r \<longleftrightarrow> r = 0x27" and "q 0x2019"
  shows "verbatim q (runes (escape_powershell (''Password'' @ [CHR 0xE2, CHR 0x80, CHR 0x99] @ CHR '';'' # commands) @ powershell_suffix))
    = Some (runes ''Password'', runes (CHR '';'' # escape_powershell commands @ powershell_suffix))"
proof -
  let ?rest = "CHR '';'' # escape_powershell commands @ powershell_suffix"
  have c: "runes (CHR 0xE2 # CHR 0x80 # CHR 0x99 # ?rest) = (0x2019, [CHR 0xE2, CHR 0x80, CHR 0x99]) # runes ?rest"
    by (simp add: runes_Cons [of "CHR 0xE2"] decode_rune.simps(2) Let_def second_ok.simps is_cont.simps)
  have r: "runes ?rest = (0x3B, [CHR '';'']) # runes (escape_powershell commands @ powershell_suffix)"
    by (simp add: runes_ascii_Cons)
  show ?thesis
    using assms by (simp add: runes_ascii_Cons c r)
qed

lemma curly_quote_ends_message_witness:
  "verbatim (\<lambda>r. r \<in> {0x27, 0x2018, 0x2019, 0x201A, 0x201B})
     (runes (escape_powershell (''Password'' @ [CHR 0xE2, CHR 0x80, CHR 0x99] @ CHR '';'' # ''calc #'') @ powershell_suffix))
   = Some (runes ''Password'', runes (CHR '';'' # escape_powershell ''calc #'' @ powershell_suffix))"
  by (rule curly_quote_ends_message) auto

lemma prompt_contained_witness:
  "verbatim (\<lambda>r. r \<in> {0x27, 0x2018, 0x2019, 0x201A, 0x201B})
     (runes (escape_powershell (''root'' @ [CHR 0x27] @ ''s password'') @ powershell_suffix))
   = Some (runes (''root'' @ [CHR 0x27] @ ''s password''), runes (tl powershell_suffix))"
  using prompt_contained [of "''root'' @ [CHR 0x27] @ ''s password''" "\<lambda>r. r \<in> {0x27, 0x2018, 0x2019, 0x201A, 0x201B}"]
  by (simp add: runes_ascii_Cons)

definition prompt_sample :: prompt_env where
  "prompt_sample = \<lparr>pv_goos = ''linux'', pv_sem = None, pv_version = Inr ''Linux version 6.1'',
     pv_environ = [''DISPLAY=:0''], pv_uid = 1000, pv_systemctl = (\<lambda>_. Inl (Errorf ''not found'')),
     pv_order = desktopKeys, pv_installed = (\<lambda>n. n = ''zenity''),
     pv_run = (\<lambda>name args env. if name = ''osascript''
       then (Inr (''button returned:OK, text returned:'' @ ''a, gave up:true'' @ '', gave up:false'' @ [CHR 0x0A]), None)
       else (Inl (Errorf ''signal: killed''), Some DeadlineExceeded)),
     pv_powershell = (\<lambda>_. Exited (Inr [])), pv_tty = None, pv_hasState = True, pv_wake = TimerFired\<rparr>"

lemma secret_read_back_witness:
  "snd (readSecretOsascript prompt_sample ''pw'') = Inr ''a, gave up:true''"
  using secret_read_back [of prompt_sample "''pw''" "''a, gave up:true''" None "[]" None Map.empty]
  by (simp add: prompt_sample_def)

lemma linux_sample:
  "has_display (linuxDesktopEnv prompt_sample)" "\<not> isWSL2 prompt_sample"
  by (code_simp, code_simp)

lemma abandoned_prompt_stops_witness:
  "snd (readSecretFromUser prompt_sample ''pw'') = Inl errSecretTimeout"
proof -
  let ?d = "dialogEnv (pv_order prompt_sample) (pv_environ prompt_sample) (linuxDesktopEnv prompt_sample)"
  let ?args = "[''--password'', ''--title=pty-mcp'', ''--no-markup'', ''--text='' @ ''pw'']"
  have f: "pv_goos prompt_sample = ''linux''" "pv_sem prompt_sample = None" "pv_installed prompt_sample ''zenity''"
    by (simp_all add: prompt_sample_def)
  have "\<exists>ws. ways prompt_sample ''pw'' = readSecretZenity prompt_sample ''pw'' (linuxDesktopEnv prompt_sample) # ws"
    using f linux_sample by (simp add: ways_def Let_def)
  then have "Ran ''zenity'' ?args (Some ?d) \<in> set (fst (readSecretFromUser prompt_sample ''pw''))"
    using f by (auto simp: readSecretFromUser_ways ask_all_def readSecretZenity_def ask_def)
  from abandoned_prompt_stops [OF this, of "Errorf ''signal: killed''" DeadlineExceeded] show ?thesis
    by (simp add: prompt_sample_def)
qed

text \<open>A dialog the operator dismisses exits with an error of its own, which is taken for a problem of the
  environment: the operator is asked again by the next dialog, or on the terminal of the server.\<close>

theorem dismissed_dialog_asks_again:
  assumes "pv_goos v = ''linux''" "\<not> isWSL2 v" "pv_sem v = None" "pv_tty v = None"
    and "has_display (linuxDesktopEnv v)" "pv_installed v ''zenity''"
    and "\<And>args env. pv_run v ''zenity'' args env = (Inl (Errorf ''exit status 1''), None)"
  shows "\<exists>es e es'. fst (readSecretFromUser v prompt) = SemTaken # es @ [e] @ es' \<and> es \<noteq> []
    \<and> e = (if pv_installed v ''kdialog''
           then Ran ''kdialog'' [''--password'', prompt, ''--title'', ''pty-mcp'']
                  (Some (dialogEnv (pv_order v) (pv_environ v) (linuxDesktopEnv v)))
           else TtyPrompt (CHR 0x0A # ''[pty-mcp] '' @ prompt))"
proof -
  let ?env = "linuxDesktopEnv v"
  have z: "readSecretZenity v prompt ?env = ([Ran ''zenity'' [''--password'', ''--title=pty-mcp'', ''--no-markup'', ''--text='' @ prompt]
      (Some (dialogEnv (pv_order v) (pv_environ v) ?env))], Inl (Errorf ''exit status 1''))"
    using assms(7) by (simp add: readSecretZenity_def ask_def classifySecretDialogErr_def)
  have nf: "\<not> final (Inl (Errorf ''exit status 1''))"
    by (simp add: final_def errors_is_def errSecretTimeout_def)
  have t: "\<exists>es r. readSecretTTY v prompt = (TtyPrompt (CHR 0x0A # ''[pty-mcp] '' @ prompt) # es, r)"
    using assms(4) by (simp add: readSecretTTY_def split_def Let_def)
  have "\<exists>e es r. ask_all (ways v prompt) = (fst (readSecretZenity v prompt ?env) @ e # es, r) \<and>
      e = (if pv_installed v ''kdialog''
           then Ran ''kdialog'' [''--password'', prompt, ''--title'', ''pty-mcp''] (Some (dialogEnv (pv_order v) (pv_environ v) ?env))
           else TtyPrompt (CHR 0x0A # ''[pty-mcp] '' @ prompt))"
    using assms(1,2,5,6) z nf t
    by (auto simp: ways_def Let_def ask_all_def readSecretKdialog_def ask_def)
  then obtain e es r where a: "ask_all (ways v prompt) = (fst (readSecretZenity v prompt ?env) @ e # es, r)"
    and e: "e = (if pv_installed v ''kdialog''
           then Ran ''kdialog'' [''--password'', prompt, ''--title'', ''pty-mcp''] (Some (dialogEnv (pv_order v) (pv_environ v) ?env))
           else TtyPrompt (CHR 0x0A # ''[pty-mcp] '' @ prompt))" by blast
  have "fst (readSecretFromUser v prompt) = SemTaken # fst (readSecretZenity v prompt ?env) @ [e] @ es @ [SemReleased]"
    using assms(3) by (simp add: readSecretFromUser_ways a)
  moreover have "fst (readSecretZenity v prompt ?env) \<noteq> []" by (simp add: z)
  ultimately show ?thesis using e by blast
qed

lemma desktop_env_run [simp]:
  "linuxDesktopEnv (v\<lparr>pv_run := run\<rparr>) = linuxDesktopEnv v" "isWSL2 (v\<lparr>pv_run := run\<rparr>) = isWSL2 v"
  by (simp_all add: linuxDesktopEnv_def isWSL2_def Let_def cong: if_cong sum.case_cong)

lemma dismissed_dialog_asks_again_witness:
  "\<exists>v es es'. fst (readSecretFromUser v ''pw'') = SemTaken # es @ [TtyPrompt (CHR 0x0A # ''[pty-mcp] pw'')] @ es' \<and> es \<noteq> []"
proof -
  let ?v = "prompt_sample\<lparr>pv_run := \<lambda>name args env. (Inl (Errorf ''exit status 1''), None)\<rparr>"
  have v: "pv_goos ?v = ''linux''" "pv_sem ?v = None" "pv_tty ?v = None" "pv_installed ?v ''zenity''"
    "\<not> pv_installed ?v ''kdialog''" by (simp_all add: prompt_sample_def)
  have "\<exists>es e es'. fst (readSecretFromUser ?v ''pw'') = SemTaken # es @ [e] @ es' \<and> es \<noteq> []
    \<and> e = TtyPrompt (CHR 0x0A # ''[pty-mcp] pw'')"
    using dismissed_dialog_asks_again [OF v(1) _ v(2,3) _ v(4), of "''pw''"] v(5) linux_sample by simp
  then show ?thesis by blast
qed

section \<open>The environment of the dialogs\<close>

definition line_of :: "bytes \<Rightarrow> bytes \<Rightarrow> bool" where
  "line_of k line \<longleftrightarrow> (case Cut line (CHR ''='') of (k', v, ok) \<Rightarrow> ok \<and> k' = k)"

lemma recover_line_apply:
  "recover_line env l k = (if line_of k l \<and> env k \<noteq> None then Some (fst (snd (Cut l (CHR ''='')))) else env k)"
  by (cases "Cut l (CHR ''='')") (auto simp: recover_line_def line_of_def)

lemma recover_lines:
  "foldl recover_line env ls k =
     (if env k = None then None
      else case find (line_of k) (rev ls) of None \<Rightarrow> env k | Some l \<Rightarrow> Some (fst (snd (Cut l (CHR ''='')))))"
proof (induction ls rule: rev_induct)
  case (snoc l ls)
  then show ?case by (simp add: recover_line_apply split: option.split)
qed simp

text \<open>The dialogs are given the operator's display: the server's own when it has one; otherwise, for each of the
  five variables, the value of the last line of the user's systemd environment for it, or the server's own value
  when the query failed or has none, the runtime directory defaulting to the one of the user.\<close>

theorem desktop_env_recovered:
  assumes "k \<in> set desktopKeys"
  shows "linuxDesktopEnv v k = Some
    (let own = Getenv (pv_environ v);
         base = (if k = ''XDG_RUNTIME_DIR'' \<and> own k = [] then ''/run/user/'' @ dec (pv_uid v) else own k);
         query = dialogEnv (pv_order v) (pv_environ v) (\<lambda>k. if k \<notin> set desktopKeys then None
           else Some (if k = ''XDG_RUNTIME_DIR'' \<and> own k = [] then ''/run/user/'' @ dec (pv_uid v) else own k))
     in if own ''DISPLAY'' \<noteq> [] \<or> own ''WAYLAND_DISPLAY'' \<noteq> [] then own k
        else case pv_systemctl v query of
               Inl err \<Rightarrow> base
             | Inr out \<Rightarrow> (case find (line_of k) (rev (Split (CHR 0x0A) out)) of
                              None \<Rightarrow> base | Some l \<Rightarrow> fst (snd (Cut l (CHR ''='')))))"
proof -
  let ?own = "Getenv (pv_environ v)"
  let ?env = "foldl (\<lambda>env k. env(k \<mapsto> ?own k)) Map.empty desktopKeys"
  let ?base = "\<lambda>k. if k = ''XDG_RUNTIME_DIR'' \<and> ?own k = [] then ''/run/user/'' @ dec (pv_uid v) else ?own k"
  have e: "?env = (\<lambda>k. if k \<in> set desktopKeys then Some (?own k) else None)"
    by (rule ext) (auto simp: desktopKeys_def)
  have d: "has_display ?env \<longleftrightarrow> ?own ''DISPLAY'' \<noteq> [] \<or> ?own ''WAYLAND_DISPLAY'' \<noteq> []"
    by (simp add: e has_display_def env_at_def desktopKeys_def)
  have b: "(if env_at ?env ''XDG_RUNTIME_DIR'' = [] then ?env(''XDG_RUNTIME_DIR'' \<mapsto> ''/run/user/'' @ dec (pv_uid v)) else ?env)
      = (\<lambda>k. if k \<notin> set desktopKeys then None else Some (?base k))"
    by (rule ext) (auto simp: e env_at_def desktopKeys_def)
  show ?thesis
    unfolding linuxDesktopEnv_def Let_def b d
    using assms by (auto simp: e recover_lines split: sum.split option.split)
qed

lemma desktop_env_recovered_witness:
  "linuxDesktopEnv prompt_sample ''DISPLAY'' = Some '':0''"
proof -
  have g: "Getenv (pv_environ prompt_sample) ''DISPLAY'' = '':0''" by code_simp
  have "''DISPLAY'' \<in> set desktopKeys" by (simp add: desktopKeys_def)
  from desktop_env_recovered [OF this, of prompt_sample] g show ?thesis by simp
qed

end
