(* ===== verification/Tool_Calls.thy ===== *)
theory Tool_Calls
  imports Mcp_Server Secret_Prompt
begin

text \<open>
  A tool call from the wire to the session and back: decoding the arguments (\<open>UnmarshalMcpArgs\<close>), the
  handler, and the JSON of its result. The conversion of the decoded map into the parameters of a tool is the
  package \<open>mapstructure\<close>, a parameter here (\<open>decoders\<close>); the map itself is
  \<open>encoding/json\<close>'s.
\<close>

section \<open>Arguments\<close>

fun raw_map :: "raw \<Rightarrow> (bytes \<times> json) list result" where
  "raw_map (RObj t fs) = Inr (map (map_prod id raw_json) fs)"
| "raw_map (RVal t JNull) = Inr []"
| "raw_map r = Inl (type_error [] (raw_json r) ''map[string]interface {}'')"

definition UnmarshalMcpArgs :: "((bytes \<times> json) list \<Rightarrow> 'p result) \<Rightarrow> raw option \<Rightarrow> 'p result" where
  "UnmarshalMcpArgs decode data =
     (case data of
        None \<Rightarrow> Inl (Errorf ''unexpected end of JSON input'')
      | Some r \<Rightarrow> bind_result (raw_map r) decode)"

record decoders =
  dc_SendInput :: "(bytes \<times> json) list \<Rightarrow> SendInputParams result"
  dc_ReadOutput :: "(bytes \<times> json) list \<Rightarrow> ReadOutputParams result"
  dc_SendControl :: "(bytes \<times> json) list \<Rightarrow> SendControlParams result"
  dc_SessionID :: "(bytes \<times> json) list \<Rightarrow> SessionIDParams result"
  dc_Resize :: "(bytes \<times> json) list \<Rightarrow> ResizeSessionParams result"
  dc_PrepareSecret :: "(bytes \<times> json) list \<Rightarrow> PrepareSecretParams result"
  dc_SendSecret :: "(bytes \<times> json) list \<Rightarrow> SendSecretParams result"

definition decoded :: "((bytes \<times> json) list \<Rightarrow> 'p result) \<Rightarrow> ('p \<Rightarrow> 'c) \<Rightarrow> raw option \<Rightarrow> 'c result" where
  "decoded decode c args = bind_result (UnmarshalMcpArgs decode args) (\<lambda>p. Inr (c p))"

text \<open>The call a tool makes of its arguments, for the tools that work on one session.\<close>

fun call_of :: "decoders \<Rightarrow> tool \<Rightarrow> raw option \<Rightarrow> call result option" where
  "call_of d T_SendInput args = Some (decoded (dc_SendInput d) C_SendInput args)"
| "call_of d T_ReadOutput args = Some (decoded (dc_ReadOutput d) C_ReadOutput args)"
| "call_of d T_SendControl args = Some (decoded (dc_SendControl d) C_SendControl args)"
| "call_of d T_GetSessionState args = Some (decoded (dc_SessionID d) C_GetSessionState args)"
| "call_of d T_ListSessions args = Some (Inr C_ListSessions)"
| "call_of d T_CloseSession args = Some (decoded (dc_SessionID d) C_CloseSession args)"
| "call_of d T_DetachSession args = Some (decoded (dc_SessionID d) C_DetachSession args)"
| "call_of d T_ResizeSession args = Some (decoded (dc_Resize d) C_ResizeSession args)"
| "call_of d T_PrepareSecret args = Some (decoded (dc_PrepareSecret d) C_PrepareSecret args)"
| "call_of d T_SendSecret args = Some (decoded (dc_SendSecret d) C_SendSecret args)"
| "call_of d t args = None"

section \<open>Results\<close>

definition json_state :: "state \<Rightarrow> bytes" where
  "json_state s = (case s of At_prompt \<Rightarrow> ''at_prompt'' | Password_prompt \<Rightarrow> ''password_prompt'' | Confirmation \<Rightarrow> ''confirmation''
     | Pager \<Rightarrow> ''pager'' | state.Running \<Rightarrow> ''running'' | Unknown \<Rightarrow> ''unknown'')"

text \<open>\<open>omitempty\<close>: the member is left out when its value is the zero value.\<close>

definition opt_str :: "bytes \<Rightarrow> bytes \<Rightarrow> (bytes \<times> json) list" where
  "opt_str name s = (if s = [] then [] else [(name, Str s)])"

definition opt_true :: "bytes \<Rightarrow> bool \<Rightarrow> (bytes \<times> json) list" where
  "opt_true name b = (if b then [(name, JBool True)] else [])"

definition json_WaitForResult :: "WaitForResult \<Rightarrow> int \<Rightarrow> json" where
  "json_WaitForResult r cursor = JObj ([(''matched'', JBool (wr_Matched r))] @ opt_true ''timed_out'' (wr_TimedOut r)
     @ opt_str ''match_line'' (wr_MatchLine r) @ opt_str ''context'' (wr_Context r) @ [(''cursor'', JInt cursor)]
     @ opt_str ''error'' (wr_Error r) @ opt_str ''tail'' (wr_Tail r) @ opt_str ''warning'' (wr_Warning r)
     @ opt_true ''is_truncated'' (wr_IsTruncated r) @ [(''is_alive'', JBool (wr_IsAlive r))])"

definition json_Info :: "(int \<Rightarrow> bytes) \<Rightarrow> Info \<Rightarrow> json" where
  "json_Info fmt i = JObj [(''id'', Str (in_ID i)), (''type'', Str (in_Type i)), (''target'', Str (in_Target i)),
     (''is_alive'', JBool (in_IsAlive i)), (''created_at'', Str (fmt (in_CreatedAt i))), (''last_used'', Str (fmt (in_LastUsed i)))]"

text \<open>Maps are encoded with their keys sorted; \<open>fmt\<close> prints a time.\<close>

fun json_result :: "(int \<Rightarrow> bytes) \<Rightarrow> tool_result \<Rightarrow> json" where
  "json_result fmt (Screen out cursor start alive complete) = JObj ([(''cursor'', JInt cursor)]
     @ (case start of None \<Rightarrow> [] | Some c \<Rightarrow> [(''cursor_end'', JInt cursor), (''cursor_start'', JInt c)])
     @ [(''is_alive'', JBool alive), (''is_complete'', JBool complete), (''output'', Str out)])"
| "json_result fmt (Waited r cursor) = json_WaitForResult r cursor"
| "json_result fmt (Incremental out cursor hasMore truncated alive) = JObj [(''cursor'', JInt cursor), (''has_more'', JBool hasMore),
     (''is_alive'', JBool alive), (''is_truncated'', JBool truncated), (''output'', Str out)]"
| "json_result fmt (Created ID ty target) = JObj (if ty = ''local''
     then [(''command'', Str target), (''session_id'', Str ID), (''type'', Str ty)]
     else [(''session_id'', Str ID), (''target'', Str target), (''type'', Str ty)])"
| "json_result fmt (SessionState ID ty target alive cursor cls created used) = JObj [(''awaiting_secret'', JBool (cl_AwaitingSecret cls)),
     (''created_at'', Str (fmt created)), (''cursor'', JInt cursor), (''is_alive'', JBool alive),
     (''last_prompt'', Str (cl_LastPrompt cls)), (''last_used'', Str (fmt used)), (''session_id'', Str ID),
     (''state'', Str (json_state (cl_State cls))), (''target'', Str target), (''type'', Str ty)]"
| "json_result fmt (Sessions infos) = JArr (map (json_Info fmt) infos)"
| "json_result fmt Success = JObj [(''success'', JBool True)]"
| "json_result fmt Buffered = JObj [(''buffered'', JBool True), (''success'', JBool True)]"
| "json_result fmt (Resized rows cols) = JObj [(''cols'', JInt cols), (''rows'', JInt rows), (''success'', JBool True)]"

section \<open>The whole call\<close>

text \<open>
  \<open>run\<close> serves the session tools as the handlers do: it is the argument of the server's dispatch, which the
  handlers determine on every call that returns.
\<close>

definition serves :: "decoders \<Rightarrow> (int \<Rightarrow> bytes) \<Rightarrow> 'w env \<Rightarrow> (tool \<Rightarrow> raw option \<Rightarrow> 'w world \<Rightarrow> 'w world \<times> json result) \<Rightarrow> bool" where
  "serves d fmt e run \<longleftrightarrow> (\<forall>t args w. case call_of d t args of
       None \<Rightarrow> True
     | Some (Inl err) \<Rightarrow> run t args w = (w, Inl err)
     | Some (Inr c) \<Rightarrow> (\<forall>w' r. run_call e c w = Returns (w', r) \<longrightarrow> run t args w = (w', map_sum id (json_result fmt) r)))"

text \<open>A request that calls a tool.\<close>

definition tool_request :: "bytes \<Rightarrow> bytes \<Rightarrow> raw \<Rightarrow> request" where
  "tool_request ID name args = \<lparr>q_JSONRPC = ''2.0'', q_ID = ID, q_Method = ''tools/call'',
     q_Params = Some (RObj [] [(''name'', RVal [] (JStr name)), (''arguments'', args)])\<rparr>"

lemma handle_tool_request:
  assumes "tool_of name = Some t"
  shows "handle run (tool_request ID name args) w =
    (case run t (Some args) w of
       (w, Inl err) \<Rightarrow> (w, okResp ID (TextResult (json_ToolError (classifyError err)) True))
     | (w, Inr v) \<Rightarrow> (w, okResp ID (TextResult v False)))"
proof -
  have names: "same_name ''name'' ''name''" "\<not> same_name ''arguments'' ''name''" "same_name ''arguments'' ''arguments''"
    "\<not> same_name ''name'' ''arguments''" by code_simp+
  then show ?thesis
    using assms by (simp add: handle_def handleToolCall_def tool_request_def get_string_def)
qed


definition decoders_sample :: decoders where
  "decoders_sample = \<lparr>dc_SendInput = (\<lambda>_. Inl (Errorf ''no'')), dc_ReadOutput = (\<lambda>_. Inl (Errorf ''no'')),
     dc_SendControl = (\<lambda>_. Inl (Errorf ''no'')),
     dc_SessionID = (\<lambda>fs. map_sum id on_session (get_string ''session_id'' fs)),
     dc_Resize = (\<lambda>_. Inl (Errorf ''no'')), dc_PrepareSecret = (\<lambda>_. Inl (Errorf ''no'')),
     dc_SendSecret = (\<lambda>_. Inl (Errorf ''no''))\<rparr>"

definition run_sample :: "tool \<Rightarrow> raw option \<Rightarrow> unit world \<Rightarrow> unit world \<times> json result" where
  "run_sample t args w =
     (case call_of decoders_sample t args of
        None \<Rightarrow> (w, Inr JNull)
      | Some (Inl err) \<Rightarrow> (w, Inl err)
      | Some (Inr c) \<Rightarrow> (case run_call call_env c w of
            Returns (w', r) \<Rightarrow> (w', map_sum id (json_result (\<lambda>_. [])) r) | _ \<Rightarrow> (w, Inr JNull)))"

lemma serves_sample: "serves decoders_sample (\<lambda>_. []) call_env run_sample"
  by (auto simp: serves_def run_sample_def split: option.split sum.split)


section \<open>Secrets stay out of the replies\<close>

lemma secret_frame:
  "ev_queue (e\<lparr>ev_secret := x\<rparr>) = ev_queue e" "ev_lockErr (e\<lparr>ev_secret := x\<rparr>) = ev_lockErr e"
  "ev_pick (e\<lparr>ev_secret := x\<rparr>) = ev_pick e" "fetch (e\<lparr>ev_secret := x\<rparr>) = fetch e" "ev_ctxErr (e\<lparr>ev_secret := x\<rparr>) = ev_ctxErr e"
  "obj_WriteRaw (e\<lparr>ev_secret := x\<rparr>) = obj_WriteRaw e"
  by (simp_all add: fetch_def obj_WriteRaw_def fun_eq_iff)

text \<open>Whether a write to a session of this machine fails does not depend on what is written.\<close>

definition local_object :: "session \<Rightarrow> bool" where
  "local_object s \<longleftrightarrow> (case s of RemoteS _ \<Rightarrow> False | _ \<Rightarrow> True)"

lemma write_error_blind:
  assumes "local_object (wd_heap w s)"
  shows "snd (obj_WriteRaw e s x w) = snd (obj_WriteRaw e s y w)"
  using assms
  by (cases "wd_heap w s")
    (auto simp: obj_WriteRaw_def local_object_def pty_WriteRaw_def ssh_WriteRaw_def serial_WriteRaw_def Let_def split: prod.splits)

definition all_local :: "'w world \<Rightarrow> bool" where
  "all_local w \<longleftrightarrow> (\<forall>s. local_object (wd_heap w s))"

definition reply_of :: "('w, 'a) outcome_of \<Rightarrow> 'a result option" where
  "reply_of r = (case r of Returns (w, res) \<Rightarrow> Some res | _ \<Rightarrow> None)"

lemma reply_of_simps [simp]: "reply_of (Returns (w, res)) = Some res" "reply_of Panics = None" "reply_of StillWaiting = None"
  by (simp_all add: reply_of_def)

lemma reply_of_then [simp]:
  "reply_of (case b of Panics \<Rightarrow> Panics | StillWaiting \<Rightarrow> StillWaiting | Returns (w, r) \<Rightarrow> Returns (f w, r)) = reply_of b"
  by (cases b) (auto simp: reply_of_def)

lemma reply_of_locked:
  assumes "\<And>w. wd_heap w = wd_heap (ev_queue e w0) \<Longrightarrow> reply_of (body1 w) = reply_of (body2 w)"
  shows "reply_of (locked e ID w0 body1) = reply_of (locked e ID w0 body2)"
  using assms by (auto simp: locked_def Let_def set_mgr_def split: option.split)

lemma fetch_heap: "fetch e ID w = (w', r) \<Longrightarrow> wd_heap w' = wd_heap w"
  by (auto simp: fetch_def set_mgr_def split: prod.splits)

lemma reply_of_fetch_locked:
  assumes "\<And>s v. wd_heap v = wd_heap (ev_queue e (fst (fetch e ID w))) \<Longrightarrow> reply_of (b1 s v) = reply_of (b2 s v)"
  shows "reply_of (fetch_locked e ID w b1) = reply_of (fetch_locked e ID w b2)"
proof -
  obtain w1 r where f: "fetch e ID w = (w1, r)" by fastforce
  have "reply_of (locked e ID w1 (\<lambda>w. case fetch e ID w of (w, Inl err) \<Rightarrow> Returns (w, Inl err) | (w, Inr s) \<Rightarrow> b1 s w))
      = reply_of (locked e ID w1 (\<lambda>w. case fetch e ID w of (w, Inl err) \<Rightarrow> Returns (w, Inl err) | (w, Inr s) \<Rightarrow> b2 s w))"
  proof (rule reply_of_locked)
    fix v :: "'a world" assume h: "wd_heap v = wd_heap (ev_queue e w1)"
    obtain v1 q where g: "fetch e ID v = (v1, q)" by fastforce
    show "reply_of (case fetch e ID v of (w, Inl err) \<Rightarrow> Returns (w, Inl err) | (w, Inr s) \<Rightarrow> b1 s w)
        = reply_of (case fetch e ID v of (w, Inl err) \<Rightarrow> Returns (w, Inl err) | (w, Inr s) \<Rightarrow> b2 s w)"
      using assms [of v1] fetch_heap [OF g] h f g by (cases q) simp_all
  qed
  then show ?thesis by (cases r) (simp_all add: fetch_locked_def f)
qed

lemma locked_secret: "locked (e\<lparr>ev_secret := x\<rparr>) = locked e"
  unfolding locked_def secret_frame ..

lemma fetch_locked_secret: "fetch_locked (e\<lparr>ev_secret := x\<rparr>) = fetch_locked e"
  unfolding fetch_locked_def secret_frame locked_secret ..

lemma SendSecret_body: "SendSecret (e\<lparr>ev_secret := x\<rparr>) p w
    = fetch_locked e (sn_SessionID p) w (send_secret_body e (sn_SessionID p) (x (secret_prompt (sn_Prompt p))))"
  unfolding SendSecret_def fetch_locked_secret send_secret_body_def secret_frame by simp

lemma send_secret_blind:
  assumes "all_local v"
  shows "reply_of (send_secret_body e ID (Inr a) s v) = reply_of (send_secret_body e ID (Inr b) s v)"
proof (cases "TakeSecret ID (wd_mgr v)")
  case (Pair m ps)
  have "local_object (wd_heap (set_mgr v m) s)" using assms by (simp add: all_local_def set_mgr_def)
  then have "snd (obj_WriteRaw e s (a @ [CR]) (set_mgr v m)) = snd (obj_WriteRaw e s (b @ [CR]) (set_mgr v m))"
    by (rule write_error_blind)
  then show ?thesis
    using Pair by (cases ps; cases "ev_ctxErr e") (auto simp: send_secret_body_def split: prod.split option.split)
qed


lemma world_sample_local: "all_local world_sample"
  by (simp add: all_local_def local_object_def world_sample_def split: session.split)


end
