(* ===== verification/Log_Rotator.thy ===== *)
theory Log_Rotator
  imports Go_Errors
begin

text \<open>
  The rotating log file of a session (\<open>logRotator\<close> in \<open>internal/mcp/tools.go\<close>). The disk maps 0 to
  the log itself and \<open>i\<close> to its backup \<open>path.i\<close>; a missing file is \<open>None\<close>.
\<close>

section \<open>State and operations\<close>

type_synonym disk = "nat \<rightharpoonup> bytes"

record log_rotator =
  lr_maxSize :: int
  lr_maxFiles :: int
  lr_open :: bool
  lr_size :: int

text \<open>Multiplication of two \<open>int64\<close> wraps around.\<close>

definition wrap64 :: "int \<Rightarrow> int" where
  "wrap64 n = (n + 2 ^ 63) mod 2 ^ 64 - 2 ^ 63"

text \<open>\<open>openErr\<close> and \<open>statErr\<close> are the outcomes of opening and examining the file.\<close>

definition newLogRotator ::
  "bytes \<Rightarrow> go_error option \<Rightarrow> go_error option \<Rightarrow> int \<Rightarrow> int \<Rightarrow> disk \<Rightarrow> disk \<times> log_rotator result" where
  "newLogRotator path openErr statErr maxSizeMB maxFiles d =
     (case openErr of
        Some err \<Rightarrow> (d, Inl (Wrap (''open log_file '' @ Quote path) err))
      | None \<Rightarrow>
          (let content = (case d 0 of None \<Rightarrow> [] | Some c \<Rightarrow> c);
               d = d(0 \<mapsto> content)
           in case statErr of
                Some err \<Rightarrow> (d, Inl err)
              | None \<Rightarrow> (d, Inr \<lparr>lr_maxSize = wrap64 (wrap64 (maxSizeMB * 1024) * 1024),
                                lr_maxFiles = (if maxFiles \<le> 0 then 3 else maxFiles), lr_open = True,
                                lr_size = int (length content)\<rparr>)))"

text \<open>\<open>os.Rename\<close>: a missing source is an error, which the code ignores.\<close>

definition rename :: "nat \<Rightarrow> nat \<Rightarrow> disk \<Rightarrow> disk" where
  "rename i j d = (case d i of None \<Rightarrow> d | Some c \<Rightarrow> d(i := None, j \<mapsto> c))"

text \<open>The loop from \<open>i = maxFiles\<close> down to 2.\<close>

fun shift :: "nat \<Rightarrow> disk \<Rightarrow> disk" where
  "shift i d = (if i > 1 then shift (i - 1) (rename (i - 1) i d) else d)"

declare shift.simps [simp del]

text \<open>\<open>opens\<close>: whether the new log file can be opened.\<close>

definition rotate :: "bool \<Rightarrow> log_rotator \<Rightarrow> disk \<Rightarrow> log_rotator \<times> disk" where
  "rotate opens r d =
     (let d = rename 0 1 (shift (nat (lr_maxFiles r)) d)
      in if \<not> opens then (r\<lparr>lr_open := False\<rparr>, d)
         else (r\<lparr>lr_open := True, lr_size := 0\<rparr>, d(0 \<mapsto> [])))"

text \<open>
  \<open>took\<close> is how many bytes the file takes when it does not take all of them, and the error it then gives.
\<close>

definition log_Write ::
  "bool \<Rightarrow> (nat \<times> go_error) option \<Rightarrow> bytes \<Rightarrow> log_rotator \<Rightarrow> disk \<Rightarrow> (log_rotator \<times> disk) \<times> int \<times> go_error option" where
  "log_Write opens took p r d =
     (let (r, d) = (if lr_maxSize r > 0 \<and> lr_size r + int (length p) > lr_maxSize r then rotate opens r d else (r, d))
      in if \<not> lr_open r then ((r, d), 0, Some (Errorf ''log file closed''))
         else let q = (case took of None \<Rightarrow> p | Some (n, _) \<Rightarrow> take n p);
                  d = d(0 \<mapsto> (case d 0 of None \<Rightarrow> [] | Some c \<Rightarrow> c) @ q)
              in ((r\<lparr>lr_size := lr_size r + int (length q)\<rparr>, d), int (length q), map_option snd took))"

definition log_Close :: "go_error option \<Rightarrow> log_rotator \<Rightarrow> log_rotator \<times> go_error option" where
  "log_Close err r = (if \<not> lr_open r then (r, None) else (r\<lparr>lr_open := False\<rparr>, err))"

definition openLogWriter ::
  "bytes \<Rightarrow> go_error option \<Rightarrow> go_error option \<Rightarrow> int \<Rightarrow> int \<Rightarrow> disk \<Rightarrow> disk \<times> log_rotator option result" where
  "openLogWriter path openErr statErr maxSizeMB maxFiles d =
     (if path = [] then (d, Inr None)
      else case newLogRotator path openErr statErr maxSizeMB maxFiles d of
             (d, Inl err) \<Rightarrow> (d, Inl err)
           | (d, Inr r) \<Rightarrow> (d, Inr (Some r)))"

section \<open>What rotation keeps\<close>

definition file_text :: "disk \<Rightarrow> nat \<Rightarrow> bytes" where
  "file_text d i = (case d i of None \<Rightarrow> [] | Some c \<Rightarrow> c)"

text \<open>The backups \<open>n\<close>, \<dots>, 1 and the log itself, oldest first.\<close>

definition logs :: "nat \<Rightarrow> disk \<Rightarrow> bytes" where
  "logs n d = concat (map (file_text d) (rev [0..<Suc n]))"

lemma logs_Suc: "logs (Suc n) d = file_text d (Suc n) @ logs n d"
  by (simp add: logs_def)

text \<open>After the shift, number \<open>i + 1\<close> holds what number \<open>i\<close> held; only the last may be overwritten.\<close>

lemma shift_apply:
  "1 \<le> n \<Longrightarrow> shift n d j =
     (if j = 0 \<or> n < j then d j
      else if j = 1 then (if n = 1 then d 1 else None)
      else if j < n then d (j - 1)
      else (case d (n - 1) of None \<Rightarrow> d n | Some c \<Rightarrow> Some c))"
proof (induction n arbitrary: d)
  case (Suc n)
  show ?case
  proof (cases "n = 0")
    case True
    then have "j = 0 \<or> j = 1 \<or> 1 < j" by auto
    with True show ?thesis by (subst shift.simps) auto
  next
    case False
    let ?d = "rename n (Suc n) d"
    have r: "?d i = (if d n = None then d i else if i = n then None else if i = Suc n then d n else d i)" for i
      by (simp add: rename_def split: option.split)
    have "shift (Suc n) d = shift n ?d" using False by (subst shift.simps) simp
    moreover have "shift n ?d j =
      (if j = 0 \<or> n < j then ?d j else if j = 1 then (if n = 1 then ?d 1 else None)
       else if j < n then ?d (j - 1) else (case ?d (n - 1) of None \<Rightarrow> ?d n | Some c \<Rightarrow> Some c))"
      by (rule Suc.IH) (use False in simp)
    ultimately have e: "shift (Suc n) d j =
      (if j = 0 \<or> n < j then ?d j else if j = 1 then (if n = 1 then ?d 1 else None)
       else if j < n then ?d (j - 1) else (case ?d (n - 1) of None \<Rightarrow> ?d n | Some c \<Rightarrow> Some c))" by (simp only:)
    have "n < j \<or> j = n \<or> j < n" by arith
    then show ?thesis
    proof (elim disjE)
      assume "n < j"
      then show ?thesis unfolding e using False r [of j] by (cases "d n"; cases "j = Suc n") auto
    next
      assume "j = n"
      then show ?thesis unfolding e using False r [of n] r [of "n - 1"] r [of 1] by (cases "d n"; cases "d (n - 1)") auto
    next
      assume "j < n"
      then show ?thesis unfolding e using r [of j] r [of "j - 1"] by auto
    qed
  qed
qed simp

lemma logs_shifted:
  assumes "1 \<le> n" and "d' 0 = Some []" and "d' 1 = (case d 0 of None \<Rightarrow> (if n = 1 then d 1 else None) | Some c \<Rightarrow> Some c)"
    and "\<And>j. 2 \<le> j \<Longrightarrow> j < n \<Longrightarrow> d' j = d (j - 1)"
    and "2 \<le> n \<Longrightarrow> d' n = (case d (n - 1) of None \<Rightarrow> d n | Some c \<Rightarrow> Some c)"
  shows "\<exists>dropped. logs n d = dropped @ logs n d'"
proof -
  have body: "logs m d' = logs (m - 1) d" if "1 \<le> m" "m < n" for m
    using that
  proof (induction m)
    case (Suc m)
    show ?case
    proof (cases "m = 0")
      case True
      with Suc.prems assms(2,3) show ?thesis by (auto simp: logs_def file_text_def split: option.splits)
    next
      case False
      with Suc.IH Suc.prems have "logs m d' = logs (m - 1) d" by simp
      moreover have "d' (Suc m) = d m" using assms(4) [of "Suc m"] Suc.prems False by simp
      ultimately show ?thesis using False logs_Suc [of "m - 1" d]
        by (simp add: logs_Suc file_text_def)
    qed
  qed simp
  show ?thesis
  proof (cases "n = 1")
    case True
    with assms(2,3) show ?thesis by (auto simp: logs_def file_text_def split: option.splits)
  next
    case False
    with assms(1) obtain m where m: "n = Suc m" "1 \<le> m" by (cases n) auto
    have b: "logs m d' = logs (m - 1) d" using body m by simp
    have d: "logs n d = file_text d n @ file_text d m @ logs (m - 1) d"
      using m logs_Suc [of "m - 1" d] by (simp add: logs_Suc)
    show ?thesis
    proof (cases "d m")
      case None
      with assms(5) m have "file_text d' n = file_text d n" "file_text d m = []" by (simp_all add: file_text_def)
      with b d m show ?thesis by (intro exI [of _ "[]"]) (simp add: logs_Suc)
    next
      case (Some c)
      with assms(5) m have "file_text d' n = file_text d m" by (simp add: file_text_def)
      with b d m show ?thesis by (intro exI [of _ "file_text d n"]) (simp add: logs_Suc)
    qed
  qed
qed

lemma rotate_keeps:
  assumes "rotate True r d = (r', d')" and "0 < lr_maxFiles r"
  shows "r' = r\<lparr>lr_open := True, lr_size := 0\<rparr>" "d' 0 = Some []"
    "\<exists>dropped. logs (nat (lr_maxFiles r)) d = dropped @ logs (nat (lr_maxFiles r)) d'"
    "\<And>j. nat (lr_maxFiles r) < j \<Longrightarrow> d' j = d j"
proof -
  let ?n = "nat (lr_maxFiles r)"
  have n: "1 \<le> ?n" using assms(2) by simp
  have r: "r' = r\<lparr>lr_open := True, lr_size := 0\<rparr>" and d': "d' = (rename 0 1 (shift ?n d))(0 \<mapsto> [])"
    using assms(1) by (auto simp: rotate_def Let_def)
  note s = shift_apply [OF n, of d]
  show "r' = r\<lparr>lr_open := True, lr_size := 0\<rparr>" by (rule r)
  show 0: "d' 0 = Some []" by (simp add: d')
  show "\<exists>dropped. logs ?n d = dropped @ logs ?n d'"
    by (rule logs_shifted [where d = d and d' = d', OF n 0]) (use n s in \<open>auto simp: d' rename_def split: option.splits\<close>)
  show "d' j = d j" if "?n < j" for j
    using that n by (auto simp: d' rename_def s split: option.splits)
qed

text \<open>Writing while the file is open and the disk takes everything.\<close>

definition rotator_ok :: "log_rotator \<Rightarrow> disk \<Rightarrow> bool" where
  "rotator_ok r d \<longleftrightarrow> lr_open r \<and> 0 < lr_maxFiles r \<and> (\<exists>c. d 0 = Some c \<and> lr_size r = int (length c))"

fun log_writes :: "bytes list \<Rightarrow> log_rotator \<Rightarrow> disk \<Rightarrow> log_rotator \<times> disk" where
  "log_writes [] r d = (r, d)"
| "log_writes (p # ps) r d = (let ((r, d), _) = log_Write True None p r d in log_writes ps r d)"

lemma log_Write_open:
  assumes "rotator_ok r d"
  obtains r' d' where "log_Write True None p r d = ((r', d'), int (length p), None)" "rotator_ok r' d'"
    "\<exists>dropped. logs (nat (lr_maxFiles r)) d @ p = dropped @ logs (nat (lr_maxFiles r)) d'"
    "lr_maxFiles r' = lr_maxFiles r" "lr_maxSize r' = lr_maxSize r" "suffix p (file_text d' 0)"
    "0 < lr_maxSize r \<Longrightarrow> lr_size r' \<le> max (lr_maxSize r) (int (length p))"
    "\<And>j. nat (lr_maxFiles r) < j \<Longrightarrow> d' j = d j"
proof -
  let ?n = "nat (lr_maxFiles r)"
  obtain r1 d1 where rd: "(if lr_maxSize r > 0 \<and> lr_size r + int (length p) > lr_maxSize r then rotate True r d else (r, d)) = (r1, d1)"
    by fastforce
  have 1: "rotator_ok r1 d1 \<and> (\<exists>dropped. logs ?n d = dropped @ logs ?n d1) \<and> lr_maxFiles r1 = lr_maxFiles r
      \<and> lr_maxSize r1 = lr_maxSize r
      \<and> (0 < lr_maxSize r \<longrightarrow> lr_size r1 + int (length p) \<le> max (lr_maxSize r) (int (length p))) \<and> (\<forall>j. ?n < j \<longrightarrow> d1 j = d j)"
  proof (cases "lr_maxSize r > 0 \<and> lr_size r + int (length p) > lr_maxSize r")
    case True
    with rd have rot: "rotate True r d = (r1, d1)" by simp
    have pos: "0 < lr_maxFiles r" using assms by (simp add: rotator_ok_def)
    from rotate_keeps [OF rot pos] pos show ?thesis by (auto simp: rotator_ok_def)
  next
    case False
    with rd have "r1 = r" "d1 = d" by (simp_all split: if_splits)
    with False assms show ?thesis by (auto intro: exI [of _ "[]"])
  qed
  then have ok1: "rotator_ok r1 d1" by blast
  from ok1 obtain c where c: "d1 0 = Some c" "lr_size r1 = int (length c)" "lr_open r1" "0 < lr_maxFiles r1"
    by (auto simp: rotator_ok_def)
  let ?r = "r1\<lparr>lr_size := lr_size r1 + int (length p)\<rparr>" and ?d = "d1(0 \<mapsto> c @ p)"
  have w: "log_Write True None p r d = ((?r, ?d), int (length p), None)"
    unfolding log_Write_def rd by (simp add: c Let_def)
  have "logs m ?d = logs m d1 @ p" for m
  proof (induction m)
    case 0
    show ?case by (simp add: logs_def file_text_def c)
  next
    case (Suc m)
    then show ?case by (simp add: logs_Suc) (simp add: file_text_def)
  qed
  with 1 have "\<exists>dropped. logs ?n d @ p = dropped @ logs ?n ?d" by auto
  moreover have "rotator_ok ?r ?d" using c by (simp add: rotator_ok_def)
  moreover have "suffix p (file_text ?d 0)" by (simp add: file_text_def suffixI)
  ultimately show thesis using w 1 by (intro that [of ?r ?d]) auto
qed



text \<open>A closed log comes back to life: a write after \<open>Close\<close> that exceeds the limit rotates first, which
  opens a new file, so the write succeeds where it should report that the log is closed, and the file stays
  open.\<close>

theorem write_after_Close_reopens:
  assumes "rotator_ok r d" and "0 < lr_maxSize r" and "lr_maxSize r < lr_size r + int (length p)"
  shows "\<exists>r' d'. log_Write True None p (fst (log_Close None r)) d = ((r', d'), int (length p), None) \<and> lr_open r'"
  using assms by (auto simp: log_Close_def log_Write_def rotate_def rotator_ok_def Let_def)

lemma write_after_Close_reopens_witness:
  "snd (snd (log_Write True None ''ab'' (fst (log_Close None \<lparr>lr_maxSize = 4, lr_maxFiles = 1, lr_open = True, lr_size = 3\<rparr>)) [0 \<mapsto> ''xyz'']))
     = None"
  using write_after_Close_reopens [of "\<lparr>lr_maxSize = 4, lr_maxFiles = 1, lr_open = True, lr_size = 3\<rparr>" "[0 \<mapsto> ''xyz'']" "''ab''"]
  by (auto simp: rotator_ok_def)

end
