(* ===== verification/Ssh_Client.thy ===== *)
theory Ssh_Client
  imports Sessions
begin

text \<open>
  How \<open>internal/session/ssh.go\<close> connects: the defaults taken from the operator's SSH configuration, the
  authentication methods offered, the host key policy, the version check of the remote daemon, the setting up
  of plain and persistent sessions and the listing of remote ones; and the \<open>ai-tmux\<close> client at the other end
  (\<open>internal/aitx/client.go\<close>). Files, key parsing and the SSH configuration arrive as functions, the outcomes
  of the SSH library as an environment; the calls of it are recorded in order, so that what is opened and
  closed can be counted.
\<close>

section \<open>Versions\<close>

definition minAiTmuxVersion :: bytes where "minAiTmuxVersion = ''0.9.0''"

definition parseAiTmuxVersion :: "bytes \<Rightarrow> bytes" where
  "parseAiTmuxVersion output = (let fields = Fields output in if length fields \<ge> 2 then fields ! 1 else [])"

text \<open>The three numbers of a version, ordered as \<open>semverAtLeast\<close> compares them.\<close>

datatype semver = Semver int int int

instantiation semver :: linorder
begin

fun less_semver :: "semver \<Rightarrow> semver \<Rightarrow> bool" where
  "Semver a b c < Semver x y z \<longleftrightarrow> a < x \<or> a = x \<and> (b < y \<or> b = y \<and> c < z)"

definition less_eq_semver :: "semver \<Rightarrow> semver \<Rightarrow> bool" where
  "v \<le> w \<longleftrightarrow> v < w \<or> v = (w :: semver)"

instance
proof
  fix u v w :: semver
  show "u < v \<longleftrightarrow> u \<le> v \<and> \<not> v \<le> u" by (cases u; cases v) (auto simp: less_eq_semver_def)
  show "u \<le> u" by (simp add: less_eq_semver_def)
  show "u \<le> v \<Longrightarrow> v \<le> w \<Longrightarrow> u \<le> w" by (cases u; cases v; cases w) (auto simp: less_eq_semver_def)
  show "u \<le> v \<Longrightarrow> v \<le> u \<Longrightarrow> u = v" by (cases u; cases v) (auto simp: less_eq_semver_def)
  show "u \<le> v \<or> v \<le> u" by (cases u; cases v) (auto simp: less_eq_semver_def)
qed

end

definition split_version :: "bytes \<Rightarrow> int list" where
  "split_version s =
     (let parts = SplitN CHR ''.'' 3 s; parts = parts @ replicate (3 - length parts) ''0''
      in map (\<lambda>p. fst (Atoi p)) (take 3 parts))"

text \<open>The comparison loop over the three positions.\<close>

fun at_least :: "int list \<Rightarrow> int list \<Rightarrow> bool" where
  "at_least (v # vs) (m # ms) = (if v < m then False else if v > m then True else at_least vs ms)"
| "at_least _ _ = True"

definition semverAtLeast :: "bytes \<Rightarrow> bytes \<Rightarrow> bool" where
  "semverAtLeast v m = (if v = ''dev'' \<or> m = ''dev'' then True else at_least (split_version v) (split_version m))"

definition to_semver :: "bytes \<Rightarrow> semver" where
  "to_semver s = (case split_version s of [a, b, c] \<Rightarrow> Semver a b c | _ \<Rightarrow> Semver 0 0 0)"

text \<open>The check of \<open>NewRemoteSSHSession\<close>; \<open>output\<close> is what running \<open>ai-tmux --version\<close> gave.\<close>

definition version_check :: "bytes \<Rightarrow> bytes result \<Rightarrow> unit result" where
  "version_check host output =
     (case output of
        Inl _ \<Rightarrow> Inl (Errorf (''ai-tmux not found on '' @ host @ '' '' @ [CHR 0xE2, CHR 0x80, CHR 0x94]
          @ '' install it first (see: https://github.com/schaepher/pty-mcp)''))
      | Inr out \<Rightarrow>
          (let v = parseAiTmuxVersion out
           in if v = [] then Inl (Errorf (''ai-tmux --version on '' @ host @ '' returned unexpected output: '' @ Quote out))
              else if \<not> semverAtLeast v minAiTmuxVersion
                then Inl (Errorf (''ai-tmux on '' @ host @ '' is version '' @ v @ '', need >= '' @ minAiTmuxVersion
                  @ '' '' @ [CHR 0xE2, CHR 0x80, CHR 0x94] @ '' please upgrade''))
              else Inr ()))"

section \<open>Connection settings\<close>

record SSHConfig =
  sc_Host :: bytes
  sc_Port :: bytes
  sc_User :: bytes
  sc_Password :: bytes
  sc_KeyPath :: bytes
  sc_IgnoreHost :: bool

text \<open>\<open>get host key\<close> is the operator's SSH configuration, \<open>home\<close> the home directory when it is known,
  \<open>join\<close> is \<open>filepath.Join\<close>.\<close>

definition resolveSSHConfig ::
  "(bytes \<Rightarrow> bytes \<Rightarrow> bytes) \<Rightarrow> bytes option \<Rightarrow> (bytes list \<Rightarrow> bytes) \<Rightarrow> SSHConfig \<Rightarrow> SSHConfig" where
  "resolveSSHConfig get home join cfg =
     (let host = sc_Host cfg;
          cfg = (if get host ''HostName'' \<noteq> [] then cfg\<lparr>sc_Host := get host ''HostName''\<rparr> else cfg);
          cfg = (if sc_Port cfg = [] \<and> get host ''Port'' \<noteq> [] then cfg\<lparr>sc_Port := get host ''Port''\<rparr> else cfg);
          cfg = (if sc_User cfg = [] \<and> get host ''User'' \<noteq> [] then cfg\<lparr>sc_User := get host ''User''\<rparr> else cfg);
          keyPath = get host ''IdentityFile''
      in if sc_KeyPath cfg = [] \<and> keyPath \<noteq> [] \<and> keyPath \<noteq> ''~/.ssh/identity''
         then cfg\<lparr>sc_KeyPath :=
                (case home of
                   Some h \<Rightarrow> if length keyPath > 1 \<and> hd keyPath = CHR ''~'' then join [h, tl keyPath] else keyPath
                 | None \<Rightarrow> keyPath)\<rparr>
         else cfg)"

datatype 's auth_method = PublicKeys 's | Password bytes

text \<open>\<open>signer path\<close> is the key in a file, if the file can be read and the key parsed.\<close>

definition buildAuthMethods ::
  "(bytes \<Rightarrow> 's option) \<Rightarrow> bytes option \<Rightarrow> (bytes list \<Rightarrow> bytes) \<Rightarrow> SSHConfig \<Rightarrow> 's auth_method list result" where
  "buildAuthMethods signer home join cfg =
     (let h = (case home of None \<Rightarrow> [] | Some h \<Rightarrow> h);
          keyPaths = (if sc_KeyPath cfg = []
                      then [join [h, ''.ssh'', ''id_ed25519''], join [h, ''.ssh'', ''id_rsa''], join [h, ''.ssh'', ''id_ecdsa'']]
                      else [sc_KeyPath cfg]);
          methods = map PublicKeys (List.map_filter (\<lambda>kp. if kp = [] then None else signer kp) keyPaths)
                    @ (if sc_Password cfg \<noteq> [] then [Password (sc_Password cfg)] else [])
      in if methods = []
         then Inl (Errorf ''no auth method available (no key found, no password provided)'')
         else Inr methods)"

datatype 'c host_key_callback = InsecureIgnoreHostKey | KnownHosts 'c

text \<open>\<open>known path\<close> is \<open>None\<close> when the known-hosts file does not exist, else the outcome of loading it.\<close>

definition buildHostKeyCallback ::
  "(bytes \<Rightarrow> 'c result option) \<Rightarrow> bytes option \<Rightarrow> (bytes list \<Rightarrow> bytes) \<Rightarrow> SSHConfig \<Rightarrow> 'c host_key_callback result" where
  "buildHostKeyCallback known home join cfg =
     (if sc_IgnoreHost cfg then Inr InsecureIgnoreHostKey
      else let file = join [case home of None \<Rightarrow> [] | Some h \<Rightarrow> h, ''.ssh'', ''known_hosts'']
           in case known file of
                None \<Rightarrow> Inl (Errorf (''host key verification failed: '' @ file @ '' not found; run '' @ [CHR 0x27]
                  @ ''ssh-keyscan HOST >> ~/.ssh/known_hosts'' @ [CHR 0x27]
                  @ '' to add the host, or set ignore_host_key: true to bypass (not recommended)''))
              | Some (Inl err) \<Rightarrow> Inl (Wrap ''load known_hosts'' err)
              | Some (Inr cb) \<Rightarrow> Inr (KnownHosts cb))"

definition buildClientConfig ::
  "(bytes \<Rightarrow> 's option) \<Rightarrow> (bytes \<Rightarrow> 'c result option) \<Rightarrow> bytes option \<Rightarrow> (bytes list \<Rightarrow> bytes) \<Rightarrow> SSHConfig
     \<Rightarrow> (bytes \<times> 's auth_method list \<times> 'c host_key_callback) result" where
  "buildClientConfig signer known home join cfg =
     (case buildAuthMethods signer home join cfg of
        Inl err \<Rightarrow> Inl err
      | Inr methods \<Rightarrow>
          (case buildHostKeyCallback known home join cfg of
             Inl err \<Rightarrow> Inl err
           | Inr cb \<Rightarrow> Inr (sc_User cfg, methods, cb)))"

section \<open>Connecting\<close>

type_synonym ('s, 'c) client_config = "bytes \<times> 's auth_method list \<times> 'c host_key_callback"

text \<open>The calls of the SSH library a function made, oldest first; only the ones that succeeded open something.\<close>

datatype ('s, 'c) ssh_call = Dialed bytes "('s, 'c) client_config" | SessionOpened | SessionClosed | ClientClosed
  | RanOutput bytes | Started bytes | PtyRequested | ShellStarted

text \<open>The operator's files and settings.\<close>

record ('s, 'c) files =
  f_get :: "bytes \<Rightarrow> bytes \<Rightarrow> bytes"
  f_home :: "bytes option"
  f_join :: "bytes list \<Rightarrow> bytes"
  f_signer :: "bytes \<Rightarrow> 's option"
  f_known :: "bytes \<Rightarrow> 'c result option"

text \<open>What the library answers; \<open>io_output\<close> is the outcome of \<open>Output\<close> or \<open>Run\<close> of a command.\<close>

record ('s, 'c) ssh_io =
  io_dial :: "bytes \<Rightarrow> ('s, 'c) client_config \<Rightarrow> go_error option"
  io_session1 :: "go_error option"
  io_session2 :: "go_error option"
  io_output :: "bytes \<Rightarrow> bytes result"
  io_stdin :: "go_error option"
  io_stdout :: "go_error option"
  io_stderr :: "go_error option"
  io_start :: "go_error option"
  io_pty :: "go_error option"
  io_shell :: "go_error option"

definition JoinHostPort :: "bytes \<Rightarrow> bytes \<Rightarrow> bytes" where
  "JoinHostPort host port =
     (if CHR '':'' \<in> set host then ''['' @ host @ '']:'' @ port else host @ '':'' @ port)"

definition resolved :: "('s, 'c) files \<Rightarrow> SSHConfig \<Rightarrow> SSHConfig" where
  "resolved f cfg = resolveSSHConfig (f_get f) (f_home f) (f_join f) cfg"

definition configured :: "('s, 'c) files \<Rightarrow> SSHConfig \<Rightarrow> ('s, 'c) client_config result" where
  "configured f cfg = buildClientConfig (f_signer f) (f_known f) (f_home f) (f_join f) cfg"

text \<open>The default port and the address.\<close>

definition address :: "SSHConfig \<Rightarrow> bytes" where
  "address cfg = JoinHostPort (sc_Host cfg) (if sc_Port cfg = [] then ''22'' else sc_Port cfg)"

text \<open>One chunk of the remote shell's output or error stream, written to the buffer and the log.\<close>

definition ssh_output :: "ssh_session \<Rightarrow> bytes \<Rightarrow> ssh_session option" where
  "ssh_output s chunk =
     do { r \<leftarrow> Write (sh_buf s) chunk;
          Some (s\<lparr>sh_buf := fst r, sh_log := map_option (\<lambda>l. l @ chunk) (sh_log s)\<rparr>) }"

fun ssh_outputs :: "ssh_session \<Rightarrow> bytes list \<Rightarrow> ssh_session option" where
  "ssh_outputs s [] = Some s"
| "ssh_outputs s (c # cs) = do { s' \<leftarrow> ssh_output s c; ssh_outputs s' cs }"

definition ssh_ended :: "ssh_session \<Rightarrow> ssh_session" where
  "ssh_ended s = s\<lparr>sh_alive := False\<rparr>"

text \<open>
  \<open>NewSSHSessionWithLog\<close>. \<open>first\<close> is what the shell printed until its output settled; \<open>None\<close> is a panic.
\<close>

definition NewSSHSession ::
  "('s, 'c) files \<Rightarrow> ('s, 'c) ssh_io \<Rightarrow> bytes \<Rightarrow> bytes \<Rightarrow> bool \<Rightarrow> bytes list \<Rightarrow> SSHConfig
     \<Rightarrow> (('s, 'c) ssh_call list \<times> ssh_session result) option" where
  "NewSSHSession f io i bufVal hasLog first cfg =
     (let cfg = resolved f cfg
      in case configured f cfg of
           Inl err \<Rightarrow> Some ([], Inl err)
         | Inr config \<Rightarrow>
             (let addr = address cfg; dialed = [Dialed addr config]
              in case io_dial io addr config of
                   Some err \<Rightarrow> Some ([], Inl (Wrap (''ssh dial '' @ addr) err))
                 | None \<Rightarrow>
                     (case io_session1 io of
                        Some err \<Rightarrow> Some (dialed @ [ClientClosed], Inl (Wrap ''new session'' err))
                      | None \<Rightarrow>
                          (case io_stdin io of
                             Some err \<Rightarrow> Some (dialed @ [SessionOpened, ClientClosed], Inl (Wrap ''stdin pipe'' err))
                           | None \<Rightarrow>
                               do { rb \<leftarrow> NewRingBuffer (BufferSizeFromEnv bufVal);
                                    let s = \<lparr>sh_id = i, sh_buf = rb, sh_log = (if hasLog then Some [] else None),
                                             sh_stdin = [], sh_alive = True, sh_closed = False, sh_logClosed = False\<rparr>
                                    in case io_pty io of
                                         Some err \<Rightarrow>
                                           Some (dialed @ [SessionOpened, SessionClosed, ClientClosed],
                                                 Inl (Wrap ''request pty'' err))
                                       | None \<Rightarrow>
                                           (case io_shell io of
                                              Some err \<Rightarrow>
                                                Some (dialed @ [SessionOpened, PtyRequested, SessionClosed, ClientClosed],
                                                      Inl (Wrap ''start shell'' err))
                                            | None \<Rightarrow>
                                                do { s \<leftarrow> ssh_outputs s first;
                                                     Some (dialed @ [SessionOpened, PtyRequested, ShellStarted], Inr s) }) }))))"

section \<open>Persistent sessions\<close>

text \<open>
  \<open>NewRemoteSSHSession\<close> up to the client process at the other end: \<open>Inl\<close> the error, \<open>Inr\<close> when the
  client runs, in both cases with the calls made.
\<close>

definition start_remote_client ::
  "('s, 'c) files \<Rightarrow> ('s, 'c) ssh_io \<Rightarrow> SSHConfig \<Rightarrow> ('s, 'c) ssh_call list \<times> unit result" where
  "start_remote_client f io cfg =
     (case configured f cfg of
        Inl err \<Rightarrow> ([], Inl (Wrap ''build SSH config'' err))
      | Inr config \<Rightarrow>
          (let addr = address cfg; dialed = [Dialed addr config];
               version_run = [SessionOpened, RanOutput ''ai-tmux --version'', SessionClosed];
               closed = [SessionClosed, ClientClosed]
           in case io_dial io addr config of
                Some err \<Rightarrow> ([], Inl (Wrap (''ssh dial '' @ addr) err))
              | None \<Rightarrow>
                  (case io_session1 io of
                     Some err \<Rightarrow> (dialed @ [ClientClosed],
                       Inl (Wrap (''version check on '' @ sc_Host cfg @ '': open SSH session'') err))
                   | None \<Rightarrow>
                       (case version_check (sc_Host cfg) (io_output io ''ai-tmux --version'') of
                          Inl err \<Rightarrow> (dialed @ version_run @ [ClientClosed], Inl err)
                        | Inr _ \<Rightarrow>
                            (let opened = dialed @ version_run @ [SessionOpened]
                             in case io_session2 io of
                                  Some err \<Rightarrow> (dialed @ version_run @ [ClientClosed], Inl (Wrap ''new session'' err))
                                | None \<Rightarrow>
                                    (case io_stdin io of
                                       Some err \<Rightarrow> (opened @ closed, Inl (Wrap ''stdin pipe'' err))
                                     | None \<Rightarrow>
                                         (case io_stdout io of
                                            Some err \<Rightarrow> (opened @ closed, Inl (Wrap ''stdout pipe'' err))
                                          | None \<Rightarrow>
                                              (case io_stderr io of
                                                 Some err \<Rightarrow> (opened @ closed, Inl (Wrap ''stderr pipe'' err))
                                               | None \<Rightarrow>
                                                   (case io_start io of
                                                      Some err \<Rightarrow> (opened @ closed, Inl (Wrap ''start ai-tmux'' err))
                                                    | None \<Rightarrow> (opened @ [Started ''ai-tmux client''], Inr ()))))))))))"

text \<open>\<open>rpc\<close> and \<open>d\<close> are the connection to the daemon and its state.\<close>

definition attach_or_create ::
  "'w rpc \<Rightarrow> bytes \<Rightarrow> bytes \<Rightarrow> SSHConfig \<Rightarrow> bytes \<Rightarrow> bytes \<Rightarrow> 'w \<Rightarrow> ('w \<times> remote_session result) option" where
  "attach_or_create rpc i bufVal cfg command attachID d =
     (let target = sc_User cfg @ ''@'' @ sc_Host cfg
      in if attachID \<noteq> [] then AttachRemoteSession rpc d bufVal i target attachID
         else NewRemoteSession rpc d bufVal i target (if command = [] then ''/bin/bash'' else command))"

definition NewRemoteSSHSession ::
  "('s, 'c) files \<Rightarrow> ('s, 'c) ssh_io \<Rightarrow> 'w rpc \<Rightarrow> bytes \<Rightarrow> bytes \<Rightarrow> SSHConfig \<Rightarrow> bytes \<Rightarrow> bytes \<Rightarrow> 'w
     \<Rightarrow> ('w \<times> ('s, 'c) ssh_call list \<times> remote_session result) option" where
  "NewRemoteSSHSession f io rpc i bufVal cfg command attachID d =
     (case start_remote_client f io (resolved f cfg) of
        (calls, Inl err) \<Rightarrow> Some (d, calls, Inl err)
      | (calls, Inr _) \<Rightarrow>
          do { (d, r) \<leftarrow> attach_or_create rpc i bufVal (resolved f cfg) command attachID d;
               Some (case r of
                       Inl err \<Rightarrow> (d, calls @ [SessionClosed, ClientClosed], Inl err)
                     | Inr remote \<Rightarrow> (d, calls, Inr remote)) })"

section \<open>Short-lived connections\<close>

text \<open>
  Dial, open a session, run one command and close both again: \<open>Inl\<close> the stage that failed.
\<close>

datatype failure = FConfig go_error | FDial go_error | FSession go_error | FRun go_error

definition run_once ::
  "('s, 'c) files \<Rightarrow> ('s, 'c) ssh_io \<Rightarrow> SSHConfig \<Rightarrow> bytes \<Rightarrow> ('s, 'c) ssh_call list \<times> (failure + bytes)" where
  "run_once f io cfg command =
     (case configured f cfg of
        Inl err \<Rightarrow> ([], Inl (FConfig err))
      | Inr config \<Rightarrow>
          (case io_dial io (address cfg) config of
             Some err \<Rightarrow> ([], Inl (FDial err))
           | None \<Rightarrow>
               (case io_session1 io of
                  Some err \<Rightarrow> ([Dialed (address cfg) config, ClientClosed], Inl (FSession err))
                | None \<Rightarrow>
                    ([Dialed (address cfg) config, SessionOpened, RanOutput command, SessionClosed, ClientClosed],
                     (case io_output io command of Inl err \<Rightarrow> Inl (FRun err) | Inr out \<Rightarrow> Inr out)))))"

definition RemoteAiTmuxVersion ::
  "('s, 'c) files \<Rightarrow> ('s, 'c) ssh_io \<Rightarrow> SSHConfig \<Rightarrow> ('s, 'c) ssh_call list \<times> bytes result" where
  "RemoteAiTmuxVersion f io cfg =
     (let cfg = resolved f cfg; r = run_once f io cfg ''ai-tmux --version''
      in (fst r, case snd r of
            Inl (FConfig err) \<Rightarrow> Inl err
          | Inl (FDial err) \<Rightarrow> Inl err
          | Inl (FSession err) \<Rightarrow> Inl err
          | Inl (FRun _) \<Rightarrow> Inl (Errorf (''ai-tmux not found on '' @ sc_Host cfg @ '' (install it first)''))
          | Inr out \<Rightarrow> (let v = parseAiTmuxVersion out
                        in if v = [] then Inl (Errorf (''ai-tmux --version returned unexpected output: '' @ Quote out))
                           else Inr v)))"

definition HasAiTmux :: "('s, 'c) files \<Rightarrow> ('s, 'c) ssh_io \<Rightarrow> SSHConfig \<Rightarrow> ('s, 'c) ssh_call list \<times> bool" where
  "HasAiTmux f io cfg =
     (let r = run_once f io (resolved f cfg) ''which ai-tmux''
      in (fst r, case snd r of Inl _ \<Rightarrow> False | Inr _ \<Rightarrow> True))"

text \<open>\<open>parse\<close> is \<open>json.Unmarshal\<close> of the printed text into a list of objects.\<close>

definition ListRemoteAiTmuxSessions ::
  "(bytes \<Rightarrow> (bytes \<times> json) list list result) \<Rightarrow> ('s, 'c) files \<Rightarrow> ('s, 'c) ssh_io \<Rightarrow> SSHConfig
     \<Rightarrow> ('s, 'c) ssh_call list \<times> (bytes \<times> json) list list result" where
  "ListRemoteAiTmuxSessions parse f io cfg =
     (let r = run_once f io (resolved f cfg) ''ai-tmux list 2>/dev/null''
      in (fst r, case snd r of
            Inl (FConfig err) \<Rightarrow> Inl (Wrap ''build SSH config'' err)
          | Inl (FDial err) \<Rightarrow> Inl (Wrap ''ssh dial'' err)
          | Inl (FSession err) \<Rightarrow> Inl (Wrap ''new session'' err)
          | Inl (FRun err) \<Rightarrow> Inl (Wrap ''ai-tmux list'' err)
          | Inr out \<Rightarrow> (case parse out of Inl err \<Rightarrow> Inl (Wrap ''parse ai-tmux list'' err) | Inr ss \<Rightarrow> Inr ss)))"

text \<open>The handler \<open>list_remote_sessions\<close> on decoded parameters.\<close>

definition has_status :: "bytes \<Rightarrow> (bytes \<times> json) list \<Rightarrow> bool" where
  "has_status st s = (map_of (rev s) ''status'' = Some (JStr st))"

definition ListRemoteSessions ::
  "(bytes \<Rightarrow> (bytes \<times> json) list list result) \<Rightarrow> ('s, 'c) files \<Rightarrow> ('s, 'c) ssh_io \<Rightarrow> SSHConfig \<Rightarrow> bytes
     \<Rightarrow> ('s, 'c) ssh_call list \<times> (bytes \<times> json) list list result" where
  "ListRemoteSessions parse f io cfg status =
     (case ListRemoteAiTmuxSessions parse f io cfg of
        (calls, Inl err) \<Rightarrow> (calls, Inl err)
      | (calls, Inr ss) \<Rightarrow> (calls, Inr (if status \<noteq> [] then filter (has_status status) ss else ss)))"

section \<open>The ai-tmux client\<close>

text \<open>
  \<open>ensureServer\<close>: \<open>up0\<close> is whether the first connection succeeds, \<open>self\<close> and \<open>start\<close> the outcomes of finding
  the executable and starting the daemon, \<open>ups\<close> whether each later attempt connects (at most 20 are made).
\<close>

definition ensureServer :: "bool \<Rightarrow> go_error option \<Rightarrow> go_error option \<Rightarrow> (nat \<Rightarrow> bool) \<Rightarrow> go_error option" where
  "ensureServer up0 self start ups =
     (if up0 then None
      else case self of
             Some err \<Rightarrow> Some (Wrap ''find executable'' err)
           | None \<Rightarrow>
               (case start of
                  Some err \<Rightarrow> Some (Wrap ''start server'' err)
                | None \<Rightarrow> if list_ex ups [0..<20] then None else Some (Errorf ''server failed to start within 2s'')))"

text \<open>\<open>ai-tmux list\<close>: the value it prints, or the error it ends with; a failed exchange leaves the zero response.\<close>

definition ListSessions_cli :: "'w rpc \<Rightarrow> bytes \<Rightarrow> bool \<Rightarrow> 'w \<Rightarrow> json result" where
  "ListSessions_cli rpc socketPath up d =
     (if \<not> up then Inl (Errorf (''server not running at '' @ socketPath))
      else let resp = (case rpc d \<lparr>rq_ID = ''list'', rq_Method = ''list_sessions'', rq_Params = JNull\<rparr> of
                         (_, Reply resp) \<Rightarrow> resp
                       | _ \<Rightarrow> \<lparr>rs_ID = [], rs_Result = None, rs_Error = []\<rparr>)
           in if rs_Error resp \<noteq> [] then Inl (Errorf (''error: '' @ rs_Error resp))
              else Inr (case rs_Result resp of None \<Rightarrow> JNull | Some r \<Rightarrow> r))"

section \<open>Properties\<close>

lemma SplitN_max: "SplitN sep n s \<noteq> [] \<and> length (SplitN sep n s) \<le> max 1 n"
  by (induction sep n s rule: SplitN.induct) (auto split: list.splits)

lemma length_split_version: "length (split_version s) = 3"
  using SplitN_max [of "CHR ''.''" 3 s] by (auto simp: split_version_def Let_def)

lemma split_version_semver:
  obtains a b c where "split_version s = [a, b, c]" "to_semver s = Semver a b c"
  using length_split_version [of s] by (auto simp: to_semver_def length_Suc_conv eval_nat_numeral)

lemma semverAtLeast_iff: "semverAtLeast v m \<longleftrightarrow> v = ''dev'' \<or> m = ''dev'' \<or> to_semver m \<le> to_semver v"
proof -
  obtain a b c x y z where "split_version v = [a, b, c]" "to_semver v = Semver a b c"
      "split_version m = [x, y, z]" "to_semver m = Semver x y z"
    by (metis split_version_semver)
  then show ?thesis by (auto simp: semverAtLeast_def less_eq_semver_def)
qed

text \<open>The version check compares numbers: apart from \<open>dev\<close>, \<open>semverAtLeast\<close> is the lexicographic order on
  the three numbers (not on their digits), hence reflexive, total and transitive.\<close>

theorem semverAtLeast_order:
  "(semverAtLeast v m \<longleftrightarrow> v = ''dev'' \<or> m = ''dev'' \<or> to_semver m \<le> to_semver v)
   \<and> semverAtLeast v v \<and> (semverAtLeast v m \<or> semverAtLeast m v)
   \<and> (''dev'' \<notin> {u, v, m} \<and> semverAtLeast u v \<and> semverAtLeast v m \<longrightarrow> semverAtLeast u m)"
  by (auto simp: semverAtLeast_iff)

lemma semverAtLeast_order_witness: "semverAtLeast ''0.10.0'' ''0.9.0''"
proof -
  have "to_semver ''0.9.0'' \<le> to_semver ''0.10.0''" by code_simp
  then show ?thesis using semverAtLeast_order [of "''0.10.0''" "''0.9.0''"] by blast
qed

section \<open>Connections are accounted for\<close>

lemma ssh_outputs_ok:
  "holds h (sh_buf s) \<Longrightarrow> \<exists>s'. ssh_outputs s cs = Some s' \<and> holds (h @ concat cs) (sh_buf s')
     \<and> sh_log s' = map_option (\<lambda>l. l @ concat cs) (sh_log s) \<and> sh_alive s' = sh_alive s \<and> sh_stdin s' = sh_stdin s
     \<and> sh_id s' = sh_id s \<and> sh_closed s' = sh_closed s"
proof (induction cs arbitrary: h s)
  case Nil
  then show ?case by (simp add: option.map_ident)
next
  case (Cons c cs)
  obtain rb where w: "Write (sh_buf s) c = Some (rb, int (length c))" "holds (h @ c) rb"
    using Write_holds [OF Cons.prems] by metis
  let ?s = "s\<lparr>sh_buf := rb, sh_log := map_option (\<lambda>l. l @ c) (sh_log s)\<rparr>"
  have "ssh_output s c = Some ?s" by (simp add: ssh_output_def w(1))
  moreover have "holds (h @ c) (sh_buf ?s)" using w(2) by simp
  from Cons.IH [OF this] obtain s' where "ssh_outputs ?s cs = Some s'" "holds ((h @ c) @ concat cs) (sh_buf s')"
      "sh_log s' = map_option (\<lambda>l. l @ concat cs) (sh_log ?s)" "sh_alive s' = sh_alive ?s" "sh_stdin s' = sh_stdin ?s"
      "sh_id s' = sh_id ?s" "sh_closed s' = sh_closed ?s" by blast
  ultimately show ?case by (cases "sh_log s") auto
qed

text \<open>Whether a connection is left open after the calls.\<close>

fun open_after :: "bool \<Rightarrow> ('s, 'c) ssh_call list \<Rightarrow> bool" where
  "open_after b [] = b"
| "open_after b (Dialed _ _ # cs) = open_after True cs"
| "open_after b (ClientClosed # cs) = open_after False cs"
| "open_after b (_ # cs) = open_after b cs"

lemma open_after_append [simp]: "open_after b (cs @ ds) = open_after (open_after b cs) ds"
  by (induction b cs rule: open_after.induct) simp_all

lemma run_once_closes: "\<not> open_after False (fst (run_once f io cfg command))"
  by (auto simp: run_once_def split: sum.splits option.splits)

lemma short_lived_close:
  "\<not> open_after False (fst (RemoteAiTmuxVersion f io cfg))" "\<not> open_after False (fst (HasAiTmux f io cfg))"
  "\<not> open_after False (fst (ListRemoteAiTmuxSessions parse f io cfg))"
  by (simp_all add: RemoteAiTmuxVersion_def HasAiTmux_def ListRemoteAiTmuxSessions_def Let_def run_once_closes)

lemma start_remote_client_open:
  "start_remote_client f io cfg = (calls, r) \<Longrightarrow> open_after False calls \<longleftrightarrow> (\<exists>u. r = Inr u)"
  by (auto simp: start_remote_client_def Let_def split: sum.splits option.splits)

lemma NewSSHSession_total:
  obtains calls r where "NewSSHSession f io i bufVal hasLog first cfg = Some (calls, r)"
    "open_after False calls \<longleftrightarrow> (\<exists>s. r = Inr s)"
    "\<And>s. r = Inr s \<Longrightarrow> holds (concat first) (sh_buf s) \<and> sh_log s = (if hasLog then Some (concat first) else None)
       \<and> sh_alive s \<and> sh_stdin s = [] \<and> sh_id s = i"
    "calls = [] \<or> (\<exists>config rest. configured f (resolved f cfg) = Inr config
       \<and> calls = Dialed (address (resolved f cfg)) config # rest
       \<and> set rest \<subseteq> {SessionOpened, SessionClosed, ClientClosed, PtyRequested, ShellStarted})"
proof -
  obtain rb where rb: "NewRingBuffer (BufferSizeFromEnv bufVal) = Some rb" "holds [] rb"
    using BufferSizeFromEnv_new by blast
  let ?s = "\<lparr>sh_id = i, sh_buf = rb, sh_log = (if hasLog then Some [] else None), sh_stdin = [], sh_alive = True,
    sh_closed = False, sh_logClosed = False\<rparr>"
  obtain s where "ssh_outputs ?s first = Some s" "holds ([] @ concat first) (sh_buf s)"
      "sh_log s = map_option (\<lambda>l. l @ concat first) (if hasLog then Some [] else None)" "sh_alive s" "sh_stdin s = []" "sh_id s = i"
    using ssh_outputs_ok [of "[]" ?s first] rb(2) by auto
  with rb(1) that show thesis
    by (cases "configured f (resolved f cfg)"; cases "io_session1 io"; cases "io_stdin io"; cases "io_pty io";
        cases "io_shell io"; cases "io_dial io (address (resolved f cfg)) (projr (configured f (resolved f cfg)))")
      (auto simp: NewSSHSession_def Let_def split: if_splits)
qed

lemma AttachRemote_total: "\<exists>d' r. AttachRemoteSession rpc d bufVal i target sid = Some (d', r)"
  and NewRemote_total: "\<exists>d' r. NewRemoteSession rpc d bufVal i target command = Some (d', r)"
  using BufferSizeFromEnv_new [of bufVal]
  by (auto simp: AttachRemoteSession_def NewRemoteSession_def split: prod.splits sum.splits)

lemma attach_or_create_total: "\<exists>d' r. attach_or_create rpc i bufVal cfg command attachID d = Some (d', r)"
  by (simp add: attach_or_create_def Let_def AttachRemote_total NewRemote_total)

lemma NewRemoteSSHSession_total:
  obtains d' calls r where "NewRemoteSSHSession f io rpc i bufVal cfg command attachID d = Some (d', calls, r)"
    "open_after False calls \<longleftrightarrow> (\<exists>s. r = Inr s)"
proof -
  obtain calls u where st: "start_remote_client f io (resolved f cfg) = (calls, u)" by fastforce
  note op = start_remote_client_open [OF st]
  show thesis
  proof (cases u)
    case (Inl err)
    with st op that show thesis by (simp add: NewRemoteSSHSession_def)
  next
    case (Inr x)
    obtain d' r where "attach_or_create rpc i bufVal (resolved f cfg) command attachID d = Some (d', r)"
      using attach_or_create_total by metis
    then have "NewRemoteSSHSession f io rpc i bufVal cfg command attachID d = Some (case r of
        Inl err \<Rightarrow> (d', calls @ [SessionClosed, ClientClosed], Inl err) | Inr remote \<Rightarrow> (d', calls, Inr remote))"
      using st Inr by (simp add: NewRemoteSSHSession_def)
    with Inr op that show thesis by (cases r) (auto simp del: append_assoc)
  qed
qed

text \<open>C18. No connection leaks: setting up a plain or a persistent session always comes back, and leaves the
  connection open exactly when it returns a session; on every error, wherever it happens, the connection it had
  dialled is closed; and the short-lived connections are always closed.\<close>

theorem ssh_connections_accounted:
  "(\<exists>calls r. NewSSHSession f io i bufVal hasLog first cfg = Some (calls, r)
      \<and> (open_after False calls \<longleftrightarrow> (\<exists>s. r = Inr s)))
   \<and> (\<exists>d' calls r. NewRemoteSSHSession f io rpc i bufVal cfg command attachID d = Some (d', calls, r)
      \<and> (open_after False calls \<longleftrightarrow> (\<exists>s. r = Inr s)))
   \<and> \<not> open_after False (fst (RemoteAiTmuxVersion f io cfg)) \<and> \<not> open_after False (fst (HasAiTmux f io cfg))
   \<and> \<not> open_after False (fst (ListRemoteAiTmuxSessions parse f io cfg))"
proof -
  obtain calls r where "NewSSHSession f io i bufVal hasLog first cfg = Some (calls, r)"
    "open_after False calls \<longleftrightarrow> (\<exists>s. r = Inr s)" by (rule NewSSHSession_total)
  moreover obtain d' calls' r' where "NewRemoteSSHSession f io rpc i bufVal cfg command attachID d = Some (d', calls', r')"
    "open_after False calls' \<longleftrightarrow> (\<exists>s. r' = Inr s)" by (rule NewRemoteSSHSession_total)
  ultimately show ?thesis using short_lived_close by blast
qed

section \<open>What is dialled, and what runs at the other end\<close>

text \<open>The calls any of the functions can make for the settings \<open>cfg\<close>.\<close>

definition calls_of ::
  "('s, 'c) files \<Rightarrow> ('s, 'c) ssh_io \<Rightarrow> 'w rpc \<Rightarrow> SSHConfig \<Rightarrow> ('s, 'c) ssh_call list \<Rightarrow> bool" where
  "calls_of f io rpc cfg calls \<longleftrightarrow>
     (\<exists>i bufVal hasLog first r. NewSSHSession f io i bufVal hasLog first cfg = Some (calls, r))
     \<or> (\<exists>i bufVal command attachID d d' r. NewRemoteSSHSession f io rpc i bufVal cfg command attachID d = Some (d', calls, r))
     \<or> (\<exists>command. calls = fst (run_once f io (resolved f cfg) command))"

lemma resolved_keeps:
  "sc_IgnoreHost (resolved f cfg) = sc_IgnoreHost cfg" "sc_Password (resolved f cfg) = sc_Password cfg"
  "sc_Port cfg \<noteq> [] \<Longrightarrow> sc_Port (resolved f cfg) = sc_Port cfg"
  "sc_User cfg \<noteq> [] \<Longrightarrow> sc_User (resolved f cfg) = sc_User cfg"
  "sc_KeyPath cfg \<noteq> [] \<Longrightarrow> sc_KeyPath (resolved f cfg) = sc_KeyPath cfg"
  by (simp_all add: resolved_def resolveSSHConfig_def Let_def)

lemma buildHostKeyCallback_policy:
  assumes "buildHostKeyCallback known home join cfg = Inr cb"
  shows "(cb = InsecureIgnoreHostKey \<longleftrightarrow> sc_IgnoreHost cfg)
    \<and> (\<forall>k. cb = KnownHosts k \<longrightarrow> (\<exists>path. known path = Some (Inr k)))"
proof (cases "sc_IgnoreHost cfg")
  case True
  with assms show ?thesis by (auto simp: buildHostKeyCallback_def)
next
  case False
  define path where "path = join [case home of None \<Rightarrow> [] | Some h \<Rightarrow> h, ''.ssh'', ''known_hosts'']"
  with assms False have "\<exists>k. known path = Some (Inr k) \<and> cb = KnownHosts k"
    by (cases "known path"; cases "the (known path)") (simp_all add: buildHostKeyCallback_def)
  with False show ?thesis by auto
qed

lemma buildAuthMethods_some: "buildAuthMethods signer home join cfg = Inr methods \<Longrightarrow> methods \<noteq> []"
  unfolding buildAuthMethods_def Let_def by (split if_split_asm) (simp_all only: sum.inject sum.distinct simp_thms)

lemma configured_policy:
  assumes "configured f cfg = Inr (u, methods, cb)"
  shows "u = sc_User cfg" "methods \<noteq> []" "cb = InsecureIgnoreHostKey \<longleftrightarrow> sc_IgnoreHost cfg"
    "\<And>k. cb = KnownHosts k \<Longrightarrow> \<exists>path. f_known f path = Some (Inr k)"
proof -
  from assms have "buildAuthMethods (f_signer f) (f_home f) (f_join f) cfg = Inr methods"
      and h: "buildHostKeyCallback (f_known f) (f_home f) (f_join f) cfg = Inr cb" and u: "u = sc_User cfg"
    by (auto simp: configured_def buildClientConfig_def split: sum.splits)
  from buildAuthMethods_some [OF this(1)] buildHostKeyCallback_policy [OF h] u
  show "u = sc_User cfg" "methods \<noteq> []" "cb = InsecureIgnoreHostKey \<longleftrightarrow> sc_IgnoreHost cfg"
    "\<And>k. cb = KnownHosts k \<Longrightarrow> \<exists>path. f_known f path = Some (Inr k)" by blast+
qed

lemma NewSSHSession_calls:
  assumes "NewSSHSession f io i bufVal hasLog first cfg = Some (calls, r)"
  shows "Dialed addr config \<in> set calls \<Longrightarrow> configured f (resolved f cfg) = Inr config \<and> addr = address (resolved f cfg)"
    and "Started c \<notin> set calls"
proof -
  have "calls = [] \<or> (\<exists>config rest. configured f (resolved f cfg) = Inr config
       \<and> calls = Dialed (address (resolved f cfg)) config # rest
       \<and> set rest \<subseteq> {SessionOpened, SessionClosed, ClientClosed, PtyRequested, ShellStarted})"
    using NewSSHSession_total [of f io i bufVal hasLog first cfg] assms by (metis Pair_inject option.inject)
  then show "Dialed addr config \<in> set calls \<Longrightarrow> configured f (resolved f cfg) = Inr config \<and> addr = address (resolved f cfg)"
    and "Started c \<notin> set calls" by auto
qed

lemma Dialed_run_once:
  "Dialed addr config \<in> set (fst (run_once f io cfg command)) \<Longrightarrow> configured f cfg = Inr config \<and> addr = address cfg"
  by (auto simp: run_once_def split: sum.splits option.splits)

lemma Dialed_start_remote_client:
  "start_remote_client f io cfg = (calls, r) \<Longrightarrow> Dialed addr config \<in> set calls
    \<Longrightarrow> configured f cfg = Inr config \<and> addr = address cfg"
  by (auto simp: start_remote_client_def Let_def split: sum.splits option.splits)

lemma Started_client:
  assumes "start_remote_client f io cfg = (calls, r)" and "Started c \<in> set calls"
  shows "c = ''ai-tmux client'' \<and> (\<exists>out. io_output io ''ai-tmux --version'' = Inr out
      \<and> semverAtLeast (parseAiTmuxVersion out) minAiTmuxVersion)"
  using assms
  by (auto simp: start_remote_client_def version_check_def Let_def split: sum.splits option.splits if_splits)

lemma NewRemoteSSHSession_calls:
  assumes "NewRemoteSSHSession f io rpc i bufVal cfg command attachID d = Some (d', calls, r)"
  shows "\<exists>calls' u. start_remote_client f io (resolved f cfg) = (calls', u)
     \<and> calls \<in> {calls', calls' @ [SessionClosed, ClientClosed]}"
proof -
  obtain calls' u where st: "start_remote_client f io (resolved f cfg) = (calls', u)" by fastforce
  with assms have "calls \<in> {calls', calls' @ [SessionClosed, ClientClosed]}"
    using attach_or_create_total [of rpc i bufVal "resolved f cfg" command attachID d]
    by (cases u) (auto simp: NewRemoteSSHSession_def split: sum.splits)
  with st show ?thesis by blast
qed

lemma NewRemoteSSHSession_Dialed:
  "NewRemoteSSHSession f io rpc i bufVal cfg command attachID d = Some (d', calls, r) \<Longrightarrow> Dialed addr config \<in> set calls
    \<Longrightarrow> configured f (resolved f cfg) = Inr config \<and> addr = address (resolved f cfg)"
  by (drule NewRemoteSSHSession_calls) (auto dest: Dialed_start_remote_client)

lemma NewRemoteSSHSession_Started:
  "NewRemoteSSHSession f io rpc i bufVal cfg command attachID d = Some (d', calls, r) \<Longrightarrow> Started c \<in> set calls
    \<Longrightarrow> \<exists>out. io_output io ''ai-tmux --version'' = Inr out \<and> semverAtLeast (parseAiTmuxVersion out) minAiTmuxVersion"
  by (drule NewRemoteSSHSession_calls) (auto dest: Started_client)

definition files_sample :: "(unit, unit) files" where
  "files_sample = \<lparr>f_get = (\<lambda>_ _. []), f_home = Some ''/h'', f_join = (\<lambda>ps. Join ps ''/''), f_signer = (\<lambda>_. Some ()),
     f_known = (\<lambda>_. Some (Inr ()))\<rparr>"

definition io_sample :: "(unit, unit) ssh_io" where
  "io_sample = \<lparr>io_dial = (\<lambda>_ _. None), io_session1 = None, io_session2 = None,
     io_output = (\<lambda>c. if c = ''ai-tmux --version'' then Inr ''ai-tmux 0.10.1'' else Inr []), io_stdin = None,
     io_stdout = None, io_stderr = None, io_start = None, io_pty = None, io_shell = None\<rparr>"

definition cfg_sample :: SSHConfig where
  "cfg_sample = \<lparr>sc_Host = ''h'', sc_Port = [], sc_User = ''u'', sc_Password = [], sc_KeyPath = ''k'', sc_IgnoreHost = False\<rparr>"


section \<open>Listing\<close>

lemma session_info_no_status: "session_info fmt s = JObj fs \<Longrightarrow> \<not> has_status st fs"
  by (auto simp: session_info_def has_status_def split: if_splits)

lemma listed_by_daemon:
  assumes "ListSessions_cli (daemon_rpc e fmt order) socketPath True d = Inr (JArr (map JObj ss))"
  shows "map JObj ss = map (session_info fmt) (List.map_filter (srv_sessions d) order)"
  using assms
  by (simp add: ListSessions_cli_def daemon_rpc_def handle_def listSessions_def ok_resp_def Let_def json_str_def)

text \<open>Listing the sessions of a remote daemon returns what the daemon listed, and filtering them by status
  returns nothing whatever the status: the daemon reports \<open>is_alive\<close> and no \<open>status\<close> field.\<close>

theorem list_status_filter_empty:
  assumes "ListSessions_cli (daemon_rpc e fmt order) socketPath True d = Inr (JArr (map JObj ss))"
    and "snd (run_once f io (resolved f cfg) ''ai-tmux list 2>/dev/null'') = Inr out" and "parse out = Inr ss"
  shows "snd (ListRemoteSessions parse f io cfg []) = Inr ss
    \<and> map JObj ss = map (session_info fmt) (List.map_filter (srv_sessions d) order)
    \<and> (status \<noteq> [] \<longrightarrow> snd (ListRemoteSessions parse f io cfg status) = Inr [])"
proof -
  note ss = listed_by_daemon [OF assms(1)]
  have l: "snd (ListRemoteAiTmuxSessions parse f io cfg) = Inr ss"
    using assms(2,3) by (simp add: ListRemoteAiTmuxSessions_def Let_def)
  have "\<not> has_status st fs" if "fs \<in> set ss" for st fs
  proof -
    have "JObj fs \<in> set (map (session_info fmt) (List.map_filter (srv_sessions d) order))"
      using that unfolding ss [symmetric] by simp
    then show ?thesis using session_info_no_status by fastforce
  qed
  then have "filter (has_status st) ss = []" for st by (simp add: filter_empty_conv)
  with l ss show ?thesis
    by (cases "ListRemoteAiTmuxSessions parse f io cfg") (simp add: ListRemoteSessions_def)
qed

lemma list_status_filter_empty_witness:
  "snd (ListRemoteSessions (\<lambda>_. Inr [[(''id'', JStr ''s1''), (''name'', JStr ''n''), (''command'', JStr ''sh''),
        (''is_alive'', JBool True), (''created_at'', JStr []), (''last_used'', JStr [])]])
      files_sample io_sample cfg_sample ''running'') = Inr []"
proof -
  let ?s = "pty_sample\<lparr>ps_id := ''s1'', ps_name := ''n'', ps_command := ''sh'', ps_alive := True\<rparr>"
  let ?d = "\<lparr>srv_sessions = [''s1'' \<mapsto> ?s], srv_idleTimeout = 60\<rparr>"
  let ?fs = "[(''id'', JStr ''s1''), (''name'', JStr ''n''), (''command'', JStr ''sh''),
        (''is_alive'', JBool True), (''created_at'', JStr []), (''last_used'', JStr [])]"
  have "Str ''s1'' = JStr ''s1''" "Str ''n'' = JStr ''n''" "Str ''sh'' = JStr ''sh''" "Str [] = JStr []" by code_simp+
  then have "ListSessions_cli (daemon_rpc (undefined :: srv_env) (\<lambda>_. []) [''s1'']) [] True ?d = Inr (JArr (map JObj [?fs]))"
    by (simp add: ListSessions_cli_def daemon_rpc_def handle_def listSessions_def ok_resp_def Let_def json_str_def
        session_info_def List.map_filter_def)
  from list_status_filter_empty [OF this, of files_sample io_sample cfg_sample "[]" "\<lambda>_. Inr [?fs]" "''running''"]
  show ?thesis by (simp add: run_once_def io_sample_def) code_simp
qed

end
