(* ===== verification/Create_Sessions.thy ===== *)
theory Create_Sessions
  imports Tool_Calls Log_Rotator Ssh_Client
begin

text \<open>
  The tools that create sessions (\<open>CreateSSHSession\<close>, \<open>CreateLocalSession\<close> and \<open>CreateSerialSession\<close> of
  \<open>internal/mcp/tools.go\<close>), from their arguments to the registry: opening the log file, starting the terminal or
  the connection, registering the session, and giving everything back on the paths that fail. The result of each
  handler carries what the disk and the log file are afterwards.
\<close>

section \<open>Parameters and environment\<close>

record CreateLocalParams =
  lp_Command :: bytes
  lp_LogFile :: bytes
  lp_LogMaxSizeMB :: int
  lp_LogMaxFiles :: int

record CreateSerialParams =
  pp_Device :: bytes
  pp_BaudRate :: int
  pp_LogFile :: bytes
  pp_LogMaxSizeMB :: int
  pp_LogMaxFiles :: int

record CreateSSHParams =
  hp_Host :: bytes
  hp_Port :: bytes
  hp_User :: bytes
  hp_Password :: bytes
  hp_KeyPath :: bytes
  hp_IgnoreHost :: bool
  hp_Persistent :: bool
  hp_Command :: bytes
  hp_SessionID :: bytes
  hp_LogFile :: bytes
  hp_LogMaxSizeMB :: int
  hp_LogMaxFiles :: int

text \<open>
  What the environment contributes to one creation: \<open>ctx.Err()\<close> before and after the session is registered, its
  fresh identifier and reference, the disk at the log file with the outcomes of opening and examining it, and what
  starting a process, a serial port or an SSH connection gives.
\<close>

record ('s, 'c) create_env =
  cn_ctx1 :: "go_error option"
  cn_ctx2 :: "go_error option"
  cn_id :: bytes
  cn_ref :: ref
  cn_logOpen :: "go_error option"
  cn_logStat :: "go_error option"
  cn_disk :: disk
  cn_bufVal :: bytes
  cn_environ :: "bytes list"
  cn_startErr :: "go_error option"
  cn_first :: "bytes list"
  cn_replies :: "bytes list list"
  cn_portErr :: "go_error option"
  cn_reads :: "(go_error + bytes) list"
  cn_files :: "('s, 'c) files"
  cn_ssh :: "('s, 'c) ssh_io"

text \<open>The disk, the log file (\<open>None\<close>: none was asked for) and the outcome of the handler.\<close>

type_synonym 'w created = "disk \<times> log_rotator option \<times> ('w, tool_result) outcome_of"

section \<open>The handlers\<close>

definition open_log :: "('s, 'c) create_env \<Rightarrow> bytes \<Rightarrow> int \<Rightarrow> int \<Rightarrow> disk \<times> log_rotator option result" where
  "open_log n path maxSizeMB maxFiles = openLogWriter path (cn_logOpen n) (cn_logStat n) maxSizeMB maxFiles (cn_disk n)"

definition close_log :: "log_rotator option \<Rightarrow> log_rotator option" where
  "close_log log = map_option (\<lambda>r. fst (log_Close None r)) log"

text \<open>Whether a session has a log it has not closed; closing a session closes its log.\<close>

fun sess_log_open :: "session \<Rightarrow> bool" where
  "sess_log_open (LocalS s) \<longleftrightarrow> ps_log s \<noteq> None \<and> \<not> ps_logClosed s"
| "sess_log_open (SSHS s) \<longleftrightarrow> sh_log s \<noteq> None \<and> \<not> sh_logClosed s"
| "sess_log_open (SerialS s) \<longleftrightarrow> se_log s \<noteq> None \<and> \<not> se_logClosed s"
| "sess_log_open (RemoteS r) \<longleftrightarrow> False"

definition log_of :: "session \<Rightarrow> log_rotator option \<Rightarrow> log_rotator option" where
  "log_of obj log = (if sess_log_open obj then log else close_log log)"

definition finish_create ::
  "'w env \<Rightarrow> ('s, 'c) create_env \<Rightarrow> disk \<Rightarrow> log_rotator option \<Rightarrow> session \<Rightarrow> bytes \<Rightarrow> 'w world \<Rightarrow> 'w created" where
  "finish_create e n d log obj target w =
     (case register_session e (cn_ctx1 n) (cn_ctx2 n) (cn_ref n) obj target w of
        (w, r) \<Rightarrow> (d, log_of (wd_heap w (cn_ref n)) log, Returns (w, r)))"

definition CreateLocalSession :: "'w env \<Rightarrow> ('s, 'c) create_env \<Rightarrow> CreateLocalParams \<Rightarrow> 'w world \<Rightarrow> 'w created" where
  "CreateLocalSession e n p w =
     (let cmd = (if lp_Command p = [] then ''/bin/bash'' else lp_Command p)
      in case open_log n (lp_LogFile p) (lp_LogMaxSizeMB p) (lp_LogMaxFiles p) of
           (d, Inl err) \<Rightarrow> (d, None, Returns (w, Inl err))
         | (d, Inr log) \<Rightarrow>
             (case newPTYSession (cn_id n) cmd cmd (log \<noteq> None) (cn_environ n) (cn_bufVal n) (ev_now e) (cn_startErr n)
                     (cn_first n) (cn_replies n) of
                None \<Rightarrow> (d, log, Panics)
              | Some (Inl err) \<Rightarrow> (d, close_log log, Returns (w, Inl err))
              | Some (Inr s) \<Rightarrow> finish_create e n d log (LocalS s) cmd w))"

definition CreateSerialSession :: "'w env \<Rightarrow> ('s, 'c) create_env \<Rightarrow> CreateSerialParams \<Rightarrow> 'w world \<Rightarrow> 'w created" where
  "CreateSerialSession e n p w =
     (case open_log n (pp_LogFile p) (pp_LogMaxSizeMB p) (pp_LogMaxFiles p) of
        (d, Inl err) \<Rightarrow> (d, None, Returns (w, Inl err))
      | (d, Inr log) \<Rightarrow>
          (case NewSerialSession (cn_id n) (pp_Device p) (pp_BaudRate p) (log \<noteq> None) (cn_bufVal n) (cn_portErr n) (cn_reads n) of
             None \<Rightarrow> (d, log, Panics)
           | Some (Inl err) \<Rightarrow> (d, close_log log, Returns (w, Inl err))
           | Some (Inr (s, baud)) \<Rightarrow>
               finish_create e n d log (SerialS s) (pp_Device p @ ''@'' @ dec (pp_BaudRate p)) w))"

definition ssh_config_of :: "CreateSSHParams \<Rightarrow> SSHConfig" where
  "ssh_config_of p = \<lparr>sc_Host = hp_Host p, sc_Port = hp_Port p, sc_User = hp_User p, sc_Password = hp_Password p,
     sc_KeyPath = hp_KeyPath p, sc_IgnoreHost = hp_IgnoreHost p\<rparr>"

text \<open>A persistent session has no log: the file is opened, and closed before the connection is made.\<close>

definition CreateSSHSession :: "'w env \<Rightarrow> ('s, 'c) create_env \<Rightarrow> CreateSSHParams \<Rightarrow> 'w world \<Rightarrow> 'w created" where
  "CreateSSHSession e n p w =
     (let cfg = ssh_config_of p; target = hp_User p @ ''@'' @ hp_Host p
      in case open_log n (hp_LogFile p) (hp_LogMaxSizeMB p) (hp_LogMaxFiles p) of
           (d, Inl err) \<Rightarrow> (d, None, Returns (w, Inl err))
         | (d, Inr log) \<Rightarrow>
             if hp_Persistent p \<or> hp_SessionID p \<noteq> []
             then let log = close_log log
                  in case NewRemoteSSHSession (cn_files n) (cn_ssh n) (ev_rpc e) (cn_id n) (cn_bufVal n) cfg (hp_Command p)
                            (hp_SessionID p) (wd_net w) of
                       None \<Rightarrow> (d, log, Panics)
                     | Some (net, _, Inl err) \<Rightarrow> (d, log, Returns (w\<lparr>wd_net := net\<rparr>, Inl err))
                     | Some (net, _, Inr s) \<Rightarrow> finish_create e n d log (RemoteS s) target (w\<lparr>wd_net := net\<rparr>)
             else case NewSSHSession (cn_files n) (cn_ssh n) (cn_id n) (cn_bufVal n) (log \<noteq> None) (cn_first n) cfg of
                    None \<Rightarrow> (d, log, Panics)
                  | Some (_, Inl err) \<Rightarrow> (d, close_log log, Returns (w, Inl err))
                  | Some (_, Inr s) \<Rightarrow> finish_create e n d log (SSHS s) target w)"

datatype creation = CreateLocal CreateLocalParams | CreateSerial CreateSerialParams | CreateSSH CreateSSHParams

fun create_session :: "'w env \<Rightarrow> ('s, 'c) create_env \<Rightarrow> creation \<Rightarrow> 'w world \<Rightarrow> 'w created" where
  "create_session e n (CreateLocal p) w = CreateLocalSession e n p w"
| "create_session e n (CreateSerial p) w = CreateSerialSession e n p w"
| "create_session e n (CreateSSH p) w = CreateSSHSession e n p w"

text \<open>Whether the session created is to write a log.\<close>

fun logged :: "creation \<Rightarrow> bool" where
  "logged (CreateLocal p) \<longleftrightarrow> lp_LogFile p \<noteq> []"
| "logged (CreateSerial p) \<longleftrightarrow> pp_LogFile p \<noteq> []"
| "logged (CreateSSH p) \<longleftrightarrow> hp_LogFile p \<noteq> [] \<and> \<not> (hp_Persistent p \<or> hp_SessionID p \<noteq> [])"

section \<open>Nothing is left over\<close>

text \<open>A session as it comes up.\<close>

definition fresh_session :: "bytes \<Rightarrow> bool \<Rightarrow> session \<Rightarrow> bool" where
  "fresh_session ID hasLog obj \<longleftrightarrow> sess_ok obj \<and> sess_ID obj = ID \<and> (sess_log_open obj \<longleftrightarrow> hasLog)
     \<and> (case obj of LocalS s \<Rightarrow> \<not> ps_closed s | SSHS s \<Rightarrow> \<not> sh_closed s | SerialS s \<Rightarrow> \<not> se_closed s | RemoteS r \<Rightarrow> True)"

lemma open_log_cases:
  assumes "open_log n path mx k = (d, r)"
  shows "(\<exists>err. r = Inl err) \<or> (r = Inr None \<and> path = []) \<or> (\<exists>lr. r = Inr (Some lr) \<and> lr_open lr \<and> path \<noteq> [])"
  using assms by (auto simp: open_log_def openLogWriter_def newLogRotator_def Let_def split: if_splits option.splits)

lemma log_Close_closed [simp]: "\<not> lr_open (fst (log_Close err r))"
  by (simp add: log_Close_def)

lemma close_log_closed: "close_log log = Some lr \<Longrightarrow> \<not> lr_open lr"
  by (auto simp: close_log_def)

lemma close_log_None [simp]: "close_log None = None"
  by (simp add: close_log_def)

lemma closed_session_log:
  assumes "fresh_session ID hasLog obj" and "sess_Close rpc io obj net = (obj', net', err)"
  shows "\<not> sess_log_open obj'"
  using assms
  by (cases obj) (auto simp: fresh_session_def session_defs split: if_splits prod.splits)

definition same_pty :: "pty_session \<Rightarrow> pty_session \<Rightarrow> bool" where
  "same_pty s s' \<longleftrightarrow> ps_id s' = ps_id s \<and> ps_alive s' = ps_alive s \<and> ps_closed s' = ps_closed s
     \<and> ps_logClosed s' = ps_logClosed s \<and> (ps_log s' = None \<longleftrightarrow> ps_log s = None)"

lemma same_pty_reads: "pty_reads s cs = Some s' \<Longrightarrow> same_pty s s'"
proof (induction s cs rule: pty_reads.induct)
  case (2 s c cs)
  then obtain s1 where 1: "pty_read s c False = Some s1" "pty_reads s1 cs = Some s'" by (auto split: bind_splits)
  have "same_pty s s1"
    using 1(1) by (auto simp: pty_read_def pty_output_def Let_def same_pty_def split: if_splits bind_splits)
  with "2.IH" [OF 1] show ?case by (simp add: same_pty_def)
qed (simp add: same_pty_def)

lemma same_inject_all: "inject_all s ls = Some s' \<Longrightarrow> same_pty s s'"
proof (induction s ls rule: inject_all.induct)
  case (2 s line chunks ls)
  then obtain s1 where 1: "pty_reads (s\<lparr>ps_tty := ps_tty s @ line\<rparr>) chunks = Some s1" "inject_all s1 ls = Some s'"
    by (auto split: bind_splits)
  from same_pty_reads [OF 1(1)] "2.IH" [OF 1] show ?case by (simp add: same_pty_def)
qed (simp add: same_pty_def)

lemma fresh_local:
  assumes "newPTYSession sid nm cmd hasLog environ bufVal now startErr first replies = Some (Inr s)"
  shows "fresh_session sid hasLog (LocalS s)"
proof -
  have none: "startErr = None" using assms by (cases startErr) (simp_all add: newPTYSession_def Let_def)
  let ?cmd = "if cmd = [] then ''/bin/bash'' else cmd"
  define s0 where "s0 rb = \<lparr>ps_id = sid, ps_name = (if nm = [] then ?cmd else nm), ps_command = ?cmd,
    ps_args = (if isPowerShell ?cmd then [''-NoLogo'', ''-NoProfile''] else []),
    ps_env = environ @ (if isPowerShell ?cmd then powerShellEnv else [''TERM=xterm-256color'']),
    ps_buf = rb, ps_log = (if hasLog then Some [] else None), ps_tty = [],
    ps_alive = True, ps_closed = False, ps_readDone = False, ps_killed = False,
    ps_logClosed = False, ps_createdAt = now, ps_lastUsed = now\<rparr>" for rb
  have "do { rb \<leftarrow> NewRingBuffer (BufferSizeFromEnv bufVal);
             s \<leftarrow> pty_reads (s0 rb) first;
             s \<leftarrow> (if isPowerShell ?cmd
                then do { s \<leftarrow> inject_all s (zip inject (replies @ replicate (length inject) [])); Some (s\<lparr>ps_buf := Mark (ps_buf s)\<rparr>) } else Some s);
             Some (Inr s) } = (Some (Inr s) :: pty_session result option)"
    using assms unfolding newPTYSession_def Let_def none option.case s0_def .
  then obtain rb s1 where 1: "pty_reads (s0 rb) first = Some s1" and 2: "(if isPowerShell ?cmd
      then do { s \<leftarrow> inject_all s1 (zip inject (replies @ replicate (length inject) [])); Some (s\<lparr>ps_buf := Mark (ps_buf s)\<rparr>) } else Some s1) = Some s"
    by (simp only: bind_eq_Some_conv option.inject sum.inject) blast
  have "same_pty s1 s"
  proof (cases "isPowerShell ?cmd")
    case True
    with 2 obtain s2 where "inject_all s1 (zip inject (replies @ replicate (length inject) [])) = Some s2" "s = s2\<lparr>ps_buf := Mark (ps_buf s2)\<rparr>"
      by (simp only: if_True bind_eq_Some_conv option.inject) blast
    with same_inject_all show ?thesis by (fastforce simp: same_pty_def)
  next
    case False
    with 2 show ?thesis by (simp add: same_pty_def)
  qed
  with same_pty_reads [OF 1] show ?thesis
    by (auto simp: fresh_session_def same_pty_def pty_ok_def s0_def)
qed

lemma fresh_serial:
  assumes "NewSerialSession i device baud hasLog bufVal portErr reads = Some (Inr (s, b))"
  shows "fresh_session i hasLog (SerialS s)"
proof -
  have reads: "serial_reads s rs = Some s' \<Longrightarrow> se_id s' = se_id s \<and> se_closed s' = se_closed s
      \<and> se_logClosed s' = se_logClosed s \<and> (se_log s' = None \<longleftrightarrow> se_log s = None)" for s rs s'
  proof (induction s rs rule: serial_reads.induct)
    case (2 s r rs)
    show ?case
    proof (cases "se_readDone s")
      case False
      with "2.prems" obtain s1 where 1: "serial_read s r = Some s1" "serial_reads s1 rs = Some s'" by (auto split: bind_splits)
      have "se_id s1 = se_id s \<and> se_closed s1 = se_closed s \<and> se_logClosed s1 = se_logClosed s \<and> (se_log s1 = None \<longleftrightarrow> se_log s = None)"
        using 1(1) by (auto simp: serial_read_def serial_output_def split: if_splits sum.splits bind_splits)
      with "2.IH" [OF False 1] show ?thesis by simp
    qed (use "2.prems" in simp)
  qed simp
  show ?thesis
    using assms by (auto simp: NewSerialSession_def fresh_session_def serial_ok_def split: if_splits option.splits bind_splits dest!: reads)
qed

lemma fresh_ssh:
  assumes "NewSSHSession f io i bufVal hasLog first cfg = Some (calls, Inr s)"
  shows "fresh_session i hasLog (SSHS s)"
proof -
  have outputs: "ssh_outputs s cs = Some s' \<Longrightarrow> sh_id s' = sh_id s \<and> sh_closed s' = sh_closed s
      \<and> sh_logClosed s' = sh_logClosed s \<and> (sh_log s' = None \<longleftrightarrow> sh_log s = None)" for s cs s'
  proof (induction s cs rule: ssh_outputs.induct)
    case (2 s c cs)
    then obtain s1 where 1: "ssh_output s c = Some s1" "ssh_outputs s1 cs = Some s'" by (auto split: bind_splits)
    have "sh_id s1 = sh_id s \<and> sh_closed s1 = sh_closed s \<and> sh_logClosed s1 = sh_logClosed s \<and> (sh_log s1 = None \<longleftrightarrow> sh_log s = None)"
      using 1(1) by (auto simp: ssh_output_def split: bind_splits)
    with "2.IH" [OF 1] show ?case by simp
  qed simp
  show ?thesis
    using assms by (auto simp: NewSSHSession_def Let_def fresh_session_def ssh_ok_def split: sum.splits option.splits bind_splits if_splits dest!: outputs)
qed

lemma fresh_remote_ssh:
  assumes "NewRemoteSSHSession f io rpc i bufVal cfg command attachID d = Some (d', calls, Inr r)"
  shows "fresh_session i False (RemoteS r)"
proof -
  have call: "r_call rpc r w m ps = (r', w', res) \<Longrightarrow> r_id r' = r_id r \<and> r_closeOnce r' = r_closeOnce r"
    for r w m ps r' w' res
    by (auto simp: r_call_def Let_def split: prod.splits reply.splits if_splits)
  have "r_id r = i \<and> \<not> r_closeOnce r"
    using assms by (auto simp: NewRemoteSSHSession_def attach_or_create_def AttachRemoteSession_def NewRemoteSession_def
        fresh_remote_def Let_def split: prod.splits sum.splits bind_splits if_splits dest!: call)
  then show ?thesis by (simp add: fresh_session_def)
qed

text \<open>The contract of the three handlers: what they leave of the registry, the session and the log file.\<close>

definition creation_ok ::
  "('s, 'c) create_env \<Rightarrow> bool \<Rightarrow> 'w world \<Rightarrow> log_rotator option \<Rightarrow> ('w, tool_result) outcome_of \<Rightarrow> bool" where
  "creation_ok n hasLog w log out \<longleftrightarrow> (\<exists>w' r. out = Returns (w', r) \<and> (case r of
      Inl err \<Rightarrow> m_sessions (wd_mgr w') = m_sessions (wd_mgr w)
        \<and> (wd_heap w' = wd_heap w \<or> \<not> sess_IsAlive (wd_heap w' (cn_ref n))) \<and> (\<forall>lr. log = Some lr \<longrightarrow> \<not> lr_open lr)
    | Inr res \<Rightarrow> (\<exists>ty target. res = Created (cn_id n) ty target)
        \<and> m_sessions (wd_mgr w') = (m_sessions (wd_mgr w))(cn_id n \<mapsto> cn_ref n)
        \<and> sess_ID (wd_heap w' (cn_ref n)) = cn_id n \<and> ((\<exists>lr. log = Some lr \<and> lr_open lr) \<longleftrightarrow> hasLog)))"

lemma creation_failed:
  assumes "wd_mgr w1 = wd_mgr w" and "wd_heap w1 = wd_heap w" and "\<And>lr. log = Some lr \<Longrightarrow> \<not> lr_open lr"
  shows "creation_ok n hasLog w log (Returns (w1, Inl err))"
  using assms by (simp add: creation_ok_def)

lemma creation_none: "creation_ok n hasLog w None (Returns (w, Inl err))"
  by (rule creation_failed) simp_all

lemma creation_finished:
  assumes fresh: "fresh_session (cn_id n) hasLog obj" and "m_sessions (wd_mgr w) (cn_id n) = None"
    and w1: "wd_mgr w1 = wd_mgr w"
    and log: "\<And>lr. log = Some lr \<Longrightarrow> lr_open lr \<longleftrightarrow> hasLog" "hasLog \<Longrightarrow> log \<noteq> None"
    and "finish_create e n d log obj target w1 = (d', log', out)"
  shows "creation_ok n hasLog w log' out"
proof -
  obtain w' r where r: "register_session e (cn_ctx1 n) (cn_ctx2 n) (cn_ref n) obj target w1 = (w', r)" by fastforce
  have f: "sess_ok obj" "sess_ID obj = cn_id n" "sess_log_open obj \<longleftrightarrow> hasLog" using fresh by (auto simp: fresh_session_def)
  from assms(6) r have out: "out = Returns (w', r)" "log' = log_of (wd_heap w' (cn_ref n)) log"
    by (auto simp: finish_create_def)
  note reg = register_session_no_orphan [OF f(1) assms(2) [folded f(2) w1] r]
  show ?thesis
  proof (cases r)
    case (Inl err)
    with reg obtain net where c: "wd_heap w' (cn_ref n) = fst (sess_Close (ev_rpc e) (ev_io e) obj net)" by auto
    obtain obj' net' er where cl: "sess_Close (ev_rpc e) (ev_io e) obj net = (obj', net', er)" by (cases rule: prod_cases3)
    have "\<not> sess_log_open (wd_heap w' (cn_ref n))" using closed_session_log [OF fresh cl] c cl by simp
    then have "log' = close_log log" using out(2) by (simp add: log_of_def)
    with Inl reg out(1) w1 close_log_closed show ?thesis by (auto simp: creation_ok_def)
  next
    case (Inr res)
    with reg f(3) out(2) have "log' = (if hasLog then log else close_log log)" by (simp add: log_of_def)
    with log have "(\<exists>lr. log' = Some lr \<and> lr_open lr) \<longleftrightarrow> hasLog" by (auto dest: close_log_closed)
    with Inr reg f(2) out(1) w1 show ?thesis by (auto simp: creation_ok_def)
  qed
qed

lemma create_local_ok:
  assumes "m_sessions (wd_mgr w) (cn_id n) = None" and "CreateLocalSession e n p w = (d, log, out)"
  shows "creation_ok n (lp_LogFile p \<noteq> []) w log out"
proof -
  obtain d0 r0 where o: "open_log n (lp_LogFile p) (lp_LogMaxSizeMB p) (lp_LogMaxFiles p) = (d0, r0)" by fastforce
  let ?cmd = "if lp_Command p = [] then ''/bin/bash'' else lp_Command p"
  show ?thesis
  proof (cases r0)
    case (Inl err)
    with o assms(2) have f: "log = None" "out = Returns (w, Inl err)" by (simp_all add: CreateLocalSession_def)
    show ?thesis unfolding f by (rule creation_none)
  next
    case (Inr l0)
    with open_log_cases [OF o] have l: "\<And>lr. l0 = Some lr \<Longrightarrow> lr_open lr" "l0 \<noteq> None \<longleftrightarrow> lp_LogFile p \<noteq> []" by auto
    obtain r1 where n: "newPTYSession (cn_id n) ?cmd ?cmd (l0 \<noteq> None) (cn_environ n) (cn_bufVal n) (ev_now e)
        (cn_startErr n) (cn_first n) (cn_replies n) = Some r1"
      using live_newPTYSession by metis
    then have run: "(case r1 of Inl err \<Rightarrow> (d0, close_log l0, Returns (w, Inl err))
        | Inr s \<Rightarrow> finish_create e n d0 l0 (LocalS s) ?cmd w) = (d, log, out)"
      using assms(2) o Inr by (simp add: CreateLocalSession_def Let_def)
    show ?thesis
    proof (cases r1)
      case (Inl err)
      with run have "log = close_log l0" "out = Returns (w, Inl err)" by simp_all
      then show ?thesis using close_log_closed by (simp add: creation_failed)
    next
      case s: (Inr s)
      have "fresh_session (cn_id n) (lp_LogFile p \<noteq> []) (LocalS s)" using fresh_local [OF n [unfolded s]] unfolding l(2) .
      moreover from run s have "finish_create e n d0 l0 (LocalS s) ?cmd w = (d, log, out)" by simp
      ultimately show ?thesis using assms(1) l by (intro creation_finished [of n _ "LocalS s" w w l0]) simp_all
    qed
  qed
qed

lemma serial_read_holds:
  assumes "holds h (se_buf s)"
  shows "\<exists>s' h'. serial_read s r = Some s' \<and> holds h' (se_buf s')"
proof (cases r)
  case (Inr chunk)
  obtain rb k where "Write (se_buf s) chunk = Some (rb, k)" "holds (h @ chunk) rb"
    using Write_holds [OF assms, of chunk] by blast
  with Inr assms show ?thesis by (cases "se_done s"; cases "chunk = []") (auto simp: serial_read_def serial_output_def)
qed (use assms in \<open>auto simp: serial_read_def\<close>)

lemma serial_reads_total: "holds h (se_buf s) \<Longrightarrow> \<exists>s'. serial_reads s rs = Some s'"
proof (induction rs arbitrary: h s)
  case (Cons r rs)
  obtain s1 h1 where 1: "serial_read s r = Some s1" "holds h1 (se_buf s1)" using serial_read_holds [OF Cons.prems] by blast
  from Cons.IH [OF 1(2)] 1(1) show ?case by simp
qed simp

lemma NewSerialSession_total: "\<exists>r. NewSerialSession i device baud hasLog bufVal portErr reads = Some r"
proof -
  obtain rb where rb: "NewRingBuffer (BufferSizeFromEnv bufVal) = Some rb" "holds [] rb" using BufferSizeFromEnv_new by blast
  define s0 where "s0 = \<lparr>se_id = i, se_buf = rb, se_log = (if hasLog then Some [] else None), se_port = [], se_alive = True,
    se_done = False, se_readDone = False, se_closed = False, se_logClosed = False\<rparr>"
  obtain s1 where "serial_reads s0 reads = Some s1" using serial_reads_total [of "[]" s0] rb(2) by (auto simp: s0_def)
  with rb(1) show ?thesis unfolding NewSerialSession_def s0_def by (cases portErr) simp_all
qed

lemma create_serial_ok:
  assumes "m_sessions (wd_mgr w) (cn_id n) = None" and "CreateSerialSession e n p w = (d, log, out)"
  shows "creation_ok n (pp_LogFile p \<noteq> []) w log out"
proof -
  obtain d0 r0 where o: "open_log n (pp_LogFile p) (pp_LogMaxSizeMB p) (pp_LogMaxFiles p) = (d0, r0)" by fastforce
  show ?thesis
  proof (cases r0)
    case (Inl err)
    with o assms(2) have f: "log = None" "out = Returns (w, Inl err)" by (simp_all add: CreateSerialSession_def)
    show ?thesis unfolding f by (rule creation_none)
  next
    case (Inr l0)
    with open_log_cases [OF o] have l: "\<And>lr. l0 = Some lr \<Longrightarrow> lr_open lr" "l0 \<noteq> None \<longleftrightarrow> pp_LogFile p \<noteq> []" by auto
    let ?target = "pp_Device p @ ''@'' @ dec (pp_BaudRate p)"
    obtain r1 where n: "NewSerialSession (cn_id n) (pp_Device p) (pp_BaudRate p) (l0 \<noteq> None) (cn_bufVal n) (cn_portErr n)
        (cn_reads n) = Some r1"
      using NewSerialSession_total by metis
    then have run: "(case r1 of Inl err \<Rightarrow> (d0, close_log l0, Returns (w, Inl err))
        | Inr (s, baud) \<Rightarrow> finish_create e n d0 l0 (SerialS s) ?target w) = (d, log, out)"
      using assms(2) o Inr by (simp add: CreateSerialSession_def Let_def)
    show ?thesis
    proof (cases r1)
      case (Inl err)
      with run have "log = close_log l0" "out = Returns (w, Inl err)" by simp_all
      then show ?thesis using close_log_closed by (simp add: creation_failed)
    next
      case s': (Inr sb)
      obtain s b where sb: "sb = (s, b)" by fastforce
      have "fresh_session (cn_id n) (pp_LogFile p \<noteq> []) (SerialS s)"
        using fresh_serial [OF n [unfolded s' sb]] unfolding l(2) .
      moreover from run s' sb have "finish_create e n d0 l0 (SerialS s) ?target w = (d, log, out)" by simp
      ultimately show ?thesis using assms(1) l by (intro creation_finished [of n _ "SerialS s" w w l0]) simp_all
    qed
  qed
qed

lemma create_ssh_ok:
  assumes "m_sessions (wd_mgr w) (cn_id n) = None" and "CreateSSHSession e n p w = (d, log, out)"
  shows "creation_ok n (hp_LogFile p \<noteq> [] \<and> \<not> (hp_Persistent p \<or> hp_SessionID p \<noteq> [])) w log out"
proof -
  obtain d0 r0 where o: "open_log n (hp_LogFile p) (hp_LogMaxSizeMB p) (hp_LogMaxFiles p) = (d0, r0)" by fastforce
  let ?target = "hp_User p @ ''@'' @ hp_Host p" and ?cfg = "ssh_config_of p"
  let ?persistent = "hp_Persistent p \<or> hp_SessionID p \<noteq> []"
  show ?thesis
  proof (cases r0)
    case (Inl err)
    with o assms(2) have f: "log = None" "out = Returns (w, Inl err)" by (simp_all add: CreateSSHSession_def Let_def)
    show ?thesis unfolding f by (rule creation_none)
  next
    case (Inr l0)
    with open_log_cases [OF o] have l: "\<And>lr. l0 = Some lr \<Longrightarrow> lr_open lr" "l0 \<noteq> None \<longleftrightarrow> hp_LogFile p \<noteq> []" by auto
    show ?thesis
    proof (cases ?persistent)
      case True
      obtain net calls r1 where n: "NewRemoteSSHSession (cn_files n) (cn_ssh n) (ev_rpc e) (cn_id n) (cn_bufVal n) ?cfg
          (hp_Command p) (hp_SessionID p) (wd_net w) = Some (net, calls, r1)"
        by (rule NewRemoteSSHSession_total)
      then have run: "(case r1 of Inl err \<Rightarrow> (d0, close_log l0, Returns (w\<lparr>wd_net := net\<rparr>, Inl err))
          | Inr s \<Rightarrow> finish_create e n d0 (close_log l0) (RemoteS s) ?target (w\<lparr>wd_net := net\<rparr>)) = (d, log, out)"
        using assms(2) o Inr True by (auto simp: CreateSSHSession_def Let_def split: sum.splits)
      show ?thesis
      proof (cases r1)
        case (Inl err)
        with run have "log = close_log l0" "out = Returns (w\<lparr>wd_net := net\<rparr>, Inl err)" by simp_all
        then show ?thesis using close_log_closed by (simp add: creation_failed)
      next
        case s: (Inr s)
        have "fresh_session (cn_id n) False (RemoteS s)" by (rule fresh_remote_ssh [OF n [unfolded s]])
        moreover from run s have "finish_create e n d0 (close_log l0) (RemoteS s) ?target (w\<lparr>wd_net := net\<rparr>) = (d, log, out)" by simp
        ultimately have "creation_ok n False w log out" using assms(1) close_log_closed [of l0]
          by (intro creation_finished [of n _ "RemoteS s" w "w\<lparr>wd_net := net\<rparr>" "close_log l0"]) auto
        with True show ?thesis by simp
      qed
    next
      case False
      obtain calls r1 where n: "NewSSHSession (cn_files n) (cn_ssh n) (cn_id n) (cn_bufVal n) (l0 \<noteq> None) (cn_first n) ?cfg
          = Some (calls, r1)"
        by (rule NewSSHSession_total)
      then have run: "(case r1 of Inl err \<Rightarrow> (d0, close_log l0, Returns (w, Inl err))
          | Inr s \<Rightarrow> finish_create e n d0 l0 (SSHS s) ?target w) = (d, log, out)"
        using assms(2) o Inr False by (auto simp: CreateSSHSession_def Let_def split: sum.splits)
      show ?thesis
      proof (cases r1)
        case (Inl err)
        with run have "log = close_log l0" "out = Returns (w, Inl err)" by simp_all
        then show ?thesis using close_log_closed by (simp add: creation_failed)
      next
        case s: (Inr s)
        have "fresh_session (cn_id n) (hp_LogFile p \<noteq> []) (SSHS s)" using fresh_ssh [OF n [unfolded s]] unfolding l(2) .
        moreover from run s have "finish_create e n d0 l0 (SSHS s) ?target w = (d, log, out)" by simp
        ultimately have "creation_ok n (hp_LogFile p \<noteq> []) w log out" using assms(1) l
          by (intro creation_finished [of n _ "SSHS s" w w l0]) simp_all
        with False show ?thesis by simp
      qed
    qed
  qed
qed

lemma create_session_ok:
  assumes "m_sessions (wd_mgr w) (cn_id n) = None" and "create_session e n c w = (d, log, out)"
  shows "creation_ok n (logged c) w log out"
  using assms create_local_ok create_serial_ok create_ssh_ok by (cases c) simp_all

text \<open>C32. What the creating tools give back. Under a fresh identifier each of them returns, whatever the terminal, the port,
  the connection, the log file, the registry and the context do. When it answers with a session, this session is
  registered under the identifier in the answer, and the log file is open exactly when one was asked for and the
  session is not persistent; when it answers with an error, the registry is as it was, the session that had come up,
  if any, has been closed, and so has the log file.\<close>

theorem creation_accounted:
  assumes "m_sessions (wd_mgr w) (cn_id n) = None" and "create_session e n c w = (d, log, out)"
  shows "\<exists>w' r. out = Returns (w', r) \<and> (case r of
      Inl err \<Rightarrow> m_sessions (wd_mgr w') = m_sessions (wd_mgr w)
        \<and> (wd_heap w' = wd_heap w \<or> \<not> sess_IsAlive (wd_heap w' (cn_ref n))) \<and> (\<forall>lr. log = Some lr \<longrightarrow> \<not> lr_open lr)
    | Inr res \<Rightarrow> (\<exists>ty target. res = Created (cn_id n) ty target)
        \<and> m_sessions (wd_mgr w') = (m_sessions (wd_mgr w))(cn_id n \<mapsto> cn_ref n)
        \<and> sess_ID (wd_heap w' (cn_ref n)) = cn_id n \<and> ((\<exists>lr. log = Some lr \<and> lr_open lr) \<longleftrightarrow> logged c))"
  using create_session_ok [OF assms] unfolding creation_ok_def .

section \<open>The calls\<close>

record create_decoders =
  dc_CreateSSH :: "(bytes \<times> json) list \<Rightarrow> CreateSSHParams result"
  dc_CreateLocal :: "(bytes \<times> json) list \<Rightarrow> CreateLocalParams result"
  dc_CreateSerial :: "(bytes \<times> json) list \<Rightarrow> CreateSerialParams result"

fun creation_of :: "create_decoders \<Rightarrow> tool \<Rightarrow> raw option \<Rightarrow> creation result option" where
  "creation_of d T_CreateSSHSession args = Some (decoded (dc_CreateSSH d) CreateSSH args)"
| "creation_of d T_CreateLocalSession args = Some (decoded (dc_CreateLocal d) CreateLocal args)"
| "creation_of d T_CreateSerialSession args = Some (decoded (dc_CreateSerial d) CreateSerial args)"
| "creation_of d t args = None"

text \<open>\<open>run\<close> serves the creating tools as their handlers do.\<close>

definition creates ::
  "create_decoders \<Rightarrow> (int \<Rightarrow> bytes) \<Rightarrow> 'w env \<Rightarrow> ('s, 'c) create_env
     \<Rightarrow> (tool \<Rightarrow> raw option \<Rightarrow> 'w world \<Rightarrow> 'w world \<times> json result) \<Rightarrow> bool" where
  "creates d fmt e n run \<longleftrightarrow> (\<forall>t args w. case creation_of d t args of
       None \<Rightarrow> True
     | Some (Inl err) \<Rightarrow> run t args w = (w, Inl err)
     | Some (Inr c) \<Rightarrow> (\<forall>disk log w' r. create_session e n c w = (disk, log, Returns (w', r))
          \<longrightarrow> run t args w = (w', map_sum id (json_result fmt) r)))"

text \<open>A client is told of a session exactly when there is one: the reply to a call of a creating tool is either the JSON of
  the session registered by it, with the identifier under which the client can use it, or an error result, and then
  the registry is as it was.\<close>

theorem created_session_reported:
  assumes "creates d fmt e n run" and "tool_of name = Some t" and "creation_of d t (Some args) = Some r"
    and "m_sessions (wd_mgr w) (cn_id n) = None"
  shows "\<exists>w' reply. handle run (tool_request ID name args) w = (w', okResp ID reply)
    \<and> ((\<exists>ty target. reply = TextResult (json_result fmt (Created (cn_id n) ty target)) False
          \<and> m_sessions (wd_mgr w') = (m_sessions (wd_mgr w))(cn_id n \<mapsto> cn_ref n))
       \<or> (\<exists>err. reply = TextResult (json_ToolError (classifyError err)) True \<and> m_sessions (wd_mgr w') = m_sessions (wd_mgr w)))"
proof -
  have served: "case creation_of d t (Some args) of None \<Rightarrow> True | Some (Inl err) \<Rightarrow> run t (Some args) w = (w, Inl err)
     | Some (Inr c) \<Rightarrow> (\<forall>disk log w' r. create_session e n c w = (disk, log, Returns (w', r))
          \<longrightarrow> run t (Some args) w = (w', map_sum id (json_result fmt) r))"
    using assms(1) unfolding creates_def by blast
  show ?thesis
  proof (cases r)
    case (Inl err)
    with served assms(3) have "run t (Some args) w = (w, Inl err)" by simp
    then show ?thesis by (simp add: handle_tool_request [OF assms(2)]) blast
  next
    case (Inr c)
    obtain disk log out where o: "create_session e n c w = (disk, log, out)" by (cases rule: prod_cases3)
    from create_session_ok [OF assms(4) o] obtain w' res where 1: "out = Returns (w', res)" and 2: "case res of
        Inl err \<Rightarrow> m_sessions (wd_mgr w') = m_sessions (wd_mgr w)
          \<and> (wd_heap w' = wd_heap w \<or> \<not> sess_IsAlive (wd_heap w' (cn_ref n))) \<and> (\<forall>lr. log = Some lr \<longrightarrow> \<not> lr_open lr)
      | Inr res \<Rightarrow> (\<exists>ty target. res = Created (cn_id n) ty target)
          \<and> m_sessions (wd_mgr w') = (m_sessions (wd_mgr w))(cn_id n \<mapsto> cn_ref n)
          \<and> sess_ID (wd_heap w' (cn_ref n)) = cn_id n \<and> ((\<exists>lr. log = Some lr \<and> lr_open lr) \<longleftrightarrow> logged c)"
      unfolding creation_ok_def by blast
    with served assms(3) Inr o 1 have run: "run t (Some args) w = (w', map_sum id (json_result fmt) res)" by simp
    show ?thesis
    proof (cases res)
      case (Inl err)
      with run 2 show ?thesis by (simp add: handle_tool_request [OF assms(2)]) blast
    next
      case (Inr v)
      with run 2 show ?thesis by (simp add: handle_tool_request [OF assms(2)] del: json_result.simps) blast
    qed
  qed
qed

definition create_sample :: "(unit, unit) create_env" where
  "create_sample = \<lparr>cn_ctx1 = None, cn_ctx2 = None, cn_id = ''n1'', cn_ref = 7, cn_logOpen = None, cn_logStat = None,
     cn_disk = Map.empty, cn_bufVal = [], cn_environ = [], cn_startErr = Some (Errorf ''no pty''), cn_first = [],
     cn_replies = [], cn_portErr = None, cn_reads = [], cn_files = files_sample, cn_ssh = io_sample\<rparr>"

definition local_params :: CreateLocalParams where
  "local_params = \<lparr>lp_Command = [], lp_LogFile = ''/tmp/l'', lp_LogMaxSizeMB = 1, lp_LogMaxFiles = 2\<rparr>"

lemma create_sample_run:
  "create_session call_env create_sample (CreateLocal local_params) world_sample
     = ([0 \<mapsto> []], Some \<lparr>lr_maxSize = 1048576, lr_maxFiles = 2, lr_open = False, lr_size = 0\<rparr>,
        Returns (world_sample, Inl (Wrap (''start pty '' @ Quote ''/bin/bash'') (Errorf ''no pty''))))"
proof -
  have "wrap64 (wrap64 (1 * 1024) * 1024) = 1048576" by code_simp
  then show ?thesis
    by (simp add: CreateLocalSession_def create_sample_def local_params_def open_log_def openLogWriter_def newLogRotator_def
        newPTYSession_def close_log_def log_Close_def)
qed

lemma creation_accounted_witness:
  "\<exists>w' r. snd (snd (create_session call_env create_sample (CreateLocal local_params) world_sample)) = Returns (w', r)
    \<and> m_sessions (wd_mgr w') = [''p1'' \<mapsto> 1]"
proof -
  have f: "m_sessions (wd_mgr world_sample) (cn_id create_sample) = None" "m_sessions (wd_mgr world_sample) = [''p1'' \<mapsto> 1]"
    by (simp_all add: create_sample_def world_sample_def Add_def NewManager_def maxSessions_def)
  from creation_accounted [OF f(1) create_sample_run] f(2) create_sample_run show ?thesis by auto
qed

definition create_decoders_sample :: create_decoders where
  "create_decoders_sample = \<lparr>dc_CreateSSH = (\<lambda>_. Inl (Errorf ''no'')), dc_CreateLocal = (\<lambda>_. Inr local_params),
     dc_CreateSerial = (\<lambda>_. Inl (Errorf ''no''))\<rparr>"

definition create_run_sample :: "tool \<Rightarrow> raw option \<Rightarrow> unit world \<Rightarrow> unit world \<times> json result" where
  "create_run_sample t args w =
     (case creation_of create_decoders_sample t args of
        None \<Rightarrow> (w, Inr JNull)
      | Some (Inl err) \<Rightarrow> (w, Inl err)
      | Some (Inr c) \<Rightarrow> (case create_session call_env create_sample c w of
            (_, _, Returns (w', r)) \<Rightarrow> (w', map_sum id (json_result (\<lambda>_. [])) r) | _ \<Rightarrow> (w, Inr JNull)))"

lemma created_session_reported_witness:
  "\<exists>w' reply. handle create_run_sample (tool_request ''3'' ''create_local_session'' (RObj [] [])) world_sample = (w', okResp ''3'' reply)"
proof -
  have s: "creates create_decoders_sample (\<lambda>_. []) call_env create_sample create_run_sample"
    by (auto simp: creates_def create_run_sample_def split: option.split sum.split)
  have t: "tool_of ''create_local_session'' = Some T_CreateLocalSession" by code_simp
  have c: "creation_of create_decoders_sample T_CreateLocalSession (Some (RObj [] [])) = Some (Inr (CreateLocal local_params))"
    by (simp add: decoded_def UnmarshalMcpArgs_def create_decoders_sample_def)
  have f: "m_sessions (wd_mgr world_sample) (cn_id create_sample) = None"
    by (simp add: create_sample_def world_sample_def Add_def NewManager_def maxSessions_def)
  from created_session_reported [OF s t c f, of "''3''"] show ?thesis by blast
qed

end
