(* ===== verification/Daemon.thy ===== *)
theory Daemon
  imports Aitx_Server
begin

text \<open>
  The ai-tmux daemon as a process (\<open>RunServer\<close> and \<open>handleConn\<close> of
  \<open>internal/aitx/server.go\<close>): taking over the socket path, serving connections request by request, and
  shutting down. Several daemons can be started on one path, so the state has the directory entry of the path
  and every running daemon; the steps are those of a step relation. The umask around listening and the size
  limit of a line are the operating system's and the scanner's.
\<close>

section \<open>A connection\<close>

text \<open>
  What the environment contributes to one request: \<open>ce_other\<close> is what the other connections and the
  reaper do to the server before it, the rest are the arguments of \<open>handle\<close>.
\<close>

record conn_env =
  ce_other :: "aitx_server \<Rightarrow> aitx_server"
  ce_env :: srv_env
  ce_fmt :: "int \<Rightarrow> bytes"
  ce_order :: "bytes list"
  ce_meanwhile :: "aitx_server \<Rightarrow> aitx_server"

text \<open>A line is a request, or \<open>None\<close> when it does not decode as one.\<close>

fun handleConn :: "(conn_env \<times> Request option) list \<Rightarrow> aitx_server \<Rightarrow> (aitx_server \<times> Response list) option" where
  "handleConn [] srv = Some (srv, [])"
| "handleConn ((ce, None) # ls) srv = handleConn ls srv"
| "handleConn ((ce, Some req) # ls) srv =
     do { (srv, resp) \<leftarrow> handle (ce_env ce) (ce_fmt ce) (ce_order ce) (ce_meanwhile ce) (ce_other ce srv) req;
          (srv, resps) \<leftarrow> handleConn ls srv;
          Some (srv, resp # resps) }"

definition quiet :: "conn_env \<Rightarrow> bool" where
  "quiet ce \<longleftrightarrow> (\<forall>srv. server_ok srv \<longrightarrow> server_ok (ce_other ce srv) \<and> server_ok (ce_meanwhile ce srv))"

lemma handleConn_ok:
  assumes "server_ok srv" and "\<forall>(ce, l) \<in> set ls. quiet ce"
  obtains srv' resps where "handleConn ls srv = Some (srv', resps)" "server_ok srv'"
    "map rs_ID resps = map rq_ID (List.map_filter snd ls)"
    "\<forall>resp \<in> set resps. rs_Result resp = None \<or> rs_Error resp = []"
  using assms
proof (induction ls srv arbitrary: thesis rule: handleConn.induct)
  case (3 ce req ls srv)
  let ?h = "handle (ce_env ce) (ce_fmt ce) (ce_order ce) (ce_meanwhile ce) (ce_other ce srv) req"
  have "server_ok (ce_other ce srv)" "server_ok (ce_meanwhile ce (ce_other ce srv))"
    using "3.prems"(2,3) by (auto simp: quiet_def)
  then have "answers req ?h" by (rule answers_handle)
  then obtain srv1 resp where h: "?h = Some (srv1, resp)" "server_ok srv1" "rs_ID resp = rq_ID req"
      "rs_Result resp = None \<or> rs_Error resp = []" by (auto simp: answers_def)
  have "\<forall>(ce, l) \<in> set ls. quiet ce" using "3.prems"(3) by simp
  from "3.IH" [OF h(1) refl _ h(2) this] obtain srv' resps where
    "handleConn ls srv1 = Some (srv', resps)" "server_ok srv'" "map rs_ID resps = map rq_ID (List.map_filter snd ls)"
    "\<forall>resp \<in> set resps. rs_Result resp = None \<or> rs_Error resp = []" by blast
  with h show ?case by (intro "3.prems"(1) [of srv' "resp # resps"]) (auto simp: map_filter_simps)
next
  case (2 ce ls srv)
  show ?case by (rule "2.IH") (use "2.prems" in \<open>auto simp: map_filter_simps\<close>)
qed (simp add: map_filter_simps)

text \<open>A connection is served in order: whatever the lines are and whatever the other connections do that keeps
  the daemon sound, the daemon does not panic, the requests among the lines get one response each, in their order
  and with their identifiers, the other lines get none, and the daemon is sound afterwards.\<close>

theorem handleConn_in_order:
  assumes "server_ok srv" and "\<forall>(ce, l) \<in> set ls. quiet ce"
  shows "\<exists>srv' resps. handleConn ls srv = Some (srv', resps) \<and> server_ok srv'
    \<and> map rs_ID resps = map rq_ID (List.map_filter snd ls)
    \<and> (\<forall>resp \<in> set resps. rs_Result resp = None \<or> rs_Error resp = [])"
  using handleConn_ok [OF assms] by metis

definition conn_sample :: conn_env where
  "conn_sample = \<lparr>ce_other = id, ce_env = env_sample, ce_fmt = (\<lambda>_. []), ce_order = [], ce_meanwhile = id\<rparr>"

lemma handleConn_in_order_witness:
  "\<exists>srv' resps. handleConn [(conn_sample, None), (conn_sample, Some \<lparr>rq_ID = ''7'', rq_Method = ''nope'', rq_Params = JNull\<rparr>)] srv_sample
     = Some (srv', resps) \<and> map rs_ID resps = [''7'']"
  using handleConn_in_order [OF server_ok_sample,
      of "[(conn_sample, None), (conn_sample, Some \<lparr>rq_ID = ''7'', rq_Method = ''nope'', rq_Params = JNull\<rparr>)]"]
  by (fastforce simp: quiet_def conn_sample_def map_filter_simps)

section \<open>The socket path\<close>

text \<open>The entry of the path: a socket belongs to the daemon listening on it.\<close>

datatype path_entry = Absent | NotSocket | Socket nat

text \<open>
  Starting: the entry left behind and the outcome; an entry that is a socket is removed, whether or not
  someone listens on it.
\<close>

definition RunServer :: "go_error option \<Rightarrow> nat \<Rightarrow> bytes \<Rightarrow> path_entry \<Rightarrow> path_entry \<times> unit result" where
  "RunServer listenErr d socketPath entry =
     (case entry of
        NotSocket \<Rightarrow> (NotSocket, Inl (Errorf (''socket path '' @ socketPath @ '' already exists and is not a Unix socket'')))
      | _ \<Rightarrow> (case listenErr of
                Some err \<Rightarrow> (Absent, Inl (Wrap (''listen '' @ socketPath) err))
              | None \<Rightarrow> (Socket d, Inr ())))"

text \<open>Leaving \<open>RunServer\<close>: the deferred removal of the path.\<close>

definition leave :: "path_entry \<Rightarrow> path_entry" where
  "leave entry = Absent"

record daemons =
  dm_path :: path_entry
  dm_running :: "nat \<rightharpoonup> aitx_server"

definition fresh_server :: "int \<Rightarrow> aitx_server" where
  "fresh_server idleSeconds = \<lparr>srv_sessions = Map.empty, srv_idleTimeout = idleSeconds * 1000\<rparr>"

datatype daemon_event =
    Start nat int "go_error option"
  | Serve nat "(conn_env \<times> Request option) list"
  | Reap nat int
  | Terminate nat

text \<open>A client reaches the daemon whose socket is at the path when it connects.\<close>

fun daemon_step :: "bytes \<Rightarrow> daemon_event \<Rightarrow> daemons \<Rightarrow> daemons option" where
  "daemon_step socketPath (Start d idleSeconds listenErr) st =
     (if dm_running st d \<noteq> None then None
      else Some (case RunServer listenErr d socketPath (dm_path st) of
                   (entry, Inl err) \<Rightarrow> st\<lparr>dm_path := entry\<rparr>
                 | (entry, Inr _) \<Rightarrow> st\<lparr>dm_path := entry, dm_running := (dm_running st)(d \<mapsto> fresh_server idleSeconds)\<rparr>))"
| "daemon_step socketPath (Serve d ls) st =
     (case dm_running st d of
        None \<Rightarrow> None
      | Some srv \<Rightarrow> (case handleConn ls srv of
                       None \<Rightarrow> None
                     | Some (srv, resps) \<Rightarrow> Some (st\<lparr>dm_running := (dm_running st)(d \<mapsto> srv)\<rparr>)))"
| "daemon_step socketPath (Reap d now) st =
     (case dm_running st d of
        None \<Rightarrow> None
      | Some srv \<Rightarrow> if srv_idleTimeout srv > 0
                    then Some (st\<lparr>dm_running := (dm_running st)(d \<mapsto> fst (idleReaper now srv))\<rparr>) else None)"
| "daemon_step socketPath (Terminate d) st =
     (case dm_running st d of
        None \<Rightarrow> None
      | Some srv \<Rightarrow> Some (st\<lparr>dm_path := leave (dm_path st), dm_running := map_delete d (dm_running st)\<rparr>))"

definition quiet_event :: "daemon_event \<Rightarrow> bool" where
  "quiet_event e \<longleftrightarrow> (case e of Serve d ls \<Rightarrow> \<forall>(ce, l) \<in> set ls. quiet ce | _ \<Rightarrow> True)"

text \<open>\<open>exclusive\<close> restricts the runs to those in which a daemon is only started while none is running,
  which is what \<open>ensureServer\<close> tries to establish; the entry found first may be left over.\<close>

inductive daemon_reach :: "bytes \<Rightarrow> bool \<Rightarrow> path_entry \<Rightarrow> daemons \<Rightarrow> bool" for socketPath exclusive entry where
  init: "daemon_reach socketPath exclusive entry \<lparr>dm_path = entry, dm_running = Map.empty\<rparr>"
| step: "daemon_reach socketPath exclusive entry st \<Longrightarrow> quiet_event e
    \<Longrightarrow> (\<And>d i l. exclusive \<Longrightarrow> e = Start d i l \<Longrightarrow> dm_running st = Map.empty)
    \<Longrightarrow> daemon_step socketPath e st = Some st' \<Longrightarrow> daemon_reach socketPath exclusive entry st'"

lemma fresh_server_ok: "server_ok (fresh_server i)"
  by (simp add: server_ok_def fresh_server_def)

lemma reap_ok: "server_ok srv \<Longrightarrow> server_ok (fst (idleReaper now srv))"
proof -
  assume ok: "server_ok srv"
  let ?s = "srv_sessions (fst (idleReaper now srv))"
  have sub: "?s sid = Some s \<Longrightarrow> srv_sessions srv sid = Some s" for sid s
    by (auto simp: idleReaper_def Let_def split: option.splits if_splits)
  then have d: "dom ?s \<subseteq> dom (srv_sessions srv)" by blast
  with ok have "finite (dom ?s)" "card (dom ?s) \<le> card (dom (srv_sessions srv))"
    by (auto simp: server_ok_def intro: finite_subset card_mono)
  with ok sub show ?thesis unfolding server_ok_def by (meson le_trans)
qed

definition sound_daemons :: "bool \<Rightarrow> daemons \<Rightarrow> bool" where
  "sound_daemons exclusive st \<longleftrightarrow> (\<forall>d srv. dm_running st d = Some srv \<longrightarrow>
     server_ok srv \<and> (exclusive \<longrightarrow> dm_path st = Socket d))"

lemma sound_daemonsD:
  assumes "sound_daemons exclusive st" and "dm_running st d = Some srv"
  shows "server_ok srv" and "exclusive \<Longrightarrow> dm_path st = Socket d"
  using assms by (simp_all add: sound_daemons_def)

lemma one_daemon:
  assumes "sound_daemons True st" and "dm_running st d = Some srv" and "dm_running st d' = Some srv'"
  shows "d' = d"
  using sound_daemonsD(2) [OF assms(1,2)] sound_daemonsD(2) [OF assms(1,3)] by simp

lemma sound_update:
  assumes "sound_daemons exclusive st" and "dm_running st d = Some srv" and "server_ok srv'"
  shows "sound_daemons exclusive (st\<lparr>dm_running := (dm_running st)(d \<mapsto> srv')\<rparr>)"
  using assms(3) sound_daemonsD [OF assms(1,2)] sound_daemonsD [OF assms(1)]
  unfolding sound_daemons_def by simp

lemma sound_start:
  assumes "sound_daemons exclusive st" and "exclusive \<Longrightarrow> dm_running st = Map.empty"
  shows "sound_daemons exclusive (st\<lparr>dm_path := Socket d, dm_running := (dm_running st)(d \<mapsto> fresh_server i)\<rparr>)"
    and "dm_running st d = None \<Longrightarrow> dm_path st = entry \<or> \<not> exclusive \<or> dm_running st = Map.empty
      \<Longrightarrow> sound_daemons exclusive (st\<lparr>dm_path := entry\<rparr>)"
  using assms sound_daemonsD [OF assms(1)] fresh_server_ok [of i] unfolding sound_daemons_def by auto

lemma daemon_step_sound:
  assumes "sound_daemons exclusive st" and "quiet_event e" and "daemon_step socketPath e st = Some st'"
    and start: "\<And>d i l. exclusive \<Longrightarrow> e = Start d i l \<Longrightarrow> dm_running st = Map.empty"
  shows "sound_daemons exclusive st'"
proof (cases e)
  case (Start d i l)
  have none: "dm_running st d = None" using assms(3) Start by (auto split: if_splits)
  have ex: "exclusive \<Longrightarrow> dm_running st = Map.empty" using start Start by blast
  obtain entry r where run: "RunServer l d socketPath (dm_path st) = (entry, r)" by fastforce
  show ?thesis
  proof (cases r)
    case (Inl err)
    then have "st' = st\<lparr>dm_path := entry\<rparr>" using assms(3) Start none run by simp
    then show ?thesis using sound_start(2) [OF assms(1) ex none] ex by blast
  next
    case (Inr u)
    then have "entry = Socket d" using run by (auto simp: RunServer_def split: path_entry.splits option.splits)
    then have "st' = st\<lparr>dm_path := Socket d, dm_running := (dm_running st)(d \<mapsto> fresh_server i)\<rparr>"
      using assms(3) Start none run Inr by simp
    then show ?thesis using sound_start(1) [OF assms(1) ex] by simp
  qed
next
  case (Serve d ls)
  then obtain srv where srv: "dm_running st d = Some srv" using assms(3) by (auto split: option.splits)
  have "\<forall>(ce, l) \<in> set ls. quiet ce" using assms(2) Serve by (simp add: quiet_event_def)
  then obtain srv' resps where h: "handleConn ls srv = Some (srv', resps)" "server_ok srv'"
    using handleConn_ok sound_daemonsD(1) [OF assms(1) srv] by metis
  then have "st' = st\<lparr>dm_running := (dm_running st)(d \<mapsto> srv')\<rparr>" using assms(3) Serve srv by simp
  with sound_update [OF assms(1) srv h(2)] show ?thesis by simp
next
  case (Reap d now)
  then obtain srv where srv: "dm_running st d = Some srv" using assms(3) by (auto split: option.splits)
  then have "st' = st\<lparr>dm_running := (dm_running st)(d \<mapsto> fst (idleReaper now srv))\<rparr>"
    using assms(3) Reap by (auto split: if_splits)
  with sound_update [OF assms(1) srv reap_ok [OF sound_daemonsD(1) [OF assms(1) srv]]] show ?thesis by simp
next
  case (Terminate d)
  then obtain srv where srv: "dm_running st d = Some srv"
    and st': "st' = st\<lparr>dm_path := leave (dm_path st), dm_running := map_delete d (dm_running st)\<rparr>"
    using assms(3) by (auto split: option.splits)
  have "\<not> exclusive" if "dm_running st d' = Some srv'" "d' \<noteq> d" for d' srv'
    using that one_daemon [OF _ srv that(1)] assms(1) by (cases exclusive) auto
  then show ?thesis using sound_daemonsD(1) [OF assms(1)] by (auto simp: st' sound_daemons_def split: if_splits)
qed

text \<open>C13. Every daemon that runs is sound: at most 100 sessions, each readable. As long as no daemon is started while
  another one runs, the running daemon is the one clients reach; and a path that is not a socket is never taken over.\<close>

theorem running_daemon_reachable:
  assumes "daemon_reach socketPath exclusive entry st"
  shows "(\<forall>d srv. dm_running st d = Some srv \<longrightarrow> server_ok srv \<and> (exclusive \<longrightarrow> dm_path st = Socket d))
    \<and> (entry = NotSocket \<longrightarrow> dm_path st = NotSocket \<and> dm_running st = Map.empty)"
  using assms
proof induction
  case init
  then show ?case by simp
next
  case (step st e st')
  have "sound_daemons exclusive st'"
    by (rule daemon_step_sound [OF _ step.hyps(2,4) step.hyps(3)]) (use step.IH in \<open>auto simp: sound_daemons_def\<close>)
  moreover have "dm_path st' = NotSocket \<and> dm_running st' = Map.empty" if "entry = NotSocket"
    using that step.IH step.hyps(4) by (cases e) (auto simp: RunServer_def split: if_splits)
  ultimately show ?case by (auto simp: sound_daemons_def)
qed

lemma running_daemon_reachable_witness:
  "\<exists>st srv. daemon_reach ''s'' True (Socket 9) st \<and> dm_running st 1 = Some srv \<and> server_ok srv \<and> dm_path st = Socket 1"
proof -
  let ?st = "\<lparr>dm_path = Socket 1, dm_running = [1 \<mapsto> fresh_server 1800]\<rparr>"
  have "daemon_step ''s'' (Start 1 1800 None) \<lparr>dm_path = Socket 9, dm_running = Map.empty\<rparr> = Some ?st"
    by (simp add: RunServer_def)
  moreover have "quiet_event (Start 1 1800 None)" by (simp add: quiet_event_def)
  ultimately have r: "daemon_reach ''s'' True (Socket 9) ?st"
    by (intro daemon_reach.step [OF daemon_reach.init]) auto
  from running_daemon_reachable [OF r] have "server_ok (fresh_server 1800) \<and> dm_path ?st = Socket 1" by simp
  with r show ?thesis by (intro exI [of _ ?st] exI [of _ "fresh_server 1800"]) simp
qed

text \<open>Two clients that find no daemon at the same time each start one. The second takes the path over while the
  first still runs, and the first removes the path when it terminates, so that then no client reaches the second.\<close>

theorem replaced_daemon_removes_socket:
  assumes "dm_running st d1 = Some srv1" and "dm_path st = Socket d1" and "dm_running st d2 = None" and "d1 \<noteq> d2"
  shows "\<exists>st1 st2. daemon_step socketPath (Start d2 i None) st = Some st1 \<and> dm_path st1 = Socket d2
    \<and> dm_running st1 d1 = Some srv1
    \<and> daemon_step socketPath (Terminate d1) st1 = Some st2 \<and> dm_path st2 = Absent
    \<and> dm_running st2 d2 = Some (fresh_server i)"
  using assms by (simp add: RunServer_def leave_def)

lemma replaced_daemon_removes_socket_witness:
  "\<exists>st1 st2. daemon_step ''s'' (Start 2 1800 None) \<lparr>dm_path = Socket 1, dm_running = [1 \<mapsto> srv_sample]\<rparr> = Some st1
     \<and> daemon_step ''s'' (Terminate 1) st1 = Some st2 \<and> dm_path st2 = Absent \<and> dm_running st2 2 = Some (fresh_server 1800)"
  using replaced_daemon_removes_socket [of "\<lparr>dm_path = Socket 1, dm_running = [1 \<mapsto> srv_sample]\<rparr>" 1 srv_sample 2 "''s''" 1800]
  by auto

end
