(* ===== verification/Client_Bridge.thy ===== *)
theory Client_Bridge
  imports Ssh_Client Daemon "HOL-Library.Sublist"
begin

text \<open>
  \<open>ai-tmux client\<close> (\<open>RunClient\<close> in \<open>internal/aitx/client.go\<close>): the process a remote session talks
  through, which copies lines of its standard input to the daemon's socket and lines from the socket to its
  standard output. Its two goroutines and the daemon are the steps of a step relation. The last section composes it
  with the daemon's scanner.
\<close>

section \<open>The bridge\<close>

text \<open>The buffer of both scanners.\<close>

definition maxLine :: nat where "maxLine = 10 * 1024 * 1024"

text \<open>
  \<open>br_input\<close>: the lines of standard input not yet copied; \<open>br_pending\<close>: a line is written, its newline is not;
  \<open>br_sent\<close>: what the daemon can read; \<open>br_open\<close>, \<open>br_remote\<close>: the two ends of the socket;
  \<open>br_wire\<close>: what the daemon wrote and was not read; \<open>br_buf\<close>: the buffer of the second scanner.
  \<open>br_arrived\<close> is the history of what the daemon wrote.
\<close>

record bridge =
  br_input :: "bytes list"
  br_pending :: bool
  br_sent :: bytes
  br_open :: bool
  br_remote :: bool
  br_wire :: bytes
  br_buf :: bytes
  br_stdout :: bytes
  br_returned :: bool
  br_arrived :: bytes

text \<open>The first scanner stops at the end of the input or at a line that does not fit its buffer.\<close>

definition bridge_start :: "bytes \<Rightarrow> bridge" where
  "bridge_start stdin = \<lparr>br_input = fst (scan_max maxLine stdin), br_pending = False, br_sent = [], br_open = True,
     br_remote = True, br_wire = [], br_buf = [], br_stdout = [], br_returned = False, br_arrived = []\<rparr>"

text \<open>Up to the copying: \<open>ensured\<close> and \<open>dialErr\<close> are what \<open>ensureServer\<close> and connecting return.\<close>

definition RunClient :: "go_error option \<Rightarrow> go_error option \<Rightarrow> bytes \<Rightarrow> bridge result" where
  "RunClient ensured dialErr stdin =
     (case ensured of
        Some err \<Rightarrow> Inl err
      | None \<Rightarrow> (case dialErr of
                   Some err \<Rightarrow> Inl (Wrap ''connect to ai-tmux server'' err)
                 | None \<Rightarrow> Inr (bridge_start stdin)))"

datatype bridge_event =
    SendLine
  | SendNewline
  | StdinEnds
  | DaemonWrites bytes
  | DaemonCloses
  | ReadSocket nat
  | PrintLine
  | PrintRest
  | Return

text \<open>No more bytes will come for the second scanner: this end was closed, or the other one and all is read.\<close>

definition socket_done :: "bridge \<Rightarrow> bool" where
  "socket_done st \<longleftrightarrow> \<not> br_open st \<or> (\<not> br_remote st \<and> br_wire st = [])"

definition connected :: "bridge \<Rightarrow> bool" where
  "connected st \<longleftrightarrow> br_open st \<and> br_remote st"

fun bridge_step :: "bridge_event \<Rightarrow> bridge \<Rightarrow> bridge option" where
  "bridge_step SendLine st =
     (case br_input st of
        l # ls \<Rightarrow> if br_returned st \<or> br_pending st then None
                  else Some (st\<lparr>br_input := ls, br_pending := True,
                               br_sent := (if connected st then br_sent st @ l else br_sent st)\<rparr>)
      | [] \<Rightarrow> None)"
| "bridge_step SendNewline st =
     (if br_returned st \<or> \<not> br_pending st then None
      else Some (st\<lparr>br_pending := False, br_sent := (if connected st then br_sent st @ [CHR 0x0A] else br_sent st)\<rparr>))"
| "bridge_step StdinEnds st =
     (if br_returned st \<or> br_pending st \<or> br_input st \<noteq> [] \<or> \<not> br_open st then None else Some (st\<lparr>br_open := False\<rparr>))"
| "bridge_step (DaemonWrites bs) st =
     (if br_returned st \<or> \<not> connected st then None
      else Some (st\<lparr>br_wire := br_wire st @ bs, br_arrived := br_arrived st @ bs\<rparr>))"
| "bridge_step DaemonCloses st = (if br_remote st then Some (st\<lparr>br_remote := False\<rparr>) else None)"
| "bridge_step (ReadSocket n) st =
     (if br_returned st \<or> \<not> br_open st \<or> CHR 0x0A \<in> set (br_buf st) \<or> n = 0 \<or> length (br_wire st) < n
         \<or> maxLine < length (br_buf st) + n then None
      else Some (st\<lparr>br_buf := br_buf st @ take n (br_wire st), br_wire := drop n (br_wire st)\<rparr>))"
| "bridge_step PrintLine st =
     (case Cut (br_buf st) (CHR 0x0A) of (l, suf, found) \<Rightarrow>
        if br_returned st \<or> \<not> found then None
        else Some (st\<lparr>br_stdout := br_stdout st @ drop_CR l @ [CHR 0x0A], br_buf := suf\<rparr>))"
| "bridge_step PrintRest st =
     (if br_returned st \<or> CHR 0x0A \<in> set (br_buf st) \<or> br_buf st = [] \<or> maxLine \<le> length (br_buf st) \<or> \<not> socket_done st then None
      else Some (st\<lparr>br_stdout := br_stdout st @ drop_CR (br_buf st) @ [CHR 0x0A], br_buf := []\<rparr>))"
| "bridge_step Return st =
     (if br_returned st \<or> CHR 0x0A \<in> set (br_buf st) \<or> \<not> (br_buf st = [] \<and> socket_done st \<or> maxLine \<le> length (br_buf st)) then None
      else Some (st\<lparr>br_returned := True\<rparr>))"

inductive bridge_reach :: "bytes \<Rightarrow> bridge \<Rightarrow> bool" for stdin where
  start: "bridge_reach stdin (bridge_start stdin)"
| step: "bridge_reach stdin st \<Longrightarrow> bridge_step e st = Some st' \<Longrightarrow> bridge_reach stdin st'"

section \<open>What comes through\<close>

text \<open>
  \<open>ins\<close> are the lines of the input; the printed lines are \<open>ls\<close>, and \<open>lst\<close> is the unterminated end of what
  the daemon wrote when it was printed, which happens once and last.
\<close>

definition forwarded_ok :: "bytes list \<Rightarrow> bridge \<Rightarrow> bool" where
  "forwarded_ok ins st \<longleftrightarrow>
     (\<exists>fwd. ins = fwd @ br_input st \<and> (br_pending st \<longrightarrow> fwd \<noteq> [])
        \<and> prefix (br_sent st) (lines_text fwd)
        \<and> (connected st \<longrightarrow> br_sent st @ (if br_pending st then [CHR 0x0A] else []) = lines_text fwd))"

definition printed_ok :: "bridge \<Rightarrow> bool" where
  "printed_ok st \<longleftrightarrow>
     (\<exists>ls lst. br_arrived st = lines_text ls @ lst @ br_buf st @ br_wire st
        \<and> (\<forall>l \<in> set ls. CHR 0x0A \<notin> set l) \<and> CHR 0x0A \<notin> set lst
        \<and> br_stdout st = lines_text (map drop_CR ls) @ (if lst = [] then [] else drop_CR lst @ [CHR 0x0A])
        \<and> (lst \<noteq> [] \<longrightarrow> socket_done st \<and> br_buf st = []))"

lemma forwarded_frame:
  assumes "forwarded_ok ins st" and "bridge_step e st = Some st'" and "e \<noteq> SendLine \<and> e \<noteq> SendNewline"
  shows "forwarded_ok ins st'"
proof -
  have "br_input st' = br_input st \<and> br_pending st' = br_pending st \<and> br_sent st' = br_sent st \<and> (connected st' \<longrightarrow> connected st)"
    using assms(2,3) by (cases e) (auto simp: connected_def split: if_splits prod.splits)
  moreover from assms(1) obtain fwd where "ins = fwd @ br_input st" "br_pending st \<longrightarrow> fwd \<noteq> []" "prefix (br_sent st) (lines_text fwd)"
      "connected st \<longrightarrow> br_sent st @ (if br_pending st then [CHR 0x0A] else []) = lines_text fwd"
    unfolding forwarded_ok_def by blast
  ultimately show ?thesis unfolding forwarded_ok_def by (intro exI [of _ fwd]) simp
qed

lemma forwarded_step:
  assumes "forwarded_ok ins st" and "bridge_step e st = Some st'"
  shows "forwarded_ok ins st'"
proof -
  obtain fwd where f: "ins = fwd @ br_input st" "br_pending st \<longrightarrow> fwd \<noteq> []" "prefix (br_sent st) (lines_text fwd)"
      "connected st \<longrightarrow> br_sent st @ (if br_pending st then [CHR 0x0A] else []) = lines_text fwd"
    using assms(1) by (auto simp: forwarded_ok_def)
  show ?thesis
  proof (cases e)
    case SendLine
    with assms(2) obtain l ls where s: "br_input st = l # ls" "\<not> br_pending st"
        "st' = st\<lparr>br_input := ls, br_pending := True, br_sent := (if connected st then br_sent st @ l else br_sent st)\<rparr>"
      by (auto split: list.splits if_splits)
    have "prefix (br_sent st) (lines_text (fwd @ [l]))" using f(3) by (simp add: prefix_append)
    with s f show ?thesis
      unfolding forwarded_ok_def by (intro exI [of _ "fwd @ [l]"]) (auto simp: connected_def)
  next
    case SendNewline
    with assms(2) f show ?thesis unfolding forwarded_ok_def
      by (intro exI [of _ fwd]) (auto simp: connected_def split: if_splits)
  qed (rule forwarded_frame [OF assms], simp)+
qed

lemma printed_frame:
  assumes "printed_ok st" and "bridge_step e st = Some st'"
    and "e \<in> {SendLine, SendNewline, StdinEnds, DaemonCloses, Return}"
  shows "printed_ok st'"
proof -
  have "br_arrived st' = br_arrived st \<and> br_buf st' = br_buf st \<and> br_wire st' = br_wire st \<and> br_stdout st' = br_stdout st
      \<and> (socket_done st \<longrightarrow> socket_done st')"
    using assms(2,3) by (auto simp: socket_done_def split: if_splits list.splits)
  moreover from assms(1) obtain ls lst where "br_arrived st = lines_text ls @ lst @ br_buf st @ br_wire st"
      "\<forall>l \<in> set ls. CHR 0x0A \<notin> set l" "CHR 0x0A \<notin> set lst"
      "br_stdout st = lines_text (map drop_CR ls) @ (if lst = [] then [] else drop_CR lst @ [CHR 0x0A])"
      "lst \<noteq> [] \<longrightarrow> socket_done st \<and> br_buf st = []"
    unfolding printed_ok_def by blast
  ultimately show ?thesis unfolding printed_ok_def by (intro exI [of _ ls] exI [of _ lst]) simp
qed

lemma printed_step:
  assumes "printed_ok st" and "bridge_step e st = Some st'"
  shows "printed_ok st'"
proof -
  obtain ls lst where p: "br_arrived st = lines_text ls @ lst @ br_buf st @ br_wire st"
      "\<forall>l \<in> set ls. CHR 0x0A \<notin> set l" "CHR 0x0A \<notin> set lst"
      "br_stdout st = lines_text (map drop_CR ls) @ (if lst = [] then [] else drop_CR lst @ [CHR 0x0A])"
      "lst \<noteq> [] \<longrightarrow> socket_done st \<and> br_buf st = []"
    using assms(1) by (auto simp: printed_ok_def)
  show ?thesis
  proof (cases e)
    case PrintLine
    with assms(2) obtain l suf where c: "Cut (br_buf st) (CHR 0x0A) = (l, suf, True)"
        "st' = st\<lparr>br_stdout := br_stdout st @ drop_CR l @ [CHR 0x0A], br_buf := suf\<rparr>"
      by (auto split: prod.splits if_splits)
    note b = Cut_found [OF c(1)]
    with p(5) have "lst = []" by auto
    with c(2) p b show ?thesis unfolding printed_ok_def by (intro exI [of _ "ls @ [l]"] exI [of _ "[]"]) auto
  next
    case PrintRest
    with assms(2) have b: "br_buf st \<noteq> []" "CHR 0x0A \<notin> set (br_buf st)" "socket_done st"
        "st' = st\<lparr>br_stdout := br_stdout st @ drop_CR (br_buf st) @ [CHR 0x0A], br_buf := []\<rparr>"
      by (auto split: if_splits)
    with p(5) have "lst = []" by auto
    with p b show ?thesis unfolding printed_ok_def
      by (intro exI [of _ ls] exI [of _ "br_buf st"]) (auto simp: socket_done_def)
  next
    case (ReadSocket n)
    with assms(2) have b: "br_open st" "n \<noteq> 0" "n \<le> length (br_wire st)"
        "st' = st\<lparr>br_buf := br_buf st @ take n (br_wire st), br_wire := drop n (br_wire st)\<rparr>"
      by (auto split: if_splits)
    then have "\<not> socket_done st" by (auto simp: socket_done_def)
    with p(5) have "lst = []" by auto
    with p b show ?thesis unfolding printed_ok_def by (intro exI [of _ ls] exI [of _ "[]"]) auto
  next
    case (DaemonWrites bs)
    with assms(2) have b: "connected st" "st' = st\<lparr>br_wire := br_wire st @ bs, br_arrived := br_arrived st @ bs\<rparr>"
      by (auto split: if_splits)
    then have "\<not> socket_done st" by (auto simp: socket_done_def connected_def)
    with p(5) have "lst = []" by auto
    with p b show ?thesis unfolding printed_ok_def by (intro exI [of _ ls] exI [of _ "[]"]) auto
  qed (rule printed_frame [OF assms], simp)+
qed

lemma bridge_reach_ok:
  "bridge_reach stdin st \<Longrightarrow> forwarded_ok (fst (scan_max maxLine stdin)) st \<and> printed_ok st"
proof (induction rule: bridge_reach.induct)
  case start
  show ?case by (auto simp: forwarded_ok_def printed_ok_def bridge_start_def)
qed (blast intro: forwarded_step printed_step)

lemma prefix_lines:
  assumes "prefix s (lines_text ls)"
  shows "\<exists>k p. s = lines_text (take k ls) @ p \<and> (p \<noteq> [] \<longrightarrow> k < length ls \<and> prefix p (ls ! k))"
  using assms
proof (induction ls arbitrary: s)
  case (Cons l ls)
  then have "prefix s l \<or> (\<exists>t. s = l @ [CHR 0x0A] @ t \<and> prefix t (lines_text ls))"
    by (auto simp: prefix_append prefix_Cons)
  then show ?case
  proof
    assume "prefix s l"
    then show ?thesis by (intro exI [of _ 0] exI [of _ s]) simp
  next
    assume "\<exists>t. s = l @ [CHR 0x0A] @ t \<and> prefix t (lines_text ls)"
    then obtain t where t: "s = l @ [CHR 0x0A] @ t" "prefix t (lines_text ls)" by blast
    from Cons.IH [OF t(2)] obtain k p where "t = lines_text (take k ls) @ p" "p \<noteq> [] \<longrightarrow> k < length ls \<and> prefix p (ls ! k)" by blast
    with t show ?thesis by (intro exI [of _ "Suc k"] exI [of _ p]) simp
  qed
qed simp

text \<open>The bridge adds, drops and reorders nothing while it runs: at every moment the daemon has been sent the first
  lines of the input, at most the last of them cut off, and standard output has the first lines the daemon wrote,
  without their carriage returns; the rest of what it wrote is still in the bridge's hands.\<close>

theorem bridge_transparent:
  assumes "bridge_reach stdin st" and "ins = fst (scan_max maxLine stdin)"
  shows "(\<exists>k p. br_sent st = lines_text (take k ins) @ p \<and> raw_lines (br_sent st) = take k ins @ (if p = [] then [] else [p])
        \<and> (p \<noteq> [] \<longrightarrow> k < length ins \<and> prefix p (ins ! k)))
    \<and> (\<exists>ls lst. br_arrived st = lines_text ls @ lst @ br_buf st @ br_wire st
        \<and> br_stdout st = lines_text (map drop_CR ls) @ (if lst = [] then [] else drop_CR lst @ [CHR 0x0A])
        \<and> (lst \<noteq> [] \<longrightarrow> socket_done st \<and> br_buf st = []))"
proof
  note ok = bridge_reach_ok [OF assms(1), folded assms(2)]
  from ok obtain fwd where f: "ins = fwd @ br_input st" "prefix (br_sent st) (lines_text fwd)"
    by (auto simp: forwarded_ok_def)
  then have "prefix (br_sent st) (lines_text ins)" by (simp add: prefix_prefix)
  from prefix_lines [OF this] obtain k p where p: "br_sent st = lines_text (take k ins) @ p"
      "p \<noteq> [] \<longrightarrow> k < length ins \<and> prefix p (ins ! k)" by blast
  have no_LF: "\<forall>l \<in> set ins. CHR 0x0A \<notin> set l" using scan_max_lines assms(2) by blast
  then have "\<forall>l \<in> set (take k ins). CHR 0x0A \<notin> set l" by (auto dest: in_set_takeD)
  moreover have "CHR 0x0A \<notin> set p"
    using p(2) no_LF by (cases "p = []") (auto dest: set_mono_prefix nth_mem)
  ultimately have "raw_lines (br_sent st) = take k ins @ (if p = [] then [] else [p])"
    using p(1) by (simp add: raw_lines_text)
  with p show "\<exists>k p. br_sent st = lines_text (take k ins) @ p \<and> raw_lines (br_sent st) = take k ins @ (if p = [] then [] else [p])
        \<and> (p \<noteq> [] \<longrightarrow> k < length ins \<and> prefix p (ins ! k))" by blast
  from ok show "\<exists>ls lst. br_arrived st = lines_text ls @ lst @ br_buf st @ br_wire st
        \<and> br_stdout st = lines_text (map drop_CR ls) @ (if lst = [] then [] else drop_CR lst @ [CHR 0x0A])
        \<and> (lst \<noteq> [] \<longrightarrow> socket_done st \<and> br_buf st = [])"
    unfolding printed_ok_def by blast
qed

lemma bridge_transparent_witness:
  "\<exists>k p. br_sent (bridge_start ''x'') = lines_text (take k (fst (scan_max maxLine ''x''))) @ p"
  using bridge_transparent [OF bridge_reach.start refl, of "''x''"] by blast

lemma bridge_forwards_all:
  assumes "bridge_reach stdin st" and "connected st" and "\<not> br_pending st" and "\<not> br_returned st"
  shows "\<exists>st'. bridge_reach stdin st' \<and> st' = st\<lparr>br_input := [], br_sent := br_sent st @ lines_text (br_input st)\<rparr>"
  using assms
proof (induction "br_input st" arbitrary: st)
  case Nil
  then show ?case by (intro exI [of _ st]) simp
next
  case (Cons l ls)
  let ?s1 = "st\<lparr>br_input := ls, br_pending := True, br_sent := br_sent st @ l\<rparr>"
  let ?s2 = "st\<lparr>br_input := ls, br_sent := br_sent st @ l @ [CHR 0x0A]\<rparr>"
  have "bridge_step SendLine st = Some ?s1" using Cons by (simp flip: Cons.hyps(2))
  with Cons.prems(1) have r: "bridge_reach stdin ?s1" by (rule bridge_reach.step)
  moreover have "bridge_step SendNewline ?s1 = Some ?s2" using Cons by (simp add: connected_def)
  ultimately have "bridge_reach stdin ?s2" by (rule bridge_reach.step)
  from Cons.hyps(1) [OF _ this] Cons.prems obtain st' where
    "bridge_reach stdin st'" "st' = ?s2\<lparr>br_input := [], br_sent := br_sent ?s2 @ lines_text ls\<rparr>"
    by (auto simp: connected_def)
  with Cons.hyps(2) [symmetric] show ?case by (intro exI [of _ st']) simp
qed

text \<open>Once its input has ended the bridge may drop what the daemon answers: whatever the input and the answer are,
  there is a run in which the daemon was sent every line and answered, and the client returned without having
  printed a byte of the answer.\<close>

theorem bridge_loses_replies:
  "\<exists>st. bridge_reach stdin st \<and> br_sent st = lines_text (fst (scan_max maxLine stdin)) \<and> br_arrived st = answer
     \<and> br_returned st \<and> br_stdout st = []"
proof -
  let ?s0 = "bridge_start stdin"
  obtain s1 where s1: "bridge_reach stdin s1" "s1 = ?s0\<lparr>br_input := [], br_sent := br_sent ?s0 @ lines_text (br_input ?s0)\<rparr>"
    using bridge_forwards_all [OF bridge_reach.start, of stdin] by (auto simp: bridge_start_def connected_def)
  let ?s2 = "s1\<lparr>br_wire := answer, br_arrived := answer\<rparr>"
  let ?s3 = "?s2\<lparr>br_open := False\<rparr>" and ?s4 = "?s2\<lparr>br_open := False, br_returned := True\<rparr>"
  have "bridge_step (DaemonWrites answer) s1 = Some ?s2" using s1(2) by (simp add: bridge_start_def connected_def)
  with s1(1) have 2: "bridge_reach stdin ?s2" by (rule bridge_reach.step)
  have "bridge_step StdinEnds ?s2 = Some ?s3" using s1(2) by (simp add: bridge_start_def)
  with 2 have 3: "bridge_reach stdin ?s3" by (rule bridge_reach.step)
  have "bridge_step Return ?s3 = Some ?s4" using s1(2) by (simp add: bridge_start_def socket_done_def)
  with 3 have "bridge_reach stdin ?s4" by (rule bridge_reach.step)
  then show ?thesis using s1(2) by (intro exI [of _ ?s4]) (simp add: bridge_start_def)
qed

section \<open>A client, the bridge and the daemon\<close>


definition bridge_sample :: bridge where
  "bridge_sample = (bridge_start (lines_text [''x'']))\<lparr>br_input := [], br_sent := lines_text [''x''],
     br_arrived := lines_text [''y''], br_stdout := lines_text [''y'']\<rparr>"

lemma bridge_sample_reach: "bridge_reach (lines_text [''x'']) bridge_sample"
proof -
  have m: "10 \<le> maxLine" by (simp add: maxLine_def)
  have i: "scan_max maxLine (lines_text [''x'']) = ([''x''], False)"
    using m by (intro scan_max_text) (simp add: good_line_def)
  let ?s = "bridge_start (lines_text [''x''])"
  let ?s1 = "?s\<lparr>br_input := [], br_pending := True, br_sent := ''x''\<rparr>"
  let ?s2 = "?s\<lparr>br_input := [], br_sent := lines_text [''x'']\<rparr>"
  let ?s3 = "?s2\<lparr>br_wire := lines_text [''y''], br_arrived := lines_text [''y'']\<rparr>"
  let ?s4 = "?s3\<lparr>br_buf := lines_text [''y''], br_wire := []\<rparr>"
  have "bridge_step SendLine ?s = Some ?s1" using i by (simp add: bridge_start_def connected_def)
  with bridge_reach.start have r: "bridge_reach (lines_text [''x'']) ?s1" by (rule bridge_reach.step)
  have "bridge_step SendNewline ?s1 = Some ?s2" by (simp add: bridge_start_def connected_def)
  with r have r: "bridge_reach (lines_text [''x'']) ?s2" by (rule bridge_reach.step)
  have "bridge_step (DaemonWrites (lines_text [''y''])) ?s2 = Some ?s3" by (simp add: bridge_start_def connected_def)
  with r have r: "bridge_reach (lines_text [''x'']) ?s3" by (rule bridge_reach.step)
  have "bridge_step (ReadSocket 2) ?s3 = Some ?s4" using m by (simp add: bridge_start_def)
  with r have r: "bridge_reach (lines_text [''x'']) ?s4" by (rule bridge_reach.step)
  have "bridge_step PrintLine ?s4 = Some bridge_sample"
    by (simp add: bridge_start_def bridge_sample_def drop_CR_def)
  with r show ?thesis by (rule bridge_reach.step)
qed


end
