(* ===== verification/Serve_Shutdown.thy ===== *)
theory Serve_Shutdown
  imports Mcp_Server
begin

text \<open>
  The end of \<open>Serve\<close> (\<open>internal/mcp/server.go\<close>): the reader has seen the end of its input, the
  request goroutines go on, and the server waits for them for a bounded time, closes the response channel and
  waits for the writer, or exits without closing it. Sending on a closed channel panics. The steps before and
  during the shutdown are those of the server loop.
\<close>

section \<open>States and steps\<close>

record 'w server =
  sd_serve :: "'w serve"
  sd_eof :: bool
  sd_closed :: bool
  sd_exited :: bool
  sd_panicked :: bool

datatype shutdown_event = Loop event | EndOfInput | CloseResponses | WriterDone | GraceOver

definition server_init :: "'w \<Rightarrow> 'w server" where
  "server_init w = \<lparr>sd_serve = serve_init w, sd_eof = False, sd_closed = False, sd_exited = False, sd_panicked = False\<rparr>"

text \<open>\<open>wg.Wait()\<close> returns when every request goroutine has ended.\<close>

definition all_finished :: "'w serve \<Rightarrow> bool" where
  "all_finished st \<longleftrightarrow> (\<forall>n < length (sv_tasks st). k_stage (sv_tasks st ! n) = Finished)"

definition is_read :: "event \<Rightarrow> bool" where
  "is_read e \<longleftrightarrow> (case e of ReadLine _ \<Rightarrow> True | _ \<Rightarrow> False)"

definition is_send :: "event \<Rightarrow> bool" where
  "is_send e \<longleftrightarrow> (case e of Send _ \<Rightarrow> True | _ \<Rightarrow> False)"

fun server_step ::
  "(tool \<Rightarrow> raw option \<Rightarrow> 'w \<Rightarrow> 'w \<times> json result) \<Rightarrow> shutdown_event \<Rightarrow> 'w server \<Rightarrow> 'w server option" where
  "server_step run (Loop e) s =
     (if sd_exited s \<or> sd_panicked s \<or> sd_eof s \<and> is_read e then None
      else case serve_step run e (sd_serve s) of
             None \<Rightarrow> None
           | Some st \<Rightarrow> if sd_closed s \<and> is_send e then Some (s\<lparr>sd_panicked := True\<rparr>) else Some (s\<lparr>sd_serve := st\<rparr>))"
| "server_step run EndOfInput s = (if sd_eof s \<or> sd_panicked s then None else Some (s\<lparr>sd_eof := True\<rparr>))"
| "server_step run CloseResponses s =
     (if sd_eof s \<and> \<not> sd_closed s \<and> \<not> sd_exited s \<and> all_finished (sd_serve s) then Some (s\<lparr>sd_closed := True\<rparr>) else None)"
| "server_step run WriterDone s =
     (if sd_closed s \<and> \<not> sd_exited s \<and> \<not> sd_panicked s \<and> sv_chan (sd_serve s) = [] then Some (s\<lparr>sd_exited := True\<rparr>) else None)"
| "server_step run GraceOver s =
     (if sd_eof s \<and> \<not> sd_closed s \<and> \<not> sd_exited s then Some (s\<lparr>sd_exited := True\<rparr>) else None)"

inductive server_reach :: "(tool \<Rightarrow> raw option \<Rightarrow> 'w \<Rightarrow> 'w \<times> json result) \<Rightarrow> 'w \<Rightarrow> 'w server \<Rightarrow> bool"
  for run w0
where
  init: "server_reach run w0 (server_init w0)"
| step: "server_reach run w0 s \<Longrightarrow> server_step run e s = Some s' \<Longrightarrow> server_reach run w0 s'"

section \<open>The invariant\<close>

definition shutdown_ok :: "(tool \<Rightarrow> raw option \<Rightarrow> 'w \<Rightarrow> 'w \<times> json result) \<Rightarrow> 'w \<Rightarrow> 'w server \<Rightarrow> bool" where
  "shutdown_ok run w0 s \<longleftrightarrow> serve_reach run w0 (sd_serve s) \<and> \<not> sd_panicked s
     \<and> (sd_closed s \<longrightarrow> sd_eof s \<and> all_finished (sd_serve s))
     \<and> (sd_closed s \<and> sd_exited s \<longrightarrow> sv_chan (sd_serve s) = [])"

text \<open>Once all goroutines have ended, only the writer and new input can move the loop.\<close>

lemma all_finished_stage: "all_finished st \<Longrightarrow> stage_of st n = Some sg \<Longrightarrow> sg = Finished"
  by (auto simp: all_finished_def stage_of_def split: if_splits)

lemma finished_steps:
  assumes "all_finished st" and "serve_step run e st = Some st'" and "\<not> is_read e"
  shows "e = Flush"
  using assms(2,3) all_finished_stage [OF assms(1)]
  by (cases e) (auto simp: is_read_def split: if_splits option.splits stage.splits)

lemma finished_Flush:
  assumes "all_finished st" and "serve_step run Flush st = Some st'"
  shows "all_finished st'"
  using assms by (auto simp: all_finished_def split: list.splits)

lemma shutdown_ok_step:
  assumes ok: "shutdown_ok run w0 s" and "server_step run e s = Some s'"
  shows "shutdown_ok run w0 s'"
proof (cases e)
  case (Loop ev)
  with assms(2) obtain st where st: "serve_step run ev (sd_serve s) = Some st"
      "\<not> sd_exited s" "sd_eof s \<Longrightarrow> \<not> is_read ev"
      "s' = (if sd_closed s \<and> is_send ev then s\<lparr>sd_panicked := True\<rparr> else s\<lparr>sd_serve := st\<rparr>)"
    by (auto split: if_splits option.splits)
  have reach: "serve_reach run w0 st" using ok st(1) by (auto simp: shutdown_ok_def intro: serve_reach.step)
  show ?thesis
  proof (cases "sd_closed s")
    case True
    with ok st(3) have "all_finished (sd_serve s)" "\<not> is_read ev" "sd_eof s" by (auto simp: shutdown_ok_def)
    then have "ev = Flush" "all_finished st"
      using finished_steps [OF _ st(1)] finished_Flush [of "sd_serve s" run st] st(1) by blast+
    with ok st(2,4) reach True \<open>sd_eof s\<close> show ?thesis by (simp add: shutdown_ok_def is_send_def)
  next
    case False
    with ok st(4) reach show ?thesis by (simp add: shutdown_ok_def)
  qed
qed (use assms in \<open>auto simp: shutdown_ok_def split: if_splits\<close>)

lemma server_reach_ok: "server_reach run w0 s \<Longrightarrow> shutdown_ok run w0 s"
proof (induction rule: server_reach.induct)
  case init
  then show ?case by (auto simp: shutdown_ok_def server_init_def intro: serve_reach.init)
next
  case (step s e s')
  show ?case by (rule shutdown_ok_step [OF step.IH step.hyps(2)])
qed

text \<open>C40. Shutting down is clean: under every interleaving of the end of input, the goroutines, the writer and the
  timer, nothing is ever sent on the closed response channel, the channel is closed only when every request is
  done, and when the server exits after closing it, the response of every request that was not cancelled has been
  written to standard output.\<close>

theorem shutdown_clean:
  assumes "server_reach run w0 s"
  shows "\<not> sd_panicked s
    \<and> (sd_closed s \<longrightarrow> all_finished (sd_serve s))
    \<and> (sd_exited s \<and> sd_closed s \<longrightarrow> (\<forall>n < length (sv_tasks (sd_serve s)).
          q_ID (k_req (sv_tasks (sd_serve s) ! n)) \<noteq> [] \<and> \<not> is_cancelled (sd_serve s) n
          \<longrightarrow> (\<exists>resp. (n, resp) \<in> set (sv_out (sd_serve s)) \<and> answer_for (k_req (sv_tasks (sd_serve s) ! n)) resp)))"
proof -
  let ?st = "sd_serve s"
  have ok: "shutdown_ok run w0 s" using assms by (rule server_reach_ok)
  then have "replies_ok ?st" using serve_reach_ok [of run w0 ?st] by (simp add: shutdown_ok_def serve_ok_def)
  note p = replies_ok_parts [OF this]
  have "\<exists>resp. (n, resp) \<in> set (sv_out ?st) \<and> answer_for (k_req (sv_tasks ?st ! n)) resp"
    if "sd_exited s" "sd_closed s" "n < length (sv_tasks ?st)" "q_ID (k_req (sv_tasks ?st ! n)) \<noteq> []" "\<not> is_cancelled ?st n" for n
  proof -
    have f: "stage_of ?st n = Some Finished" and c: "sv_chan ?st = []"
      using ok that(1-3) by (auto simp: shutdown_ok_def all_finished_def stage_of_def)
    have "answered ?st n" using p(5) [OF f] that(4,5) by (simp add: task_ID_def)
    then obtain resp where m: "(n, resp) \<in> set (sv_out ?st)" using c by (auto simp: answered_def sent_def)
    then have "(n, resp) \<in> set (sent ?st)" by (simp add: sent_def)
    with p(2) m show ?thesis by blast
  qed
  with ok show ?thesis by (simp add: shutdown_ok_def)
qed

text \<open>The shutdown does not hang on a request: at any time after the end of input the server can exit, by closing the
  channel when all requests are done and by the timer otherwise.\<close>

theorem shutdown_possible:
  assumes "server_reach run w0 s" and "sd_eof s" and "\<not> sd_exited s"
  shows "(\<exists>s'. server_step run GraceOver s = Some s' \<and> sd_exited s')
    \<or> sd_closed s \<and> (\<exists>es s'. set es \<subseteq> {Loop Flush} \<and> length es = length (sv_chan (sd_serve s))
        \<and> foldl (\<lambda>r e. Option.bind r (server_step run e)) (Some s) (es @ [WriterDone]) = Some s' \<and> sd_exited s')"
proof (cases "sd_closed s")
  case False
  with assms(2,3) show ?thesis by simp
next
  case True
  have "\<not> sd_panicked s" using server_reach_ok [OF assms(1)] by (simp add: shutdown_ok_def)
  with True assms(3) have "\<exists>s'. foldl (\<lambda>r e. Option.bind r (server_step run e)) (Some s)
      (replicate (length (sv_chan (sd_serve s))) (Loop Flush) @ [WriterDone]) = Some s' \<and> sd_exited s'"
  proof (induction "sv_chan (sd_serve s)" arbitrary: s)
    case Nil
    then show ?case by simp
  next
    case (Cons r rs)
    let ?s = "s\<lparr>sd_serve := (sd_serve s)\<lparr>sv_chan := rs, sv_out := sv_out (sd_serve s) @ [r]\<rparr>\<rparr>"
    have "server_step run (Loop Flush) s = Some ?s"
      using Cons.hyps(2) [symmetric] Cons.prems by (simp add: is_read_def is_send_def)
    moreover have "\<exists>s'. foldl (\<lambda>r e. Option.bind r (server_step run e)) (Some ?s)
        (replicate (length (sv_chan (sd_serve ?s))) (Loop Flush) @ [WriterDone]) = Some s' \<and> sd_exited s'"
      by (rule Cons.hyps(1)) (use Cons.prems in simp_all)
    ultimately show ?case using Cons.hyps(2) [symmetric] by simp
  qed
  then show ?thesis
    using True by (intro disjI2 conjI exI [of _ "replicate (length (sv_chan (sd_serve s))) (Loop Flush)"]) auto
qed

section \<open>A run to its end\<close>

lemma serve_reach_server: "serve_reach run w0 st \<Longrightarrow> server_reach run w0 ((server_init w0)\<lparr>sd_serve := st\<rparr>)"
proof (induction rule: serve_reach.induct)
  case init
  show ?case using server_reach.init [of run w0] by (simp add: server_init_def)
next
  case (step st e st')
  then show ?case
    by (intro server_reach.step [OF step.IH, of "Loop e"]) (simp add: server_init_def del: serve_step.simps)
qed

definition served :: "unit server" where
  "served = \<lparr>sd_serve = serve_answered, sd_eof = True, sd_closed = True, sd_exited = False, sd_panicked = False\<rparr>"

lemma answered_facts:
  "k_stage (sv_tasks serve_answered ! 0) = Finished" "q_ID (k_req (sv_tasks serve_answered ! 0)) = ''1''"
  "\<not> is_cancelled serve_answered 0"
  by code_simp+

lemma served_reach: "server_reach no_tool () served" "server_reach no_tool () (served\<lparr>sd_exited := True\<rparr>)"
proof -
  have fin: "all_finished serve_answered" "sv_chan serve_answered = []"
    by (simp_all add: all_finished_def serve_answered_out answered_facts)
  let ?a = "(server_init ())\<lparr>sd_serve := serve_answered\<rparr>"
  have "server_reach no_tool () ?a" by (rule serve_reach_server) (rule serve_sample_reach)
  then have "server_reach no_tool () (?a\<lparr>sd_eof := True\<rparr>)"
    by (rule server_reach.step [of _ _ _ EndOfInput]) (simp add: server_init_def)
  then have "server_reach no_tool () (?a\<lparr>sd_eof := True, sd_closed := True\<rparr>)"
    by (rule server_reach.step [of _ _ _ CloseResponses]) (simp add: server_init_def fin)
  then show s: "server_reach no_tool () served" by (simp add: served_def server_init_def)
  show "server_reach no_tool () (served\<lparr>sd_exited := True\<rparr>)"
    by (rule server_reach.step [OF s, of WriterDone]) (simp add: served_def fin)
qed

lemma shutdown_clean_witness:
  "\<exists>resp. (0, resp) \<in> set (sv_out serve_answered) \<and> answer_for (k_req (sv_tasks serve_answered ! 0)) resp"
proof -
  have "0 < length (sv_tasks serve_answered)" "q_ID (k_req (sv_tasks serve_answered ! 0)) \<noteq> []" "\<not> is_cancelled serve_answered 0"
    by (simp_all add: serve_answered_out answered_facts)
  with shutdown_clean [OF served_reach(2)] show ?thesis by (simp add: served_def)
qed

lemma shutdown_possible_witness: "\<exists>es s'. foldl (\<lambda>r e. Option.bind r (server_step no_tool e)) (Some served) (es @ [WriterDone]) = Some s'"
  using shutdown_possible [OF served_reach(1)] by (auto simp: served_def)

end
