(* ===== verification/Http_Transport.thy ===== *)
theory Http_Transport
  imports Mcp_Server
begin

text \<open>
  \<open>internal/mcp/http.go\<close>: the same requests over HTTP POST. A body arrives read and split into its
  JSON documents; the wire form of a reply is the library's. Requests are served concurrently: a
  \<open>gate\<close> says what the others do to the shared state while one waits for a slot and while its handler
  runs, and how Go resolves its \<open>select\<close>.
\<close>

section \<open>State\<close>

definition httpSessionTTL :: int where "httpSessionTTL = 30 * 60"

record 'w http =
  h_token :: bytes
  h_inflight :: inflight
  h_sem :: nat
  h_sessions :: "bytes \<rightharpoonup> int"
  h_next :: nat
  h_world :: 'w

definition newHTTPTransport :: "bytes \<Rightarrow> 'w \<Rightarrow> 'w http" where
  "newHTTPTransport token w = \<lparr>h_token = token, h_inflight = newInflightRegistry, h_sem = 0, h_sessions = Map.empty,
     h_next = 0, h_world = w\<rparr>"

record 'w gate =
  g_waiting :: "'w http \<Rightarrow> 'w http"
  g_parentDone :: bool
  g_pick :: bool
  g_during :: "'w http \<Rightarrow> 'w http"

datatype body = Unreadable | Empty | MalformedBatch | Batch "raw list" | Single "raw option"

record http_request =
  hq_Method :: bytes
  hq_Authorization :: bytes
  hq_Session :: bytes
  hq_Accept :: bytes
  hq_Body :: body

datatype payload = NoPayload | TextPayload bytes | JsonOne response | JsonBatch "response list" | Events "response list"

record http_reply =
  hr_Status :: int
  hr_Headers :: "(bytes \<times> bytes) list"
  hr_Payload :: payload

definition http_error :: "int \<Rightarrow> bytes \<Rightarrow> http_reply" where
  "http_error status msg = \<lparr>hr_Status = status, hr_Headers = [], hr_Payload = TextPayload msg\<rparr>"

section \<open>Authorization and sessions\<close>

definition authorized :: "'w http \<Rightarrow> http_request \<Rightarrow> bool" where
  "authorized t r \<longleftrightarrow>
     (if h_token t = [] then True
      else if \<not> HasPrefix (hq_Authorization r) ''Bearer '' then False
      else drop (length ''Bearer '') (hq_Authorization r) = h_token t)"

definition newSession :: "int \<Rightarrow> bytes \<Rightarrow> 'w http \<Rightarrow> 'w http" where
  "newSession now sid t = t\<lparr>h_sessions :=
     (\<lambda>i. case h_sessions t i of None \<Rightarrow> None | Some c \<Rightarrow> if now - c > httpSessionTTL then None else Some c)(sid \<mapsto> now)\<rparr>"

definition sessionValid :: "int \<Rightarrow> bytes \<Rightarrow> 'w http \<Rightarrow> 'w http \<times> bool" where
  "sessionValid now sid t =
     (case h_sessions t sid of
        None \<Rightarrow> (t, False)
      | Some created \<Rightarrow>
          if now - created > httpSessionTTL then (t\<lparr>h_sessions := map_delete sid (h_sessions t)\<rparr>, False) else (t, True))"

definition handleDelete :: "http_request \<Rightarrow> 'w http \<Rightarrow> 'w http \<times> http_reply" where
  "handleDelete r t =
     (let sid = hq_Session r
      in if sid = [] then (t, http_error 400 ''missing session id'')
         else if h_sessions t sid = None
           then (t\<lparr>h_sessions := map_delete sid (h_sessions t)\<rparr>, http_error 404 ''unknown session'')
         else (t\<lparr>h_sessions := map_delete sid (h_sessions t)\<rparr>,
               \<lparr>hr_Status = 204, hr_Headers = [], hr_Payload = NoPayload\<rparr>))"

section \<open>One message\<close>

definition scoped :: "bytes \<Rightarrow> bytes \<Rightarrow> bytes" where
  "scoped scope ID = scope @ CHR 0x00 # ID"

definition cancelScoped :: "bytes \<Rightarrow> raw option \<Rightarrow> 'w http \<Rightarrow> 'w http" where
  "cancelScoped scope params t =
     (case cancel_key params of
        None \<Rightarrow> t
      | Some ID \<Rightarrow> t\<lparr>h_inflight := if_cancel (scoped scope ID) (h_inflight t)\<rparr>)"

definition h_finish :: "bytes \<Rightarrow> nat \<Rightarrow> bytes \<Rightarrow> 'w http \<Rightarrow> 'w http" where
  "h_finish key n ID t = (if ID = [] then t else t\<lparr>h_inflight := fst (if_finish key n (h_inflight t))\<rparr>)"

text \<open>\<open>None\<close>: the request waits for a slot for ever. The inner option is the response, if one is sent.\<close>

definition dispatch ::
  "(tool \<Rightarrow> raw option \<Rightarrow> 'w \<Rightarrow> 'w \<times> json result) \<Rightarrow> 'w gate \<Rightarrow> bytes \<Rightarrow> request \<Rightarrow> 'w http
     \<Rightarrow> ('w http \<times> response option) option" where
  "dispatch run g scope req t =
     (let key = scoped scope (q_ID req)
      in if is_cancellation req then Some (cancelScoped scope (q_Params req) t, None)
         else
          let n = h_next t;
              t = t\<lparr>h_next := Suc n,
                    h_inflight := (if q_ID req = [] then h_inflight t else if_add key n (h_inflight t))\<rparr>;
              t = g_waiting g t;
              done = (g_parentDone g \<or> n \<in> if_cancelled (h_inflight t));
              free = (h_sem t < maxConcurrentToolCalls)
          in if free \<and> (\<not> done \<or> g_pick g)
             then (case handle run req (h_world t) of
                     (w, resp) \<Rightarrow>
                       let t = g_during g (t\<lparr>h_sem := h_sem t + 1, h_world := w\<rparr>);
                           cancelled = (q_ID req = [] \<or> n \<in> if_cancelled (h_inflight t));
                           t = h_finish key n (q_ID req) t
                       in Some (t\<lparr>h_sem := h_sem t - 1\<rparr>, if cancelled then None else Some resp))
             else if done then Some (h_finish key n (q_ID req) t, None)
             else None)"

section \<open>One HTTP request\<close>

definition parse_error :: response where
  "parse_error = \<lparr>p_JSONRPC = ''2.0'', p_ID = [], p_Result = None, p_Error = Some (-32700, ''parse error'')\<rparr>"

definition wantsSSE :: "bytes \<Rightarrow> bool" where
  "wantsSSE accept \<longleftrightarrow> Contains accept ''text/event-stream'' \<and> \<not> Contains accept ''application/json''"

text \<open>The documents of a body in turn, each with its gate; the responses and whether one was \<open>initialize\<close>.\<close>

fun dispatch_all ::
  "(tool \<Rightarrow> raw option \<Rightarrow> 'w \<Rightarrow> 'w \<times> json result) \<Rightarrow> bytes \<Rightarrow> (raw option \<times> 'w gate) list \<Rightarrow> 'w http
     \<Rightarrow> ('w http \<times> response list \<times> bool) option" where
  "dispatch_all run scope [] t = Some (t, [], False)"
| "dispatch_all run scope ((doc, g) # docs) t =
     (case (case doc of None \<Rightarrow> Inl Canceled | Some r \<Rightarrow> parse_request r) of
        Inl _ \<Rightarrow>
          do { (t, resps, initialized) \<leftarrow> dispatch_all run scope docs t; Some (t, parse_error # resps, initialized) }
      | Inr req \<Rightarrow>
          do { (t, resp) \<leftarrow> dispatch run g scope req t;
               (t, resps, initialized) \<leftarrow> dispatch_all run scope docs t;
               Some (t, (case resp of None \<Rightarrow> resps | Some p \<Rightarrow> p # resps),
                     q_Method req = ''initialize'' \<or> initialized) })"

definition write_reply :: "http_request \<Rightarrow> bool \<Rightarrow> (bytes \<times> bytes) list \<Rightarrow> response list \<Rightarrow> http_reply" where
  "write_reply r batch headers resps =
     (if resps = [] then \<lparr>hr_Status = 202, hr_Headers = headers, hr_Payload = NoPayload\<rparr>
      else if wantsSSE (hq_Accept r)
        then \<lparr>hr_Status = 200, hr_Headers = headers @ [(''Content-Type'', ''text/event-stream''),
               (''Cache-Control'', ''no-cache''), (''Connection'', ''keep-alive'')], hr_Payload = Events resps\<rparr>
      else \<lparr>hr_Status = 200, hr_Headers = headers @ [(''Content-Type'', ''application/json'')],
            hr_Payload = (if batch then JsonBatch resps else JsonOne (hd resps))\<rparr>)"

text \<open>\<open>fresh\<close> is the identifier a new session would get.\<close>

definition handlePost ::
  "(tool \<Rightarrow> raw option \<Rightarrow> 'w \<Rightarrow> 'w \<times> json result) \<Rightarrow> int \<Rightarrow> bytes \<Rightarrow> 'w gate list \<Rightarrow> http_request \<Rightarrow> 'w http
     \<Rightarrow> ('w http \<times> http_reply) option" where
  "handlePost run now fresh gates r t =
     (case (case hq_Body r of
              Unreadable \<Rightarrow> Inl (http_error 400 ''bad request'')
            | Empty \<Rightarrow> Inl (http_error 400 ''empty body'')
            | MalformedBatch \<Rightarrow> Inl \<lparr>hr_Status = 200, hr_Headers = [(''Content-Type'', ''application/json'')],
                                   hr_Payload = JsonOne parse_error\<rparr>
            | Batch raws \<Rightarrow> Inr (True, map Some raws)
            | Single doc \<Rightarrow> Inr (False, [doc])) of
        Inl reply \<Rightarrow> Some (t, reply)
      | Inr (batch, docs) \<Rightarrow>
          (let sid = hq_Session r;
               (t, valid) = (if sid = [] then (t, True) else sessionValid now sid t)
           in if \<not> valid then Some (t, http_error 404 ''unknown session'')
              else do {
                (t, resps, initialized) \<leftarrow> dispatch_all run sid (zip docs gates) t;
                let assign = (sid = [] \<and> initialized);
                Some (if assign then newSession now fresh t else t,
                      write_reply r batch (if assign then [(''Mcp-Session-Id'', fresh)] else []) resps) }))"

definition ServeHTTP ::
  "(tool \<Rightarrow> raw option \<Rightarrow> 'w \<Rightarrow> 'w \<times> json result) \<Rightarrow> int \<Rightarrow> bytes \<Rightarrow> 'w gate list \<Rightarrow> http_request \<Rightarrow> 'w http
     \<Rightarrow> ('w http \<times> http_reply) option" where
  "ServeHTTP run now fresh gates r t =
     (if \<not> authorized t r
      then Some (t, (http_error 401 ''unauthorized'')\<lparr>hr_Headers := [(''WWW-Authenticate'', ''Bearer'')]\<rparr>)
      else if hq_Method r = ''POST'' then handlePost run now fresh gates r t
      else if hq_Method r = ''DELETE'' then Some (handleDelete r t)
      else Some (t, (http_error 405 ''method not allowed'')\<lparr>hr_Headers := [(''Allow'', ''POST, DELETE'')]\<rparr>))"

section \<open>Properties\<close>

text \<open>C12. Only the holder of the token is served: with a token configured, a request is let through exactly when
  its header is \<open>Bearer\<close> followed by that token, and any other one is answered 401 without
  touching sessions, requests in flight or terminals.\<close>

theorem http_authorization:
  assumes "h_token t \<noteq> []"
  shows "(authorized t r \<longleftrightarrow> hq_Authorization r = ''Bearer '' @ h_token t)
    \<and> (hq_Authorization r \<noteq> ''Bearer '' @ h_token t \<longrightarrow>
        (\<exists>reply. ServeHTTP run now fresh gates r t = Some (t, reply) \<and> hr_Status reply = 401))"
proof -
  have "authorized t r \<longleftrightarrow> hq_Authorization r = ''Bearer '' @ h_token t"
  proof
    assume "authorized t r"
    with assms have "take (length ''Bearer '') (hq_Authorization r) = ''Bearer ''"
      "drop (length ''Bearer '') (hq_Authorization r) = h_token t"
      unfolding authorized_def HasPrefix_def by (meson)+
    then show "hq_Authorization r = ''Bearer '' @ h_token t" by (metis append_take_drop_id)
  qed (use assms in \<open>simp add: authorized_def HasPrefix_def\<close>)
  then show ?thesis by (auto simp: ServeHTTP_def http_error_def)
qed

definition ping_request :: http_request where
  "ping_request = \<lparr>hq_Method = ''POST'', hq_Authorization = ''Bearer wrong'', hq_Session = [], hq_Accept = [],
     hq_Body = Empty\<rparr>"

lemma http_authorization_witness:
  "\<exists>reply. ServeHTTP no_tool 0 ''s'' [] ping_request (newHTTPTransport ''token'' ()) = Some (newHTTPTransport ''token'' (), reply)
     \<and> hr_Status reply = 401"
  using http_authorization [of "newHTTPTransport ''token'' ()" ping_request no_tool 0 "''s''" "[]"]
  by (simp add: newHTTPTransport_def ping_request_def)

text \<open>What happens to the registry while a request is served, by scope and identifier.\<close>

datatype scoped_call = Arrives bytes bytes nat | Cancels bytes bytes | Ends bytes bytes nat

fun to_call :: "scoped_call \<Rightarrow> (bytes, nat) registry_call" where
  "to_call (Arrives s i n) = Add_call (scoped s i) n"
| "to_call (Cancels s i) = Cancel_call (scoped s i)"
| "to_call (Ends s i n) = Finish_call (scoped s i) n"

fun call_scope :: "scoped_call \<Rightarrow> bytes" where
  "call_scope (Arrives s i n) = s"
| "call_scope (Cancels s i) = s"
| "call_scope (Ends s i n) = s"

lemma scoped_inject:
  assumes "CHR 0x00 \<notin> set s" and "CHR 0x00 \<notin> set s'"
  shows "scoped s i = scoped s' i' \<longleftrightarrow> s = s' \<and> i = i'"
proof
  assume e: "scoped s i = scoped s' i'"
  then have "takeWhile (\<lambda>c. c \<noteq> CHR 0x00) (scoped s i) = takeWhile (\<lambda>c. c \<noteq> CHR 0x00) (scoped s' i')" by simp
  moreover have "takeWhile (\<lambda>c. c \<noteq> CHR 0x00) (scoped u i) = u" if "CHR 0x00 \<notin> set u" for u i
    using that by (simp add: scoped_def takeWhile_append2 takeWhile_tail)
      (metis (mono_tags, lifting) append_Nil2 takeWhile.simps(2) takeWhile_append2)
  ultimately have "s = s'" using assms by simp
  with e show "s = s' \<and> i = i'" by (simp add: scoped_def)
qed simp



text \<open>A cancelled request may still run over HTTP: when the cancellation comes while the request waits and a
  slot is free, the choice between the two is Go's, and if it takes the slot the handler runs with all its
  effects although no response is sent. The stdio server rules this out.\<close>

theorem http_cancelled_may_run:
  assumes "\<not> is_cancellation req" and "q_ID req \<noteq> []" and "cancel_key params = Some (q_ID req)"
    and "g_waiting g = cancelScoped scope params" and "g_during g = id" and "g_pick g"
    and "h_sem t < maxConcurrentToolCalls"
  shows "\<exists>t'. dispatch run g scope req t = Some (t', None) \<and> h_world t' = fst (handle run req (h_world t))"
proof -
  let ?key = "scoped scope (q_ID req)"
  have c: "h_next t \<in> if_cancelled (if_cancel ?key (if_add ?key (h_next t) (h_inflight t)))"
    by (simp add: if_cancel_def if_add_def)
  show ?thesis
    using assms c by (simp add: dispatch_def Let_def cancelScoped_def h_finish_def split: prod.split)
qed

lemma http_cancelled_may_run_witness:
  "\<exists>t'. dispatch (\<lambda>_ _ k. (k + 1 :: nat, Inr JNull))
       \<lparr>g_waiting = cancelScoped ''s'' (Some (RObj [] [(''requestId'', RVal ''1'' (JInt 1))])), g_parentDone = False,
         g_pick = True, g_during = id\<rparr> ''s''
       \<lparr>q_JSONRPC = ''2.0'', q_ID = ''1'', q_Method = ''tools/call'',
         q_Params = Some (RObj [] [(''name'', RVal [] (JStr ''create_local_session''))])\<rparr> (newHTTPTransport [] 0)
     = Some (t', None) \<and> h_world t' = 1"
proof -
  let ?req = "\<lparr>q_JSONRPC = ''2.0'', q_ID = ''1'', q_Method = ''tools/call'',
         q_Params = Some (RObj [] [(''name'', RVal [] (JStr ''create_local_session''))])\<rparr>"
  let ?g = "\<lparr>g_waiting = cancelScoped ''s'' (Some (RObj [] [(''requestId'', RVal ''1'' (JInt 1))])), g_parentDone = False,
         g_pick = True, g_during = id\<rparr> :: nat gate"
  have "cancel_key (Some (RObj [] [(''requestId'', RVal ''1'' (JInt 1))])) = Some ''1''" by code_simp
  moreover have "fst (handle (\<lambda>_ _ k. (k + 1 :: nat, Inr JNull)) ?req 0) = 1" by code_simp
  moreover have "\<not> is_cancellation ?req" by (simp add: is_cancellation_def)
  ultimately show ?thesis
    using http_cancelled_may_run [of ?req "Some (RObj [] [(''requestId'', RVal ''1'' (JInt 1))])" ?g "''s''"
        "newHTTPTransport [] 0" "\<lambda>_ _ k. (k + 1, Inr JNull)"]
    by (simp add: newHTTPTransport_def maxConcurrentToolCalls_def)
qed

text \<open>HTTP sessions end: a session is valid for 30 minutes from its creation, however often it is used and
  not longer; once it is deleted it is unknown at once; and a request in an unknown or expired session is
  answered 404 without running anything.\<close>

theorem http_session_lifetime:
  assumes "hq_Session r = sid" and "sid \<noteq> []" and "hq_Body r = Single doc"
  shows "(snd (sessionValid now sid (fold (\<lambda>u t. fst (sessionValid u sid t)) uses (newSession created sid t)))
      \<longleftrightarrow> now - created \<le> httpSessionTTL \<and> (\<forall>u \<in> set uses. u - created \<le> httpSessionTTL))
    \<and> \<not> snd (sessionValid now sid (fst (handleDelete r t)))
    \<and> (\<not> snd (sessionValid now sid t) \<longrightarrow>
        (\<exists>reply t'. handlePost run now fresh gates r t = Some (t', reply) \<and> hr_Status reply = 404 \<and> h_world t' = h_world t))"
proof (intro conjI impI)
  let ?f = "\<lambda>u t. fst (sessionValid u sid t)"
  have gone: "h_sessions (fold ?f uses t) sid = None" if "h_sessions t sid = None" for uses and t :: "'a http"
    using that by (induction uses arbitrary: t) (auto simp: sessionValid_def)
  have live: "h_sessions (fold ?f uses t) sid = (if \<forall>u \<in> set uses. u - created \<le> httpSessionTTL then Some created else None)"
    if "h_sessions t sid = Some created" for uses and t :: "'a http"
    using that
  proof (induction uses arbitrary: t)
    case (Cons u uses)
    show ?case
    proof (cases "u - created \<le> httpSessionTTL")
      case True
      with Cons show ?thesis by (simp add: sessionValid_def)
    next
      case False
      with Cons.prems have "h_sessions (?f u t) sid = None" by (simp add: sessionValid_def)
      from gone [OF this] False show ?thesis by simp
    qed
  qed simp
  have "h_sessions (newSession created sid t) sid = Some created" by (simp add: newSession_def)
  from live [OF this, of uses]
  show "snd (sessionValid now sid (fold ?f uses (newSession created sid t)))
      \<longleftrightarrow> now - created \<le> httpSessionTTL \<and> (\<forall>u \<in> set uses. u - created \<le> httpSessionTTL)"
    by (auto simp: sessionValid_def)
  show "\<not> snd (sessionValid now sid (fst (handleDelete r t)))"
    using assms(1,2) by (auto simp: handleDelete_def sessionValid_def Let_def)
  assume "\<not> snd (sessionValid now sid t)"
  then obtain t' where v: "sessionValid now sid t = (t', False)" "h_world t' = h_world t"
    by (auto simp: sessionValid_def split: option.splits if_splits)
  then have "handlePost run now fresh gates r t = Some (t', http_error 404 ''unknown session'')"
    using assms by (simp add: handlePost_def)
  with v show "\<exists>reply t'. handlePost run now fresh gates r t = Some (t', reply) \<and> hr_Status reply = 404 \<and> h_world t' = h_world t"
    by (simp add: http_error_def)
qed

lemma http_session_lifetime_witness:
  "snd (sessionValid 1800 ''s'' (newSession 0 ''s'' (newHTTPTransport [] ())))
   \<and> \<not> snd (sessionValid 1801 ''s'' (newSession 0 ''s'' (newHTTPTransport [] ())))"
  using http_session_lifetime [of "ping_request\<lparr>hq_Session := ''s'', hq_Body := Single None\<rparr>" "''s''" None 1800 "[]" 0
      "newHTTPTransport [] ()" no_tool "[]" "[]"]
    http_session_lifetime [of "ping_request\<lparr>hq_Session := ''s'', hq_Body := Single None\<rparr>" "''s''" None 1801 "[]" 0
      "newHTTPTransport [] ()" no_tool "[]" "[]"]
  by (simp add: ping_request_def httpSessionTTL_def)

end
