(* ===== verification/Credentials.thy ===== *)
theory Credentials
  imports Tool_Calls
begin

text \<open>
  \<open>internal/mcp/credentials.go\<close>: credentials sealed for one use. Key material and the sealing itself
  belong to a third-party package (\<open>credential_lib\<close>): identities, session keys and the body of a sealed box are
  values of type variables, and making a bundle, decoding a box and opening it are parameters.
\<close>

section \<open>State\<close>

record ConsumerBundle =
  bu_ConsumerID :: bytes
  bu_SessionID :: bytes
  bu_ExpiresAt :: int

record 'b sealed_box =
  bx_ConsumerID :: bytes
  bx_SessionID :: bytes
  bx_ItemID :: bytes
  bx_Purpose :: bytes
  bx_body :: 'b

record 'k pendingCred =
  pc_sessionKey :: 'k
  pc_bundle :: ConsumerBundle
  pc_expiresAt :: int

type_synonym 'k credentialStore = "bytes \<rightharpoonup> 'k pendingCred"

record ('w, 'k) cred_world =
  cw_world :: "'w world"
  cw_creds :: "'k credentialStore"

text \<open>
  \<open>LoadOrGenerateIdentityKey\<close> on the handler's path, \<open>GenerateSessionKey\<close>, \<open>NewBundle\<close> (the
  seconds a bundle lives), the decoding of \<open>SealedBox\<close>, \<open>Open\<close>, and the JSON of a bundle.
\<close>

record ('i, 'k, 'b) credential_lib =
  li_identity :: "'i result"
  li_session :: "'k result"
  li_bundle :: "'i \<Rightarrow> 'k \<Rightarrow> bytes \<Rightarrow> int \<Rightarrow> ConsumerBundle result"
  li_box :: "raw \<Rightarrow> 'b sealed_box result"
  li_open :: "'b sealed_box \<Rightarrow> 'k \<Rightarrow> ConsumerBundle \<Rightarrow> bytes result"
  li_json :: "ConsumerBundle \<Rightarrow> json"

section \<open>The store\<close>

definition purgeExpiredLocked :: "int \<Rightarrow> 'k credentialStore \<Rightarrow> 'k credentialStore" where
  "purgeExpiredLocked now creds =
     (\<lambda>ID. case creds ID of None \<Rightarrow> None | Some p \<Rightarrow> if now > pc_expiresAt p then None else Some p)"

definition store_cred :: "int \<Rightarrow> ConsumerBundle \<Rightarrow> 'k \<Rightarrow> 'k credentialStore \<Rightarrow> 'k credentialStore" where
  "store_cred now b sk creds =
     (purgeExpiredLocked now creds)(bu_SessionID b \<mapsto>
        \<lparr>pc_sessionKey = sk, pc_bundle = b, pc_expiresAt = bu_ExpiresAt b\<rparr>)"

definition take_cred :: "bytes \<Rightarrow> 'k credentialStore \<Rightarrow> 'k credentialStore \<times> 'k pendingCred option" where
  "take_cred ID creds =
     (case creds ID of None \<Rightarrow> (creds, None) | Some p \<Rightarrow> (map_delete ID creds, Some p))"

interpretation credentials: single_use_store "\<lambda>creds. creds" "\<lambda>ID p creds. creds(ID \<mapsto> p)" take_cred
  by unfold_locales (auto simp: take_cred_def map_delete_def split: option.splits)

section \<open>Reports\<close>

text \<open>A goroutine of its own in the code; the entry is enqueued when the call that starts it ends.\<close>

definition send_credential :: "'w env \<Rightarrow> CredentialEntry \<Rightarrow> ('w, 'k) cred_world \<Rightarrow> ('w, 'k) cred_world" where
  "send_credential e entry cw =
     (case wd_audit (cw_world cw) of
        None \<Rightarrow> cw
      | Some c \<Rightarrow>
          (let a = ev_audit e; entry = entry\<lparr>cd_TS := au_cmdTS a, cd_User := ac_User c\<rparr>
           in cw\<lparr>cw_world := (cw_world cw)\<lparr>wd_audit :=
                Some (SendCredential (au_mid a 0) (au_mid a 1) (au_eventID a) entry c)\<rparr>\<rparr>))"

definition no_entry :: CredentialEntry where
  "no_entry = \<lparr>cd_EventID = [], cd_TS = [], cd_User = [], cd_Event = [], cd_ConsumerID = [], cd_SessionKeyID = [],
     cd_ExpiresAt = [], cd_PtySessionID = [], cd_ItemID = [], cd_Purpose = [], cd_Error = []\<rparr>"

section \<open>Issuing a bundle\<close>

record GetCredentialBundleParams =
  gp_ConsumerID :: bytes
  gp_TTLSeconds :: int

definition new_bundle :: "('i, 'k, 'b) credential_lib \<Rightarrow> bytes \<Rightarrow> int \<Rightarrow> (ConsumerBundle \<times> 'k) result" where
  "new_bundle lib consumerID ttl =
     (case li_identity lib of
        Inl err \<Rightarrow> Inl (Wrap ''identity key'' err)
      | Inr ik \<Rightarrow>
          (case li_session lib of
             Inl err \<Rightarrow> Inl (Wrap ''session key'' err)
           | Inr sk \<Rightarrow>
               (case li_bundle lib ik sk consumerID ttl of
                  Inl err \<Rightarrow> Inl (Wrap ''bundle'' err)
                | Inr b \<Rightarrow> Inr (b, sk))))"

definition GetCredentialBundle ::
  "('i, 'k, 'b) credential_lib \<Rightarrow> (int \<Rightarrow> bytes) \<Rightarrow> 'w env \<Rightarrow> GetCredentialBundleParams \<Rightarrow> ('w, 'k) cred_world
     \<Rightarrow> ('w, 'k) cred_world \<times> ConsumerBundle result" where
  "GetCredentialBundle lib fmt e p cw =
     (let consumerID = (if gp_ConsumerID p = [] then ''pty-mcp'' else gp_ConsumerID p);
          ttl = (if gp_TTLSeconds p \<le> 0 then 300 else gp_TTLSeconds p);
          ttl = (if ttl > 3600 then 3600 else ttl)
      in case new_bundle lib consumerID ttl of
           Inl err \<Rightarrow> (cw, Inl err)
         | Inr (b, sk) \<Rightarrow>
             (send_credential e (no_entry\<lparr>cd_Event := ''bundle_generated'', cd_ConsumerID := bu_ConsumerID b,
                  cd_SessionKeyID := bu_SessionID b, cd_ExpiresAt := fmt (bu_ExpiresAt b)\<rparr>)
                (cw\<lparr>cw_creds := store_cred (ev_now e) b sk (cw_creds cw)\<rparr>), Inr b))"

definition json_bundle :: "('i, 'k, 'b) credential_lib \<Rightarrow> (int \<Rightarrow> bytes) \<Rightarrow> ConsumerBundle \<Rightarrow> json" where
  "json_bundle lib fmt b = JObj [(''bundle'', li_json lib b), (''expires_at'', Str (fmt (bu_ExpiresAt b))),
     (''session_key_id'', Str (bu_SessionID b))]"

section \<open>Injecting a secret\<close>

definition sendInjectAudit :: "'w env \<Rightarrow> 'b sealed_box \<Rightarrow> bytes \<Rightarrow> bytes option \<Rightarrow> ('w, 'k) cred_world \<Rightarrow> ('w, 'k) cred_world" where
  "sendInjectAudit e box ptyID failure cw = send_credential e
     (no_entry\<lparr>cd_Event := (if failure = None then ''secret_injected'' else ''inject_failed''),
        cd_ConsumerID := bx_ConsumerID box, cd_SessionKeyID := bx_SessionID box, cd_PtySessionID := ptyID,
        cd_ItemID := bx_ItemID box, cd_Purpose := bx_Purpose box,
        cd_Error := (case failure of None \<Rightarrow> [] | Some msg \<Rightarrow> msg)\<rparr>) cw"

text \<open>The arguments: the identifier of the session and the box, which is decoded in a second step.\<close>

definition parse_inject :: "('i, 'k, 'b) credential_lib \<Rightarrow> raw option \<Rightarrow> (bytes \<times> 'b sealed_box) result" where
  "parse_inject lib args =
     (case args of
        None \<Rightarrow> Inl (Errorf ''unexpected end of JSON input'')
      | Some r \<Rightarrow> bind_result (raw_members r) (\<lambda>fs.
          bind_result (get_string ''pty_session_id'' (map (map_prod id raw_json) fs)) (\<lambda>ID.
            case (case field ''sealed_box'' fs of None \<Rightarrow> Inl (Errorf ''unexpected end of JSON input'') | Some b \<Rightarrow> li_box lib b) of
              Inl err \<Rightarrow> Inl (Wrap ''sealed_box'' err)
            | Inr box \<Rightarrow> Inr (ID, box))))"

text \<open>The part of \<open>InjectSecret\<close> that runs under the session's lock.\<close>

definition inject_locked ::
  "('i, 'k, 'b) credential_lib \<Rightarrow> 'w env \<Rightarrow> bytes \<Rightarrow> 'b sealed_box
     \<Rightarrow> ('w, 'k) cred_world \<Rightarrow> ('w, 'k) cred_world \<times> tool_result result" where
  "inject_locked lib e ptyID box cw =
     (case fetch e ptyID (cw_world cw) of
        (w, Inl err) \<Rightarrow> (sendInjectAudit e box ptyID (Some (ErrorMsg err)) (cw\<lparr>cw_world := w\<rparr>), Inl err)
      | (w, Inr s) \<Rightarrow>
          (case take_cred (bx_SessionID box) (cw_creds cw) of
             (creds, None) \<Rightarrow>
               (let err = Errorf (''no credential found for session_id '' @ Quote (bx_SessionID box)
                                  @ '' (already used or expired)'')
                in (sendInjectAudit e box ptyID (Some (ErrorMsg err)) (cw\<lparr>cw_world := w, cw_creds := creds\<rparr>),
                    Inl err))
           | (creds, Some cred) \<Rightarrow>
               (let cw = cw\<lparr>cw_world := w, cw_creds := creds\<rparr>
                in case li_open lib box (pc_sessionKey cred) (pc_bundle cred) of
                     Inl err \<Rightarrow>
                       (sendInjectAudit e box ptyID (Some (ErrorMsg (Wrap ''decrypt'' err))) cw,
                        Inl (Wrap ''decrypt'' err))
                   | Inr plaintext \<Rightarrow>
                       (case ev_ctxErr e of
                          Some err \<Rightarrow> (cw, Inl err)
                        | None \<Rightarrow>
                            (case obj_WriteRaw e s (plaintext @ [CR]) w of
                               (w, Some err) \<Rightarrow>
                                 (sendInjectAudit e box ptyID (Some (ErrorMsg (Wrap ''write to session'' err)))
                                    (cw\<lparr>cw_world := w\<rparr>), Inl (Wrap ''write to session'' err))
                             | (w, None) \<Rightarrow>
                                 (sendInjectAudit e box ptyID None (cw\<lparr>cw_world := w\<rparr>), Inr Success))))))"

text \<open>\<open>taken\<close> is what other calls do to the credentials while this one is queued for the lock.\<close>

definition inject_secret ::
  "('i, 'k, 'b) credential_lib \<Rightarrow> ('k credentialStore \<Rightarrow> 'k credentialStore) \<Rightarrow> 'w env
     \<Rightarrow> bytes \<Rightarrow> 'b sealed_box \<Rightarrow> ('w, 'k) cred_world \<Rightarrow> (('w, 'k) cred_world \<times> tool_result result) run" where
  "inject_secret lib taken e ptyID box cw =
     (case fetch e ptyID (cw_world cw) of
        (w, Inl err) \<Rightarrow>
          Returns (sendInjectAudit e box ptyID (Some (ErrorMsg err)) (cw\<lparr>cw_world := w\<rparr>), Inl err)
      | (w, Inr _) \<Rightarrow>
          (let cw = cw\<lparr>cw_world := ev_queue e w, cw_creds := taken (cw_creds cw)\<rparr>
           in case LockSession (ev_lockErr e) (ev_pick e) ptyID (wd_mgr (cw_world cw)) of
                None \<Rightarrow> StillWaiting
              | Some (m, Some err) \<Rightarrow>
                  Returns (sendInjectAudit e box ptyID (Some (ErrorMsg err))
                             (cw\<lparr>cw_world := set_mgr (cw_world cw) m\<rparr>), Inl err)
              | Some (m, None) \<Rightarrow>
                  (case inject_locked lib e ptyID box (cw\<lparr>cw_world := set_mgr (cw_world cw) m\<rparr>) of
                     (cw, r) \<Rightarrow>
                       Returns (cw\<lparr>cw_world := set_mgr (cw_world cw) (UnlockSession ptyID (wd_mgr (cw_world cw)))\<rparr>, r))))"

definition InjectSecret ::
  "('i, 'k, 'b) credential_lib \<Rightarrow> ('k credentialStore \<Rightarrow> 'k credentialStore) \<Rightarrow> 'w env
     \<Rightarrow> raw option \<Rightarrow> ('w, 'k) cred_world \<Rightarrow> (('w, 'k) cred_world \<times> tool_result result) run" where
  "InjectSecret lib taken e args cw =
     (case parse_inject lib args of
        Inl err \<Rightarrow> Returns (cw, Inl err)
      | Inr (ptyID, box) \<Rightarrow> inject_secret lib taken e ptyID box cw)"

section \<open>Properties\<close>

lemma send_credential_simps [simp]:
  "wd_heap (cw_world (send_credential e entry cw)) = wd_heap (cw_world cw)"
  "wd_mgr (cw_world (send_credential e entry cw)) = wd_mgr (cw_world cw)"
  "cw_creds (send_credential e entry cw) = cw_creds cw"
  by (simp_all add: send_credential_def Let_def split: option.split)

lemma sendInjectAudit_simps [simp]:
  "wd_heap (cw_world (sendInjectAudit e box p f cw)) = wd_heap (cw_world cw)"
  "wd_mgr (cw_world (sendInjectAudit e box p f cw)) = wd_mgr (cw_world cw)"
  "cw_creds (sendInjectAudit e box p f cw) = cw_creds cw"
  by (simp_all add: sendInjectAudit_def)

lemma fetch_keeps [simp]:
  "fetch e ID w = (w', r) \<Longrightarrow> wd_heap w' = wd_heap w" "fetch e ID w = (w', r) \<Longrightarrow> wd_net w' = wd_net w"
  by (auto simp: fetch_def split: prod.splits)

text \<open>What the locked part can do, by outcome.\<close>

lemma inject_locked_cases:
  assumes "inject_locked lib e ptyID box cw = (cw', r)"
  obtains (gone) err where "r = Inl err" "cw_creds cw' = cw_creds cw" "wd_heap (cw_world cw') = wd_heap (cw_world cw)"
  | (used) err where "cw_creds cw (bx_SessionID box) = None" "r = Inl err" "cw_creds cw' = cw_creds cw"
      "wd_heap (cw_world cw') = wd_heap (cw_world cw)"
  | (burned) cred err where "cw_creds cw (bx_SessionID box) = Some cred" "r = Inl err"
      "cw_creds cw' = (cw_creds cw)(bx_SessionID box := None)" "wd_heap (cw_world cw') = wd_heap (cw_world cw)"
  | (wrote) cred plaintext w s err where "cw_creds cw (bx_SessionID box) = Some cred"
      "li_open lib box (pc_sessionKey cred) (pc_bundle cred) = Inr plaintext" "ev_ctxErr e = None"
      "fetch e ptyID (cw_world cw) = (w, Inr s)"
      "cw_creds cw' = (cw_creds cw)(bx_SessionID box := None)"
      "wd_heap (cw_world cw') = wd_heap (fst (obj_WriteRaw e s (plaintext @ [CR]) w))" "r = (case err of None \<Rightarrow> Inr Success | Some er \<Rightarrow> Inl (Wrap ''write to session'' er))"
proof -
  obtain w f where f: "fetch e ptyID (cw_world cw) = (w, f)" by fastforce
  show thesis
  proof (cases f)
    case (Inl err)
    with assms f gone show thesis by (auto simp: inject_locked_def)
  next
    case (Inr s)
    show thesis
    proof (cases "cw_creds cw (bx_SessionID box)")
      case None
      with assms f Inr used show thesis by (auto simp: inject_locked_def take_cred_def Let_def)
    next
      case (Some cred)
      show thesis
      proof (cases "li_open lib box (pc_sessionKey cred) (pc_bundle cred)")
        case (Inl err)
        with assms f Inr Some burned show thesis
          by (auto simp: inject_locked_def take_cred_def Let_def map_delete_def)
      next
        case p: (Inr plaintext)
        show thesis
        proof (cases "ev_ctxErr e")
          case (Some err)
          with assms f Inr \<open>cw_creds cw (bx_SessionID box) = Some cred\<close> p burned show thesis
            by (auto simp: inject_locked_def take_cred_def Let_def map_delete_def)
        next
          case None
          obtain w1 err where o: "obj_WriteRaw e s (plaintext @ [CR]) w = (w1, err)" by fastforce
          with assms f Inr Some p None have "wd_heap (cw_world cw') = wd_heap w1"
            "cw_creds cw' = (cw_creds cw)(bx_SessionID box := None)"
            "r = (case err of None \<Rightarrow> Inr Success | Some er \<Rightarrow> Inl (Wrap ''write to session'' er))"
            by (cases err; auto simp: inject_locked_def take_cred_def Let_def map_delete_def)+
          with f Inr Some p None o show thesis by (intro wrote [of cred plaintext w s err]) simp_all
        qed
      qed
    qed
  qed
qed

lemma inject_secret_cases:
  assumes "inject_secret lib taken e ptyID box cw = Returns (cw', r)"
  obtains (early) err where "r = Inl err" "cw_creds cw' = cw_creds cw \<or> cw_creds cw' = taken (cw_creds cw)"
      "wd_heap (cw_world cw') = wd_heap (cw_world cw) \<or> wd_heap (cw_world cw') = wd_heap (queued e ptyID (cw_world cw))"
  | (locked) m cw1 where "ev_lockErr e = None \<or> ev_pick e"
      "inject_locked lib e ptyID box
         (cw\<lparr>cw_creds := taken (cw_creds cw), cw_world := set_mgr (queued e ptyID (cw_world cw)) m\<rparr>) = (cw1, r)"
      "cw_creds cw' = cw_creds cw1" "wd_heap (cw_world cw') = wd_heap (cw_world cw1)"
proof -
  obtain w f where f: "fetch e ptyID (cw_world cw) = (w, f)" by fastforce
  then have w: "queued e ptyID (cw_world cw) = ev_queue e w" by (simp add: queued_def)
  show thesis
  proof (cases f)
    case (Inl err)
    with assms f fetch_keeps(1) [OF f] early show thesis by (auto simp: inject_secret_def)
  next
    case (Inr s)
    obtain m err where l: "LockSession (ev_lockErr e) (ev_pick e) ptyID (wd_mgr (ev_queue e w)) = Some (m, err)"
      using assms f Inr by (auto simp: inject_secret_def Let_def split: option.splits)
    show thesis
    proof (cases err)
      case (Some er)
      with assms f Inr l w early show thesis by (auto simp: inject_secret_def Let_def)
    next
      case None
      let ?cw = "cw\<lparr>cw_creds := taken (cw_creds cw), cw_world := set_mgr (ev_queue e w) m\<rparr>"
      obtain cw1 r1 where i: "inject_locked lib e ptyID box ?cw = (cw1, r1)" by fastforce
      have "ev_lockErr e = None \<or> ev_pick e"
        using l None by (auto simp: LockSession_def split: prod.splits if_splits option.splits)
      with assms f Inr l None i w locked show thesis by (auto simp: inject_secret_def Let_def)
    qed
  qed
qed


definition cred_sample :: "(unit, unit) cred_world" where
  "cred_sample = \<lparr>cw_world = world_sample, cw_creds = [''k1'' \<mapsto> \<lparr>pc_sessionKey = (),
     pc_bundle = \<lparr>bu_ConsumerID = ''pty-mcp'', bu_SessionID = ''k1'', bu_ExpiresAt = 100\<rparr>, pc_expiresAt = 100\<rparr>]\<rparr>"

definition lib_sample :: "(unit, unit, unit) credential_lib" where
  "lib_sample = \<lparr>li_identity = Inr (), li_session = Inr (),
     li_bundle = (\<lambda>_ _ c ttl. Inr \<lparr>bu_ConsumerID = c, bu_SessionID = ''k2'', bu_ExpiresAt = 10 + ttl\<rparr>),
     li_box = (\<lambda>_. Inr \<lparr>bx_ConsumerID = ''pty-mcp'', bx_SessionID = ''k1'', bx_ItemID = [], bx_Purpose = [], bx_body = ()\<rparr>), li_open = (\<lambda>_ _ _. Inr ''pw''), li_json = (\<lambda>_. JNull)\<rparr>"

abbreviation inject_args :: "raw option" where
  "inject_args \<equiv> Some (RObj [] [(''pty_session_id'', RVal [] (JStr ''p1'')), (''sealed_box'', RObj [] [])])"


text \<open>What of an injection is seen outside of the terminal: the reply, the audit client, the credentials left.\<close>

definition inject_shown ::
  "(('w, 'k) cred_world \<times> tool_result result) run \<Rightarrow> (tool_result result \<times> audit_client option \<times> 'k credentialStore) option" where
  "inject_shown out = (case out of Returns (cw, r) \<Rightarrow> Some (r, wd_audit (cw_world cw), cw_creds cw) | _ \<Rightarrow> None)"

lemma send_credential_audit:
  "wd_audit (cw_world cw) = wd_audit (cw_world cw') \<Longrightarrow>
     wd_audit (cw_world (send_credential e entry cw)) = wd_audit (cw_world (send_credential e entry cw'))"
  by (simp add: send_credential_def Let_def split: option.split)

lemma inject_locked_hides:
  assumes "all_local (cw_world cw)"
  shows "(let (c, r) = inject_locked (lib\<lparr>li_open := (\<lambda>_ _ _. Inr a)\<rparr>) e ID box cw in (r, wd_audit (cw_world c), cw_creds c))
    = (let (c, r) = inject_locked (lib\<lparr>li_open := (\<lambda>_ _ _. Inr b)\<rparr>) e ID box cw in (r, wd_audit (cw_world c), cw_creds c))"
proof -
  obtain w f where f: "fetch e ID (cw_world cw) = (w, f)" by fastforce
  obtain creds tk where t: "take_cred (bx_SessionID box) (cw_creds cw) = (creds, tk)" by fastforce
  show ?thesis
  proof (cases f)
    case (Inr s)
    have "local_object (wd_heap w s)" using assms fetch_keeps(1) [OF f] by (simp add: all_local_def)
    then have same: "snd (obj_WriteRaw e s (a @ [CR]) w) = snd (obj_WriteRaw e s (b @ [CR]) w)" by (rule write_error_blind)
    obtain wa wb err where o: "obj_WriteRaw e s (a @ [CR]) w = (wa, err)" "obj_WriteRaw e s (b @ [CR]) w = (wb, err)"
      using same by (metis prod.collapse)
    have "reports_of wa = reports_of w" "reports_of wb = reports_of w"
      using reports.obj_write_eq(2) o by blast+
    then have audit: "wd_audit wa = wd_audit wb" by (simp add: reports_of_def)
    show ?thesis
      using f t Inr o audit
      by (cases tk; cases "ev_ctxErr e"; cases err)
        (simp_all add: inject_locked_def Let_def sendInjectAudit_def send_credential_audit)
  qed (simp add: inject_locked_def f)
qed

text \<open>C36. The plaintext of a sealed box shows nowhere but in the terminal: whatever two secrets the box could hold, the
  reply of \<open>inject_secret\<close>, what is reported to the audit log and the credentials left are the same, on every
  path, for the sessions of this machine.\<close>

theorem injected_secret_hidden:
  assumes "parse_inject lib args = Inr (ptyID, box)" and "all_local (queued e ptyID (cw_world cw))"
  shows "inject_shown (InjectSecret (lib\<lparr>li_open := (\<lambda>_ _ _. Inr a)\<rparr>) taken e args cw)
    = inject_shown (InjectSecret (lib\<lparr>li_open := (\<lambda>_ _ _. Inr b)\<rparr>) taken e args cw)"
proof -
  have p: "parse_inject (lib\<lparr>li_open := x\<rparr>) args = Inr (ptyID, box)" for x
    using assms(1) by (simp add: parse_inject_def cong: option.case_cong sum.case_cong)
  obtain w f where f: "fetch e ptyID (cw_world cw) = (w, f)" by fastforce
  then have q: "queued e ptyID (cw_world cw) = ev_queue e w" by (simp add: queued_def)
  show ?thesis
  proof (cases f)
    case (Inr s)
    obtain k where k: "LockSession (ev_lockErr e) (ev_pick e) ptyID (wd_mgr (ev_queue e w)) = k" by blast
    let ?c = "\<lambda>m. cw\<lparr>cw_creds := taken (cw_creds cw), cw_world := set_mgr (ev_queue e w) m\<rparr>"
    have "all_local (cw_world (?c m))" for m using assms(2) q by (simp add: all_local_def)
    note h = inject_locked_hides [where lib = lib and a = a and b = b and e = e and ID = ptyID and box = box, OF this]
    have run: "inject_shown (InjectSecret (lib\<lparr>li_open := x\<rparr>) taken e args cw) = (case k of
        None \<Rightarrow> None
      | Some (m, Some err) \<Rightarrow> inject_shown (Returns (sendInjectAudit e box ptyID (Some (ErrorMsg err)) (?c m), Inl err))
      | Some (m, None) \<Rightarrow> Some (let (c, r) = inject_locked (lib\<lparr>li_open := x\<rparr>) e ptyID box (?c m)
          in (r, wd_audit (cw_world c), cw_creds c)))" for x
      using f Inr k
      by (auto simp: InjectSecret_def p inject_secret_def Let_def inject_shown_def split: option.split prod.split)
    show ?thesis unfolding run using h by (auto split: option.split)
  qed (simp add: InjectSecret_def p inject_secret_def f inject_shown_def)
qed

lemma injected_secret_hidden_witness:
  "inject_shown (InjectSecret (lib_sample\<lparr>li_open := (\<lambda>_ _ _. Inr ''hunter2'')\<rparr>) id call_env inject_args cred_sample)
    = inject_shown (InjectSecret (lib_sample\<lparr>li_open := (\<lambda>_ _ _. Inr ''x'')\<rparr>) id call_env inject_args cred_sample)"
proof (rule injected_secret_hidden)
  show "parse_inject lib_sample inject_args = Inr (''p1'',
      \<lparr>bx_ConsumerID = ''pty-mcp'', bx_SessionID = ''k1'', bx_ItemID = [], bx_Purpose = [], bx_body = ()\<rparr>)" by code_simp
  have "fst (fetch call_env ''p1'' world_sample) = set_mgr world_sample m" if "fetch call_env ''p1'' world_sample = (set_mgr world_sample m, x)" for m x
    using that by simp
  with fetch_sample world_sample_local show "all_local (queued call_env ''p1'' (cw_world cred_sample))"
    by (auto simp: queued_def call_env_def all_local_def cred_sample_def)
qed

text \<open>An expired credential is still accepted: expired entries are dropped only when another bundle is
  issued, and taking one does not look at its expiry, so a credential past its end still decrypts and is
  injected (as far as the sealing package does not object).\<close>

theorem expired_credential_taken:
  assumes "snd (GetCredentialBundle lib fmt e p cw) = Inr b" and "bu_ExpiresAt b < later"
  shows "\<exists>creds sk. take_cred (bu_SessionID b) (cw_creds (fst (GetCredentialBundle lib fmt e p cw)))
      = (creds, Some \<lparr>pc_sessionKey = sk, pc_bundle = b, pc_expiresAt = bu_ExpiresAt b\<rparr>)
    \<and> purgeExpiredLocked later (cw_creds (fst (GetCredentialBundle lib fmt e p cw))) (bu_SessionID b) = None"
proof -
  let ?n = "new_bundle lib (if gp_ConsumerID p = [] then ''pty-mcp'' else gp_ConsumerID p)
    (let ttl = (if gp_TTLSeconds p \<le> 0 then 300 else gp_TTLSeconds p) in if ttl > 3600 then 3600 else ttl)"
  from assms(1) obtain sk where "?n = Inr (b, sk)"
    by (cases ?n) (auto simp: GetCredentialBundle_def Let_def)
  then have "cw_creds (fst (GetCredentialBundle lib fmt e p cw)) = store_cred (ev_now e) b sk (cw_creds cw)"
    by (simp add: GetCredentialBundle_def Let_def)
  then show ?thesis using assms(2) by (simp add: store_cred_def take_cred_def purgeExpiredLocked_def)
qed

lemma expired_credential_taken_witness:
  "snd (take_cred ''k2'' (cw_creds (fst (GetCredentialBundle lib_sample (\<lambda>_. []) call_env
     \<lparr>gp_ConsumerID = ''x'', gp_TTLSeconds = 60\<rparr> cred_sample)))) \<noteq> None"
proof -
  let ?b = "\<lparr>bu_ConsumerID = ''x'', bu_SessionID = ''k2'', bu_ExpiresAt = 70\<rparr>"
  have "snd (GetCredentialBundle lib_sample (\<lambda>_. []) call_env \<lparr>gp_ConsumerID = ''x'', gp_TTLSeconds = 60\<rparr> cred_sample) = Inr ?b"
    by (simp add: GetCredentialBundle_def lib_sample_def new_bundle_def Let_def)
  from expired_credential_taken [OF this, of 80] show ?thesis by auto
qed

end
