(* ===== verification/Config_File.thy ===== *)
theory Config_File
  imports Go_Errors
begin

text \<open>
  The audit settings: the configuration file and its parser (\<open>internal/config/config.go\<close>), how flags,
  environment and file are combined, and the commands that create the file and switch auditing on and off
  (\<open>main.go\<close>). File names and contents, the home directory and the environment are arguments.
\<close>

section \<open>The settings\<close>

definition tokenTooLong :: go_error where
  "tokenTooLong = Errorf ''bufio.Scanner: token too long''"

record Audit_config =
  cf_URL :: bytes
  cf_User :: bytes
  cf_Mode :: bytes
  cf_Token :: bytes

text \<open>What \<open>os.Stat\<close> and reading the file give; a present file has its permission bits.\<close>

datatype config_file = NotExist | StatError go_error | File nat "bytes result"

fun parse_lines :: "bytes \<Rightarrow> nat \<Rightarrow> (bytes \<rightharpoonup> bytes) \<Rightarrow> bytes list \<Rightarrow> (bytes \<rightharpoonup> bytes) result" where
  "parse_lines path n kv [] = Inr kv"
| "parse_lines path n kv (l # ls) =
     (let t = TrimSpace l
      in if t = [] \<or> hd t = CHR ''#'' then parse_lines path (Suc n) kv ls
         else case Cut t (CHR ''='') of
                (k, v, ok) \<Rightarrow>
                  if \<not> ok then Inl (Errorf (''config '' @ path @ '':'' @ dec (int n) @ '': expected key=value, got '' @ Quote t))
                  else parse_lines path (Suc n) (kv(TrimSpace k \<mapsto> TrimSpace v)) ls)"

text \<open>\<open>Inr None\<close>: there is no such file.\<close>

definition readKV :: "bool \<Rightarrow> bytes \<Rightarrow> config_file \<Rightarrow> (bytes \<rightharpoonup> bytes) option result" where
  "readKV windows path f =
     (case f of
        NotExist \<Rightarrow> Inr None
      | StatError err \<Rightarrow> Inl err
      | File perm content \<Rightarrow>
          if \<not> windows \<and> perm mod 64 \<noteq> 0
          then Inl (Errorf (''config file '' @ path @ '' has unsafe permissions; run: chmod 600 '' @ path))
          else case content of
                 Inl err \<Rightarrow> Inl err
               | Inr text \<Rightarrow>
                   (case scan_file text of
                      (ls, too_long) \<Rightarrow>
                        (case parse_lines path 1 Map.empty ls of
                           Inl err \<Rightarrow> Inl err
                         | Inr kv \<Rightarrow> if too_long then Inl tokenTooLong else Inr (Some kv))))"

definition kv_get :: "(bytes \<rightharpoonup> bytes) \<Rightarrow> bytes \<Rightarrow> bytes" where
  "kv_get kv k = (case kv k of None \<Rightarrow> [] | Some v \<Rightarrow> v)"

record config_env =
  cv_windows :: bool
  cv_home :: "bytes option"
  cv_configDir :: "bytes option"
  cv_join :: "bytes list \<Rightarrow> bytes"
  cv_file :: "bytes \<Rightarrow> config_file"

definition configPaths :: "config_env \<Rightarrow> (bytes \<times> bytes) option" where
  "configPaths e =
     (case cv_home e of
        None \<Rightarrow> None
      | Some home \<Rightarrow>
          (let dir = (case cv_configDir e of None \<Rightarrow> cv_join e [home, ''.config''] | Some d \<Rightarrow> d)
           in Some (cv_join e [dir, ''pty-mcp'', ''config''], cv_join e [home, ''.pty-mcp''])))"

definition PrimaryPath :: "config_env \<Rightarrow> bytes" where
  "PrimaryPath e = (case configPaths e of None \<Rightarrow> [] | Some (primary, _) \<Rightarrow> primary)"

definition settings_of :: "(bytes \<rightharpoonup> bytes) option \<Rightarrow> Audit_config option" where
  "settings_of m =
     (case m of
        None \<Rightarrow> None
      | Some kv \<Rightarrow> if kv_get kv ''audit-url'' = [] then None
                   else Some \<lparr>cf_URL = kv_get kv ''audit-url'', cf_User = kv_get kv ''audit-user'',
                             cf_Mode = kv_get kv ''audit-mode'', cf_Token = kv_get kv ''audit-token''\<rparr>)"

definition LoadAudit :: "config_env \<Rightarrow> Audit_config option result" where
  "LoadAudit e =
     (case configPaths e of
        None \<Rightarrow> Inr None
      | Some (primary, legacy) \<Rightarrow>
          (case readKV (cv_windows e) primary (cv_file e primary) of
             Inl err \<Rightarrow> Inl err
           | Inr (Some kv) \<Rightarrow> Inr (settings_of (Some kv))
           | Inr None \<Rightarrow>
               (case readKV (cv_windows e) legacy (cv_file e legacy) of
                  Inl err \<Rightarrow> Inl err
                | Inr kv \<Rightarrow> Inr (settings_of kv))))"

text \<open>\<open>env\<close> is \<open>PTY_MCP_AUDIT_TOKEN\<close>.\<close>

definition resolveAuditConfig :: "config_env \<Rightarrow> bytes \<Rightarrow> bytes \<Rightarrow> bytes \<Rightarrow> bytes \<Rightarrow> Audit_config option result" where
  "resolveAuditConfig e env flagURL flagUser flagMode =
     (if flagURL \<noteq> []
      then let fileCfg = (case LoadAudit e of Inl _ \<Rightarrow> None | Inr c \<Rightarrow> c);
               token = (case fileCfg of None \<Rightarrow> [] | Some c \<Rightarrow> cf_Token c);
               cfgUser = (case fileCfg of None \<Rightarrow> [] | Some c \<Rightarrow> cf_User c);
               cfgMode = (case fileCfg of None \<Rightarrow> [] | Some c \<Rightarrow> cf_Mode c);
               token = (if env \<noteq> [] then env else token);
               cfgUser = (if flagUser \<noteq> [] then flagUser else cfgUser);
               cfgMode = (if flagMode \<noteq> [] then flagMode else cfgMode);
               cfgMode = (if cfgMode = [] then ''best-effort'' else cfgMode)
           in Inr (Some \<lparr>cf_URL = flagURL, cf_User = cfgUser, cf_Mode = cfgMode, cf_Token = token\<rparr>)
      else LoadAudit e)"

text \<open>The token of the HTTP transport and that of the collector.\<close>

definition httpToken :: "bytes \<Rightarrow> bytes \<Rightarrow> bytes" where
  "httpToken flag env = (if flag = [] \<and> env \<noteq> [] then env else flag)"

definition serveToken :: "config_env \<Rightarrow> bytes \<Rightarrow> bytes result" where
  "serveToken e env =
     (case LoadAudit e of
        Inl err \<Rightarrow> Inl err
      | Inr fileCfg \<Rightarrow>
          (let token = (case fileCfg of None \<Rightarrow> [] | Some c \<Rightarrow> cf_Token c)
           in Inr (if env \<noteq> [] then env else token)))"

section \<open>Creating and switching\<close>

definition init_lines :: "bytes \<Rightarrow> bytes \<Rightarrow> bytes list" where
  "init_lines username token =
     [''# pty-mcp audit configuration'',
      ''# File must be chmod 600'',
      [],
      ''# Collector URL '' @ [CHR 0xE2, CHR 0x80, CHR 0x94] @ '' uncomment and set to enable audit'',
      ''# audit-url=http://your-collector:9099'',
      [],
      ''# Your identity in the audit log'',
      ''audit-user='' @ username,
      [],
      ''# best-effort: log if possible, don'' @ [CHR 0x27] @ ''t block on failure'',
      ''# strict: reject send_input if audit entry cannot be delivered'',
      ''audit-mode=best-effort'',
      [],
      ''# Shared token '' @ [CHR 0xE2, CHR 0x80, CHR 0x94] @ '' keep this secret, share only with the collector admin'',
      ''audit-token='' @ token]"

text \<open>
  What \<open>audit init\<close> leaves at the primary path, given what is there. \<open>None\<close> is the exit of
  the refused overwrite. Writing a file that is there keeps its permissions.
\<close>

definition init_file :: "bool \<Rightarrow> bytes \<Rightarrow> bytes \<Rightarrow> config_file \<Rightarrow> config_file option" where
  "init_file force username token old =
     (let exists = (case old of File _ _ \<Rightarrow> True | _ \<Rightarrow> False);
          perm = (case old of File perm _ \<Rightarrow> perm | _ \<Rightarrow> 384)
      in if \<not> force \<and> exists then None
         else Some (File perm (Inr (lines_text (init_lines username token)))))"

fun toggle_loop :: "bool \<Rightarrow> bool \<Rightarrow> bool \<Rightarrow> bytes list \<Rightarrow> bytes list \<times> bool \<times> bool" where
  "toggle_loop enable changed placeholder [] = ([], changed, placeholder)"
| "toggle_loop enable changed placeholder (line # ls) =
     (if \<not> changed \<and> enable \<and> (HasPrefix line ''# audit-url='' \<or> HasPrefix line ''#audit-url='')
      then let uncommented = TrimPrefix (TrimPrefix line ''# '') ''#'';
               (out, r) = toggle_loop enable True (Contains uncommented ''your-collector'') ls
           in (uncommented # out, r)
      else if \<not> changed \<and> \<not> enable \<and> HasPrefix line ''audit-url=''
      then let (out, r) = toggle_loop enable True placeholder ls in ((''# '' @ line) # out, r)
      else let (out, r) = toggle_loop enable changed placeholder ls in (line # out, r))"

text \<open>The result: the new content, whether it changed, whether the URL is the placeholder.\<close>

definition toggleAuditURL :: "bytes result \<Rightarrow> bool \<Rightarrow> (bytes option \<times> bool \<times> bool) result" where
  "toggleAuditURL content enable =
     (case content of
        Inl err \<Rightarrow> Inl err
      | Inr data \<Rightarrow>
          (case scan_file data of
             (ls, too_long) \<Rightarrow>
               (case toggle_loop enable False False ls of
                  (out, changed, placeholder) \<Rightarrow>
                    if too_long then Inl tokenTooLong
                    else if \<not> changed then Inr (None, False, False)
                    else Inr (Some (lines_text out), True, placeholder))))"

section \<open>Reading back what was written\<close>

abbreviation config_line :: "bytes \<Rightarrow> bool" where
  "config_line \<equiv> good_line (64 * 1024)"

lemma scan_lines_text: "\<forall>l \<in> set ls. config_line l \<Longrightarrow> scan_file (lines_text ls) = (ls, False)"
  by (simp add: scan_file_def scan_max_text)

lemma toggle_loop_done: "toggle_loop enable True placeholder ls = (ls, True, placeholder)"
  by (induction ls arbitrary: placeholder) simp_all

lemma toggle_loop_skip:
  "\<forall>l \<in> set xs. \<not> HasPrefix l ''audit-url='' \<and> \<not> HasPrefix l ''# audit-url='' \<and> \<not> HasPrefix l ''#audit-url='' \<Longrightarrow>
     toggle_loop enable False placeholder (xs @ ys) = (case toggle_loop enable False placeholder ys of (out, r) \<Rightarrow> (xs @ out, r))"
  by (induction xs) (auto split: prod.splits)

lemma toggleAuditURL_lines:
  assumes "\<forall>l \<in> set ls. config_line l" and "toggle_loop enable False False ls = (out, True, placeholder)"
  shows "toggleAuditURL (Inr (lines_text ls)) enable = Inr (Some (lines_text out), True, placeholder)"
  using assms by (simp add: toggleAuditURL_def scan_lines_text)



section \<open>Which settings are used\<close>

lemma readKV_private:
  "readKV windows path f = Inr (Some kv) \<Longrightarrow>
     \<exists>perm text ls. f = File perm (Inr text) \<and> (windows \<or> perm mod 64 = 0) \<and> scan_file text = (ls, False)
       \<and> parse_lines path 1 Map.empty ls = Inr kv"
  by (auto simp: readKV_def split: config_file.splits if_splits sum.splits prod.splits)

text \<open>Settings come only from a private, readable file: whatever is loaded was read from the primary file, or
  from the old one when there is no primary file, completely and with no malformed line, from a file that nobody
  but its owner can access; and settings without a URL are no settings.\<close>

theorem LoadAudit_private:
  assumes "LoadAudit e = Inr (Some c)"
  shows "\<exists>primary legacy path perm text ls kv. configPaths e = Some (primary, legacy)
     \<and> (path = primary \<or> path = legacy \<and> cv_file e primary = NotExist)
     \<and> cv_file e path = File perm (Inr text) \<and> (cv_windows e \<or> perm mod 64 = 0)
     \<and> scan_file text = (ls, False) \<and> parse_lines path 1 Map.empty ls = Inr kv
     \<and> settings_of (Some kv) = Some c \<and> cf_URL c \<noteq> []"
proof -
  obtain primary legacy where p: "configPaths e = Some (primary, legacy)"
    using assms by (auto simp: LoadAudit_def settings_of_def split: option.splits)
  have none: "cv_file e path = NotExist" if "readKV (cv_windows e) path (cv_file e path) = Inr None" for path
    using that by (auto simp: readKV_def split: config_file.splits if_splits sum.splits prod.splits)
  have "\<exists>path kv. (path = primary \<or> path = legacy \<and> cv_file e primary = NotExist)
      \<and> readKV (cv_windows e) path (cv_file e path) = Inr (Some kv) \<and> settings_of (Some kv) = Some c"
  proof (cases "readKV (cv_windows e) primary (cv_file e primary)")
    case (Inl err)
    with assms p show ?thesis by (simp add: LoadAudit_def)
  next
    case (Inr m)
    show ?thesis
    proof (cases m)
      case (Some kv)
      with Inr assms p show ?thesis by (auto simp: LoadAudit_def)
    next
      case None
      with Inr assms p obtain kv where "readKV (cv_windows e) legacy (cv_file e legacy) = Inr kv" "settings_of kv = Some c"
        by (auto simp: LoadAudit_def split: sum.splits)
      moreover from this(2) obtain kv' where "kv = Some kv'" by (auto simp: settings_of_def split: option.splits)
      ultimately show ?thesis using none [of primary] Inr None by blast
    qed
  qed
  moreover have "cf_URL c \<noteq> []" if "settings_of (Some kv) = Some c" for kv
    using that by (auto simp: settings_of_def split: if_splits)
  ultimately show ?thesis using p readKV_private by metis
qed
section \<open>The file that \<open>audit init\<close> writes\<close>

definition plain_word :: "bytes \<Rightarrow> bool" where
  "plain_word w \<longleftrightarrow> (\<forall>c \<in> set w. 33 \<le> code c \<and> code c < 127)"

lemma plain_word_simps [simp]:
  "plain_word (v @ w) \<longleftrightarrow> plain_word v \<and> plain_word w"
  "plain_word (c # w) \<longleftrightarrow> 33 \<le> code c \<and> code c < 127 \<and> plain_word w" "plain_word []"
  by (auto simp: plain_word_def)

lemma plain_word_ends: "plain_word w \<Longrightarrow> w \<noteq> [] \<Longrightarrow> 33 \<le> code (hd w) \<and> code (hd w) < 127 \<and> 33 \<le> code (last w) \<and> code (last w) < 127"
  by (simp add: plain_word_def)

lemma TrimSpace_ascii:
  assumes "ascii s" and "s = [] \<or> (\<not> IsSpace (code (hd s)) \<and> \<not> IsSpace (code (last s)))"
  shows "TrimSpace s = s"
proof (cases "s = []")
  case True
  then show ?thesis by (simp add: TrimSpace_def trim_right_chunks_def)
next
  case False
  let ?cs = "map (\<lambda>c. (code c, [c])) s"
  have "dropWhile (\<lambda>c. IsSpace (fst c)) ?cs = ?cs" using assms(2) False by (cases s) simp_all
  moreover have "dropWhile (\<lambda>c. IsSpace (fst c)) (rev ?cs) = rev ?cs"
    using assms(2) False by (cases s rule: rev_cases) simp_all
  ultimately have "TrimSpace s = bytes_of ?cs" using assms(1) by (simp add: TrimSpace_def trim_right_chunks_def runes_ascii)
  also have "\<dots> = s" using runes_ascii [OF assms(1)] bytes_of_runes [of s] by simp
  finally show ?thesis .
qed

lemma not_IsSpace_plain: "33 \<le> r \<Longrightarrow> r < 127 \<Longrightarrow> \<not> IsSpace r"
  by (simp add: IsSpace_def)

lemma TrimSpace_word: "plain_word w \<Longrightarrow> TrimSpace w = w"
  using plain_word_ends [of w] by (intro TrimSpace_ascii) (auto simp: plain_word_def ascii_def list_all_iff not_IsSpace_plain)

text \<open>A line \<open>key=value\<close> of plain characters is one setting.\<close>

lemma parse_setting:
  assumes "plain_word (k @ ''='' @ v)" and "k \<noteq> []" and "CHR ''='' \<notin> set k" and "hd k \<noteq> CHR ''#''"
  shows "parse_lines path n kv ((k @ ''='' @ v) # ls) = parse_lines path (Suc n) (kv(k \<mapsto> v)) ls"
proof -
  have w: "plain_word k" "plain_word v" using assms(1) by simp_all
  from assms(3) have "Cut (k @ CHR ''='' # v) (CHR ''='') = (k, v, True)" by (rule Cut_first)
  with TrimSpace_word [OF assms(1)] TrimSpace_word [OF w(1)] TrimSpace_word [OF w(2)] assms(2,4)
  show ?thesis by (cases k) (simp_all add: Let_def)
qed

lemma TrimSpace_comment: "\<exists>t. TrimSpace (CHR ''#'' # s) = CHR ''#'' # t"
proof -
  have "rev (dropWhile P (rev xs @ [x])) = x # rev (dropWhile P (rev xs))" if "\<not> P x" for P and x :: chunk and xs
    using that by (simp add: dropWhile_append dropWhile_eq_Nil_conv)
  then show ?thesis by (simp add: TrimSpace_def trim_right_chunks_def runes_ascii_Cons IsSpace_def)
qed

lemma parse_comment:
  "parse_lines path n kv ([] # ls) = parse_lines path (Suc n) kv ls"
  "parse_lines path n kv ((CHR ''#'' # s) # ls) = parse_lines path (Suc n) kv ls"
proof -
  obtain t where "TrimSpace (CHR ''#'' # s) = CHR ''#'' # t" using TrimSpace_comment by blast
  then show "parse_lines path n kv ((CHR ''#'' # s) # ls) = parse_lines path (Suc n) kv ls" by (simp add: Let_def)
  show "parse_lines path n kv ([] # ls) = parse_lines path (Suc n) kv ls"
    by (simp add: Let_def TrimSpace_def trim_right_chunks_def)
qed

lemma init_lines_good:
  assumes "plain_word username" and "plain_word token" and "length username < 1000" and "length token < 1000"
  shows "\<forall>l \<in> set (init_lines username token). config_line l"
proof -
  have "config_line (p @ w)" if "plain_word w" "length w < 1000" "config_line p" "length p < 1000" for p w
  proof -
    have "CHR 0x0A \<notin> set w" using that(1) by (auto simp: plain_word_def)
    moreover have "w = [] \<or> last w \<noteq> CHR 0x0D" using plain_word_ends [OF that(1)] by auto
    ultimately show ?thesis using that(2-4) by (cases "w = []") (auto simp: good_line_def)
  qed
  from this [OF assms(1,3), of "''audit-user=''"] this [OF assms(2,4), of "''audit-token=''"]
  have "config_line (''audit-user='' @ username)" "config_line (''audit-token='' @ token)"
    by (simp_all add: good_line_def)
  then show ?thesis by (simp add: init_lines_def good_line_def)
qed

lemma parse_init:
  assumes "plain_word username" and "plain_word token"
    and url: "url = None \<and> url_line = ''# audit-url=http://your-collector:9099''
      \<or> url = Some ''http://your-collector:9099'' \<and> url_line = ''audit-url=http://your-collector:9099''"
  shows "parse_lines path 1 Map.empty ((init_lines username token)[4 := url_line])
    = Inr ((Map.empty(''audit-url'' := url))(''audit-user'' \<mapsto> username, ''audit-mode'' \<mapsto> ''best-effort'', ''audit-token'' \<mapsto> token))"
proof -
  have set: "parse_lines path n m ((''audit-user='' @ username) # ls) = parse_lines path (Suc n) (m(''audit-user'' \<mapsto> username)) ls"
    "parse_lines path n m ((''audit-token='' @ token) # ls) = parse_lines path (Suc n) (m(''audit-token'' \<mapsto> token)) ls"
    "parse_lines path n m (''audit-mode=best-effort'' # ls) = parse_lines path (Suc n) (m(''audit-mode'' \<mapsto> ''best-effort'')) ls"
    "parse_lines path n m (''audit-url=http://your-collector:9099'' # ls)
       = parse_lines path (Suc n) (m(''audit-url'' \<mapsto> ''http://your-collector:9099'')) ls" for n m ls
    using parse_setting [of "''audit-user''" username path n m ls] parse_setting [of "''audit-token''" token path n m ls]
      parse_setting [of "''audit-mode''" "''best-effort''" path n m ls]
      parse_setting [of "''audit-url''" "''http://your-collector:9099''" path n m ls] assms(1,2) by simp_all
  from url show ?thesis
    by (elim disjE conjE)
      (simp_all add: init_lines_def parse_comment set [unfolded append_Cons append_Nil] del: parse_lines.simps(2))
qed

text \<open>The file \<open>audit init\<close> writes means what it says: auditing is off (no settings are loaded); switching it on
  uncomments the placeholder URL, reports it as a placeholder, and the settings then loaded are that URL, the
  given user, \<open>best-effort\<close> and the generated token.\<close>

theorem init_then_enable:
  assumes words: "plain_word username" "plain_word token" "length username < 1000" "length token < 1000"
    and path: "configPaths e = Some (primary, legacy)" and stored: "cv_file e primary = File 384 (Inr (lines_text (init_lines username token)))"
  shows "init_file force username token NotExist = Some (cv_file e primary)
    \<and> LoadAudit e = Inr None
    \<and> (\<exists>on. toggleAuditURL (Inr (lines_text (init_lines username token))) True = Inr (Some on, True, True)
        \<and> LoadAudit (e\<lparr>cv_file := (cv_file e)(primary := File 384 (Inr on))\<rparr>)
          = Inr (Some \<lparr>cf_URL = ''http://your-collector:9099'', cf_User = username, cf_Mode = ''best-effort'', cf_Token = token\<rparr>))"
proof -
  let ?ls = "init_lines username token" and ?url = "''audit-url=http://your-collector:9099''"
  note good = init_lines_good [OF words]
  have same: "?ls[4 := ''# audit-url=http://your-collector:9099''] = ?ls" by (simp add: init_lines_def)
  have off: "readKV w primary (File 384 (Inr (lines_text ?ls))) = Inr (Some ((Map.empty(''audit-url'' := None))
      (''audit-user'' \<mapsto> username, ''audit-mode'' \<mapsto> ''best-effort'', ''audit-token'' \<mapsto> token)))" for w
    using parse_init [OF words(1,2), of None "''# audit-url=http://your-collector:9099''" primary] same
    by (simp add: readKV_def scan_lines_text [OF good] del: parse_lines.simps fun_upd_apply)
  have on_good: "\<forall>l \<in> set (?ls[4 := ?url]). config_line l"
    using good set_update_subset_insert [of ?ls 4 ?url] by (auto simp: good_line_def dest!: subsetD)
  have on: "readKV w primary (File 384 (Inr (lines_text (?ls[4 := ?url])))) = Inr (Some ((Map.empty(''audit-url'' \<mapsto> ''http://your-collector:9099''))
      (''audit-user'' \<mapsto> username, ''audit-mode'' \<mapsto> ''best-effort'', ''audit-token'' \<mapsto> token)))" for w
    using parse_init [OF words(1,2), of "Some ''http://your-collector:9099''" ?url primary]
    by (simp add: readKV_def scan_lines_text [OF on_good] del: parse_lines.simps fun_upd_apply)
  have "toggle_loop True False False ?ls = (?ls[4 := ?url], True, True)"
    by (simp add: init_lines_def HasPrefix_def TrimPrefix_def toggle_loop_done)
  then have t: "toggleAuditURL (Inr (lines_text ?ls)) True = Inr (Some (lines_text (?ls[4 := ?url])), True, True)"
    by (intro toggleAuditURL_lines good)
  have "configPaths (e\<lparr>cv_file := f\<rparr>) = Some (primary, legacy)" for f using path by (cases "cv_home e"; cases "cv_configDir e") (simp_all add: configPaths_def Let_def)
  with off on path stored have "LoadAudit e = Inr None"
    "LoadAudit (e\<lparr>cv_file := (cv_file e)(primary := File 384 (Inr (lines_text (?ls[4 := ?url]))))\<rparr>)
       = Inr (Some \<lparr>cf_URL = ''http://your-collector:9099'', cf_User = username, cf_Mode = ''best-effort'', cf_Token = token\<rparr>)"
    by (simp_all add: LoadAudit_def settings_of_def kv_get_def)
  with t stored show ?thesis by (auto simp: init_file_def)
qed
definition config_env_sample :: "(bytes \<Rightarrow> config_file) \<Rightarrow> config_env" where
  "config_env_sample f = \<lparr>cv_windows = False, cv_home = Some ''/h'', cv_configDir = Some ''/h/.config'',
     cv_join = (\<lambda>ps. Join ps ''/''), cv_file = f\<rparr>"

definition init_sample :: "bytes \<Rightarrow> config_file" where
  "init_sample path = (if path = ''/h/.config/pty-mcp/config'' then File 384 (Inr (lines_text (init_lines ''ray'' ''abc''))) else NotExist)"

lemma init_then_enable_witness:
  "LoadAudit (config_env_sample init_sample) = Inr None"
proof -
  have "plain_word ''ray''" "plain_word ''abc''" by simp_all
  moreover have "configPaths (config_env_sample init_sample) = Some (''/h/.config/pty-mcp/config'', ''/h/.pty-mcp'')" by code_simp
  moreover have "cv_file (config_env_sample init_sample) ''/h/.config/pty-mcp/config''
      = File 384 (Inr (lines_text (init_lines ''ray'' ''abc'')))"
    by (simp add: config_env_sample_def init_sample_def)
  ultimately show ?thesis
    using init_then_enable [of "''ray''" "''abc''" "config_env_sample init_sample" "''/h/.config/pty-mcp/config''" "''/h/.pty-mcp''"]
    by simp
qed

lemma parse_one_setting:
  assumes "plain_word (k @ ''='' @ v)" and "k \<noteq> []" and "CHR ''='' \<notin> set k" and "hd k \<noteq> CHR ''#''"
    and "length (k @ ''='' @ v) < 64 * 1024"
  shows "readKV windows path (File 384 (Inr (lines_text [k @ ''='' @ v]))) = Inr (Some [k \<mapsto> v])"
proof -
  have "CHR 0x0A \<notin> set w" if "plain_word w" for w using that by (auto simp: plain_word_def)
  from this [OF assms(1)] have "last (k @ ''='' @ v) \<noteq> CHR 0x0D" "CHR 0x0A \<notin> set (k @ ''='' @ v)"
    using plain_word_ends [OF assms(1)] by auto
  then have "\<forall>l \<in> set [k @ ''='' @ v]. config_line l" using assms(5) by (simp add: good_line_def)
  then have "scan_file (lines_text [k @ ''='' @ v]) = ([k @ ''='' @ v], False)" by (rule scan_lines_text)
  moreover have "parse_lines path 1 Map.empty [k @ ''='' @ v] = Inr [k \<mapsto> v]"
    using parse_setting [OF assms(1-4), of path 1 Map.empty "[]"] by simp
  ultimately show ?thesis by (simp add: readKV_def)
qed

lemma LoadAudit_private_witness:
  "\<exists>ls kv. parse_lines ''/h/.pty-mcp'' 1 Map.empty ls = Inr kv \<and> kv ''audit-url'' = Some ''u''"
proof -
  let ?e = "config_env_sample (\<lambda>path. if path = ''/h/.pty-mcp'' then File 384 (Inr (lines_text [''audit-url=u''])) else NotExist)"
  let ?c = "\<lparr>cf_URL = ''u'', cf_User = [], cf_Mode = [], cf_Token = []\<rparr>"
  have p: "configPaths ?e = Some (''/h/.config/pty-mcp/config'', ''/h/.pty-mcp'')" by code_simp
  have "readKV False ''/h/.pty-mcp'' (File 384 (Inr (lines_text [''audit-url=u'']))) = Inr (Some [''audit-url'' \<mapsto> ''u''])"
    using parse_one_setting [of "''audit-url''" "''u''" False "''/h/.pty-mcp''"] by simp
  moreover have "readKV False ''/h/.config/pty-mcp/config'' NotExist = Inr None" by (simp add: readKV_def)
  ultimately have l: "LoadAudit ?e = Inr (Some ?c)"
    using p by (simp add: LoadAudit_def settings_of_def kv_get_def config_env_sample_def)
  have f: "cv_file ?e path \<noteq> NotExist \<Longrightarrow> path = ''/h/.pty-mcp''" for path by (simp add: config_env_sample_def split: if_splits)
  have u: "settings_of (Some kv) = Some ?c \<Longrightarrow> kv ''audit-url'' = Some ''u''" for kv
    by (auto simp: settings_of_def kv_get_def split: if_splits option.splits)
  show ?thesis using LoadAudit_private [OF l]
  proof (elim exE conjE)
    fix primary legacy path perm tx ls kv
    assume "cv_file ?e path = File perm (Inr tx)" "parse_lines path 1 Map.empty ls = Inr kv" "settings_of (Some kv) = Some ?c"
    with f [of path] u [of kv] show ?thesis by (intro exI [of _ ls] exI [of _ kv]) simp
  qed
qed

section \<open>Where the settings go wrong\<close>

lemma resolve_without_file:
  assumes "LoadAudit e = Inr None \<or> (\<exists>err. LoadAudit e = Inl err)" and "url \<noteq> []"
  shows "resolveAuditConfig e env url user mode = Inr (Some \<lparr>cf_URL = url, cf_User = user,
     cf_Mode = (if mode = [] then ''best-effort'' else mode), cf_Token = env\<rparr>)"
  using assms by (auto simp: resolveAuditConfig_def Let_def)

text \<open>Giving the URL as a flag can drop the rest of the file: \<open>resolveAuditConfig\<close> means to use the file as the
  base, but a file without a URL of its own (the one \<open>audit init\<close> writes) is loaded as no settings, and an error of
  the file is ignored, so its token and user are lost and its \<open>strict\<close> becomes \<open>best-effort\<close> without a
  word.\<close>

theorem flag_url_drops_file:
  assumes "configPaths e = Some (primary, legacy)" and "url \<noteq> []"
    and "readKV (cv_windows e) primary (cv_file e primary) = Inr (Some kv) \<and> kv_get kv ''audit-url'' = []
      \<or> (\<exists>err. readKV (cv_windows e) primary (cv_file e primary) = Inl err)"
  shows "resolveAuditConfig e [] url [] [] = Inr (Some \<lparr>cf_URL = url, cf_User = [], cf_Mode = ''best-effort'', cf_Token = []\<rparr>)"
proof -
  have "LoadAudit e = Inr None \<or> (\<exists>err. LoadAudit e = Inl err)"
    using assms(1,3) by (auto simp: LoadAudit_def settings_of_def)
  from resolve_without_file [OF this assms(2)] show ?thesis by simp
qed

lemma flag_url_drops_file_witness:
  "resolveAuditConfig (config_env_sample (\<lambda>_. File 384 (Inr (lines_text [''audit-mode=strict''])))) [] ''u'' [] []
     = Inr (Some \<lparr>cf_URL = ''u'', cf_User = [], cf_Mode = ''best-effort'', cf_Token = []\<rparr>)"
proof -
  let ?e = "config_env_sample (\<lambda>_. File 384 (Inr (lines_text [''audit-mode=strict''])))"
  have p: "configPaths ?e = Some (''/h/.config/pty-mcp/config'', ''/h/.pty-mcp'')" by code_simp
  have "readKV (cv_windows ?e) ''/h/.config/pty-mcp/config'' (cv_file ?e ''/h/.config/pty-mcp/config'') = Inr (Some [''audit-mode'' \<mapsto> ''strict''])"
    using parse_one_setting [of "''audit-mode''" "''strict''" False "''/h/.config/pty-mcp/config''"]
    by (simp add: config_env_sample_def)
  with flag_url_drops_file [OF p, of "''u''" "[''audit-mode'' \<mapsto> ''strict'']"] show ?thesis by (simp add: kv_get_def)
qed

text \<open>Disabling may not disable: only the first line that sets the URL is commented out, while the last one counts,
  so a file that sets it twice still has auditing on, and enabling a file that is already on uncomments whatever
  commented setting it finds, such as the placeholder, which then counts.\<close>

theorem toggle_first_line_only:
  assumes "config_line l1" and "config_line l2" and "length l1 + 2 < 64 * 1024" and "HasPrefix l1 ''audit-url=''"
    and "plain_word (''audit-url='' @ u)" and "l2 = ''audit-url='' @ u"
  shows "\<exists>off. toggleAuditURL (Inr (lines_text [l1, l2])) False = Inr (Some off, True, False)
     \<and> (\<exists>kv. readKV True path (File 384 (Inr off)) = Inr (Some kv) \<and> kv ''audit-url'' = Some u)"
proof -
  let ?c = "''# '' @ l1"
  have "toggleAuditURL (Inr (lines_text [l1, l2])) False = Inr (Some (lines_text [?c, l2]), True, False)"
    using assms by (intro toggleAuditURL_lines) auto
  moreover have "\<forall>l \<in> set [?c, l2]. config_line l" using assms by (auto simp: good_line_def HasPrefix_def)
  then have "scan_file (lines_text [?c, l2]) = ([?c, l2], False)" by (rule scan_lines_text)
  moreover have "parse_lines path 1 Map.empty [?c, l2] = Inr [''audit-url'' \<mapsto> u]"
  proof -
    have "parse_lines path 1 Map.empty [?c, l2] = parse_lines path 2 Map.empty [l2]"
      using parse_comment(2) [of path 1 Map.empty "'' '' @ l1" "[l2]"] by (simp add: numeral_2_eq_2 del: parse_lines.simps)
    also have "\<dots> = parse_lines path (Suc 2) [''audit-url'' \<mapsto> u] []"
      using parse_setting [of "''audit-url''" u path 2 Map.empty "[]"] assms(5,6) by (simp del: parse_lines.simps)
    finally show ?thesis by simp
  qed
  ultimately show ?thesis by (simp add: readKV_def)
qed

lemma toggle_first_line_only_witness:
  "\<exists>off. toggleAuditURL (Inr (lines_text [''audit-url=a'', ''audit-url=b''])) False = Inr (Some off, True, False)
     \<and> (\<exists>kv. readKV True [] (File 384 (Inr off)) = Inr (Some kv) \<and> kv ''audit-url'' = Some ''b'')"
  by (rule toggle_first_line_only) (simp_all add: good_line_def HasPrefix_def)

end
