(* ===== verification/Go_Flags.thy ===== *)
theory Go_Flags
  imports Go_Errors
begin

text \<open>
  What \<open>main.go\<close> uses of the standard library's package \<open>flag\<close>: a set of string and boolean
  flags with their defaults, and \<open>Parse\<close> under \<open>ExitOnError\<close>. A value tells the kind of
  its flag. The last theorem is the round trip of a command line.
\<close>

section \<open>Parsing\<close>

datatype flag_value = FString bytes | FBool bool

type_synonym flag_set = "bytes \<rightharpoonup> flag_value"

text \<open>How parsing ends the program: after \<open>-help\<close> with status 0, after an error with status 2.\<close>

datatype flag_exit = FlagHelp | FlagError bytes

definition ParseBool :: "bytes \<Rightarrow> bool option" where
  "ParseBool s =
     (if s \<in> {''1'', ''t'', ''T'', ''TRUE'', ''true'', ''True''} then Some True
      else if s \<in> {''0'', ''f'', ''F'', ''FALSE'', ''false'', ''False''} then Some False
      else None)"

text \<open>An argument is a flag when it has two characters and starts with a dash; its name follows one dash or two.\<close>

definition is_flag :: "bytes \<Rightarrow> bool" where
  "is_flag s \<longleftrightarrow> length s \<ge> 2 \<and> hd s = CHR ''-''"

definition flag_name :: "bytes \<Rightarrow> bytes" where
  "flag_name s = (if s ! 1 = CHR ''-'' then drop 2 s else drop 1 s)"

text \<open>The name up to the first equals sign and the value after it; an equals sign cannot come first.\<close>

definition split_flag :: "bytes \<Rightarrow> bytes \<times> bytes option" where
  "split_flag name = (case Cut (tl name) (CHR ''='') of
     (n, v, found) \<Rightarrow> (hd name # n, if found then Some v else None))"

fun parse_flags :: "flag_set \<Rightarrow> bytes list \<Rightarrow> flag_exit + flag_set \<times> bytes list" where
  "parse_flags fs [] = Inr (fs, [])"
| "parse_flags fs (s # args) =
     (if \<not> is_flag s then Inr (fs, s # args)
      else if s = ''--'' then Inr (fs, args)
      else let full = flag_name s
           in if full = [] \<or> hd full \<in> {CHR ''-'', CHR ''=''} then Inl (FlagError (''bad flag syntax: '' @ s))
              else case split_flag full of (name, value) \<Rightarrow>
                (case fs name of
                   None \<Rightarrow> Inl (if name \<in> {''help'', ''h''} then FlagHelp
                                else FlagError (''flag provided but not defined: -'' @ name))
                 | Some (FBool b) \<Rightarrow>
                     (case value of
                        None \<Rightarrow> parse_flags (fs(name \<mapsto> FBool True)) args
                      | Some v \<Rightarrow>
                          (case ParseBool v of
                             None \<Rightarrow> Inl (FlagError (''invalid boolean value '' @ Quote v @ '' for -'' @ name @ '': parse error''))
                           | Some c \<Rightarrow> parse_flags (fs(name \<mapsto> FBool c)) args))
                 | Some (FString x) \<Rightarrow>
                     (case value of
                        Some v \<Rightarrow> parse_flags (fs(name \<mapsto> FString v)) args
                      | None \<Rightarrow>
                          (case args of
                             [] \<Rightarrow> Inl (FlagError (''flag needs an argument: -'' @ name))
                           | v # args' \<Rightarrow> parse_flags (fs(name \<mapsto> FString v)) args'))))"

declare parse_flags.simps(2) [simp del]

lemma parse_no_flag: "\<not> is_flag s \<Longrightarrow> parse_flags fs (s # args) = Inr (fs, s # args)"
  by (simp add: parse_flags.simps(2))

definition string_flag :: "flag_set \<Rightarrow> bytes \<Rightarrow> bytes" where
  "string_flag fs name = (case fs name of Some (FString v) \<Rightarrow> v | _ \<Rightarrow> [])"

definition bool_flag :: "flag_set \<Rightarrow> bytes \<Rightarrow> bool" where
  "bool_flag fs name = (case fs name of Some (FBool b) \<Rightarrow> b | _ \<Rightarrow> False)"

lemma flag_upd [simp]:
  "string_flag (fs(name \<mapsto> FString v)) n = (if n = name then v else string_flag fs n)"
  "n \<noteq> name \<Longrightarrow> string_flag (fs(name \<mapsto> x)) n = string_flag fs n"
  "bool_flag (fs(name \<mapsto> FBool b)) n = (if n = name then b else bool_flag fs n)"
  "n \<noteq> name \<Longrightarrow> bool_flag (fs(name \<mapsto> x)) n = bool_flag fs n"
  by (simp_all add: string_flag_def bool_flag_def)

section \<open>Writing flags\<close>

text \<open>A name is a word without dash in front and without equals sign.\<close>

definition good_name :: "bytes \<Rightarrow> bool" where
  "good_name name \<longleftrightarrow> name \<noteq> [] \<and> hd name \<noteq> CHR ''-'' \<and> CHR ''='' \<notin> set name"

datatype spelling = Joined bytes bytes | Spaced bytes bytes | Switch bytes

fun write_flag :: "spelling \<Rightarrow> bytes list" where
  "write_flag (Joined name v) = [''--'' @ name @ ''='' @ v]"
| "write_flag (Spaced name v) = [''--'' @ name, v]"
| "write_flag (Switch name) = [''--'' @ name]"

fun apply_flag :: "spelling \<Rightarrow> flag_set \<Rightarrow> flag_set" where
  "apply_flag (Joined name v) fs = fs(name \<mapsto> FString v)"
| "apply_flag (Spaced name v) fs = fs(name \<mapsto> FString v)"
| "apply_flag (Switch name) fs = fs(name \<mapsto> FBool True)"

fun flag_fits :: "flag_set \<Rightarrow> spelling \<Rightarrow> bool" where
  "flag_fits fs (Joined name v) \<longleftrightarrow> good_name name \<and> (\<exists>x. fs name = Some (FString x))"
| "flag_fits fs (Spaced name v) \<longleftrightarrow> good_name name \<and> (\<exists>x. fs name = Some (FString x))"
| "flag_fits fs (Switch name) \<longleftrightarrow> good_name name \<and> (\<exists>b. fs name = Some (FBool b))"

lemma split_flag_write:
  assumes "good_name name"
  shows "split_flag (name @ ''='' @ v) = (name, Some v)" "split_flag name = (name, None)"
  using assms Cut_first [of "CHR ''=''" "tl name" v] Cut_absent [of "CHR ''=''" "tl name"]
  by (cases name; auto simp: good_name_def split_flag_def)+

lemma is_flag_write:
  assumes "good_name name"
  shows "is_flag (''--'' @ name @ x)" "flag_name (''--'' @ name @ x) = name @ x" "''--'' @ name @ x \<noteq> ''--''"
  using assms by (auto simp: is_flag_def flag_name_def good_name_def)

lemma good_name_hd:
  assumes "good_name name"
  shows "name @ x \<noteq> []" "hd (name @ x) \<noteq> CHR ''-''" "hd (name @ x) \<noteq> CHR ''=''"
  using assms by (cases name; auto simp: good_name_def)+

lemma parse_write_flag:
  assumes "flag_fits fs f"
  shows "parse_flags fs (write_flag f @ args) = parse_flags (apply_flag f fs) args"
proof (cases f)
  case (Joined name v)
  with assms have "good_name name" by simp
  with assms Joined show ?thesis
    using is_flag_write [of name "''='' @ v"] good_name_hd [of name "''='' @ v"] split_flag_write(1) [of name v]
    by (auto simp: parse_flags.simps(2))
next
  case (Spaced name v)
  with assms have "good_name name" by simp
  with assms Spaced show ?thesis
    using is_flag_write [of name "[]"] good_name_hd [of name "[]"] split_flag_write(2) [of name]
    by (auto simp: parse_flags.simps(2))
next
  case (Switch name)
  with assms have "good_name name" by simp
  with assms Switch show ?thesis
    using is_flag_write [of name "[]"] good_name_hd [of name "[]"] split_flag_write(2) [of name]
    by (auto simp: parse_flags.simps(2))
qed

lemma flag_fits_apply: "flag_fits fs f \<Longrightarrow> flag_fits (apply_flag f fs) g \<longleftrightarrow> flag_fits fs g"
  by (cases f; cases g) auto

text \<open>A command line is read back: flags written in any of the three spellings set their values in order, and what
  follows the first argument that is no flag is left alone.\<close>

theorem flags_roundtrip:
  assumes "list_all (flag_fits fs) settings" and "args = [] \<or> \<not> is_flag (hd args)"
  shows "parse_flags fs (concat (map write_flag settings) @ args) = Inr (fold apply_flag settings fs, args)"
  using assms
proof (induction settings arbitrary: fs)
  case Nil
  then show ?case by (cases args) (auto simp: parse_no_flag)
next
  case (Cons f settings)
  then have f: "flag_fits fs f" by simp
  have "list_all (flag_fits (apply_flag f fs)) settings"
    using Cons.prems(1) flag_fits_apply [OF f] by (simp add: list_all_iff)
  from Cons.IH [OF this Cons.prems(2)] parse_write_flag [OF f] show ?case by simp
qed

end
