(* ===== verification/Command_Line.thy ===== *)
theory Command_Line
  imports Daemon Config_File Ssh_Client Audit_Log Go_Flags "HOL-Library.Multiset"
begin

text \<open>
  The commands of the two programs: the arguments of \<open>ai-tmux\<close> (\<open>cmd/ai-tmux/main.go\<close>), with the
  command line \<open>ensureServer\<close> starts a daemon with, and the \<open>audit\<close> subcommands of
  \<open>pty-mcp\<close> (\<open>main.go\<close>) as changes of the configuration file, and \<open>main\<close> itself from its arguments
  to the way it serves. The printed messages are values.
\<close>

section \<open>ai-tmux\<close>

datatype ai_command = ShowVersion | Usage | RunServerCmd bytes int | RunClientCmd bytes | ListCmd bytes | Unknown bytes

text \<open>The loops over \<open>os.Args\<close>: an argument with the name of a flag sets it to the one after it.\<close>

fun flag_socket :: "bytes \<Rightarrow> bytes list \<Rightarrow> bytes" where
  "flag_socket v (a # b # args) = flag_socket (if a = ''--socket'' then b else v) (b # args)"
| "flag_socket v args = v"

fun flag_idle :: "int \<Rightarrow> bytes list \<Rightarrow> int" where
  "flag_idle v (a # b # args) =
     flag_idle (if a = ''--idle-timeout'' then (case Atoi b of (n, None) \<Rightarrow> n | (n, Some err) \<Rightarrow> v) else v) (b # args)"
| "flag_idle v args = v"

definition ai_tmux_main :: "bytes \<Rightarrow> bytes list \<Rightarrow> ai_command" where
  "ai_tmux_main SocketPath args =
     (if length args \<ge> 2 \<and> args ! 1 \<in> {''--version'', ''-v''} then ShowVersion
      else if length args < 2 then Usage
      else let socketPath = flag_socket SocketPath args; cmd = args ! 1
           in if cmd = ''server'' then RunServerCmd socketPath (flag_idle 1800 args)
              else if cmd = ''client'' then RunClientCmd socketPath
              else if cmd = ''list'' then ListCmd socketPath
              else Unknown cmd)"

text \<open>\<open>socketpath_unix.go\<close>, and the command line of \<open>ensureServer\<close>.\<close>

definition defaultSocketPath :: "int \<Rightarrow> bytes" where
  "defaultSocketPath uid = ''/tmp/ai-tmux-'' @ dec uid @ ''.sock''"

definition server_args :: "bytes \<Rightarrow> bytes list" where
  "server_args socketPath = [''server'', ''--socket'', socketPath, ''--idle-timeout'', ''1800'']"

text \<open>The daemon a client starts listens where the client connects: the command line of \<open>ensureServer\<close> is
  read back by \<open>main\<close> as the server command with the client's own socket path and the idle timeout of 30
  minutes, for every socket path except one that is itself the name of the socket flag.\<close>

theorem started_daemon_listens_for_client:
  assumes "self \<noteq> ''--socket''" "self \<noteq> ''--idle-timeout''" "socketPath \<noteq> ''--socket''"
  shows "ai_tmux_main dflt (self # server_args socketPath) = RunServerCmd socketPath 1800"
proof -
  have n: "Atoi ''1800'' = (1800, None)" "snd (Atoi ''--idle-timeout'') \<noteq> None" by code_simp+
  then obtain k err where f: "Atoi ''--idle-timeout'' = (k, Some err)" by (cases "Atoi ''--idle-timeout''") auto
  have "flag_idle 1800 (self # server_args socketPath) = 1800"
    using assms(1,2) n(1) f by (simp add: server_args_def split: prod.split option.split)
  moreover have "flag_socket dflt (self # server_args socketPath) = socketPath"
    using assms(1,3) by (simp add: server_args_def)
  ultimately show ?thesis by (simp add: ai_tmux_main_def Let_def) (simp add: server_args_def)
qed

lemma started_daemon_listens_for_client_witness:
  "ai_tmux_main ''/tmp/x.sock'' (''/usr/bin/ai-tmux'' # server_args (defaultSocketPath 1000))
     = RunServerCmd (''/tmp/ai-tmux-'' @ dec 1000 @ ''.sock'') 1800"
  using started_daemon_listens_for_client [of "''/usr/bin/ai-tmux''" "defaultSocketPath 1000" "''/tmp/x.sock''"]
  by (simp add: defaultSocketPath_def)

section \<open>pty-mcp audit\<close>

datatype audit_command = AuditUsage | AuditInit "bytes list" | AuditEnable | AuditDisable | AuditServe "bytes list"
  | AuditUnknown bytes

definition runAudit :: "bytes list \<Rightarrow> audit_command" where
  "runAudit args =
     (case args of
        [] \<Rightarrow> AuditUsage
      | a # as \<Rightarrow> if a = ''init'' then AuditInit as else if a = ''enable'' then AuditEnable
                  else if a = ''disable'' then AuditDisable else if a = ''serve'' then AuditServe as
                  else AuditUnknown a)"

definition content_of :: "config_file \<Rightarrow> bytes result" where
  "content_of f = (case f of NotExist \<Rightarrow> Inl (Errorf ''no such file or directory'') | StatError err \<Rightarrow> Inl err | File _ c \<Rightarrow> c)"

text \<open>\<open>writeErr\<close> is the error of writing the changed file back.\<close>

definition toggle_file :: "go_error option \<Rightarrow> bool \<Rightarrow> config_file \<Rightarrow> config_file \<times> (bool \<times> bool) result" where
  "toggle_file writeErr enable f =
     (case toggleAuditURL (content_of f) enable of
        Inl err \<Rightarrow> (f, Inl err)
      | Inr (None, changed, placeholder) \<Rightarrow> (f, Inr (changed, placeholder))
      | Inr (Some text, changed, placeholder) \<Rightarrow>
          (case writeErr of
             Some err \<Rightarrow> (f, Inl err)
           | None \<Rightarrow> (case f of File perm _ \<Rightarrow> File perm (Inr text) | _ \<Rightarrow> File 384 (Inr text), Inr (changed, placeholder))))"

text \<open>
  \<open>audit init\<close> with its arguments. The environment: the variable \<open>USER\<close> and the current user, the outcomes of
  making the directory, of drawing 32 random bytes and of writing the file. The result is the files as they are then.
\<close>

record init_env =
  ie_USER :: bytes
  ie_current :: "bytes option"
  ie_mkdir :: "go_error option"
  ie_rand :: "bytes result"
  ie_write :: "go_error option"

datatype init_report =
    InitFlags flag_exit
  | InitFatal go_error
  | ConfigExists bytes
  | InitCreated (created_path: bytes) (created_token: bytes)

definition init_username :: "init_env \<Rightarrow> bytes" where
  "init_username i = (case ie_current i of Some u \<Rightarrow> if u \<noteq> [] then u else ie_USER i | None \<Rightarrow> ie_USER i)"

definition runAuditInit :: "init_env \<Rightarrow> config_env \<Rightarrow> bytes list \<Rightarrow> (bytes \<Rightarrow> config_file) \<times> init_report" where
  "runAuditInit i e args =
     (case parse_flags [''force'' \<mapsto> FBool False] args of
        Inl x \<Rightarrow> (cv_file e, InitFlags x)
      | Inr (fs, _) \<Rightarrow>
          (case cv_configDir e of
             None \<Rightarrow> (cv_file e, InitFatal (Errorf ''audit init''))
           | Some configBase \<Rightarrow>
               (let dir = cv_join e [configBase, ''pty-mcp'']; cfgPath = cv_join e [dir, ''config''];
                    force = bool_flag fs ''force''; old = cv_file e cfgPath
                in if \<not> force \<and> (case old of File _ _ \<Rightarrow> True | _ \<Rightarrow> False) then (cv_file e, ConfigExists cfgPath)
                   else case ie_mkdir i of
                          Some err \<Rightarrow> (cv_file e, InitFatal (Wrap ''audit init: create directory'' err))
                        | None \<Rightarrow>
                            (case ie_rand i of
                               Inl err \<Rightarrow> (cv_file e, InitFatal (Wrap ''audit init: generate token'' err))
                             | Inr b \<Rightarrow>
                                 (let token = EncodeToString b
                                  in case ie_write i of
                                       Some err \<Rightarrow> (cv_file e, InitFatal (Wrap ''audit init: write config'' err))
                                     | None \<Rightarrow>
                                         (case init_file force (init_username i) token old of
                                            None \<Rightarrow> (cv_file e, ConfigExists cfgPath)
                                          | Some f \<Rightarrow> ((cv_file e)(cfgPath := f), InitCreated cfgPath token)))))))"

text \<open>What \<open>audit enable\<close> and \<open>audit disable\<close> report, with the file they leave at the primary path.\<close>

datatype report =
    Fatal go_error
  | InitFirst init_report
  | NotConfigured
  | NoChange
  | Switched bool

definition runAuditEnable :: "init_env \<Rightarrow> go_error option \<Rightarrow> config_env \<Rightarrow> (bytes \<Rightarrow> config_file) \<times> report" where
  "runAuditEnable i writeErr e =
     (let cfgPath = PrimaryPath e
      in if cfgPath = [] then (cv_file e, Fatal (Errorf ''audit enable: cannot determine config directory''))
         else if cv_file e cfgPath = NotExist
         then (case runAuditInit i e [] of (files, r) \<Rightarrow> (files, InitFirst r))
         else (case toggle_file writeErr True (cv_file e cfgPath) of
                 (f, Inl err) \<Rightarrow> (cv_file e, Fatal (Wrap ''audit enable'' err))
               | (f, Inr (changed, placeholder)) \<Rightarrow>
                   ((cv_file e)(cfgPath := f), if changed then Switched placeholder else NoChange)))"

definition runAuditDisable :: "go_error option \<Rightarrow> config_env \<Rightarrow> (bytes \<Rightarrow> config_file) \<times> report" where
  "runAuditDisable writeErr e =
     (let cfgPath = PrimaryPath e
      in if cfgPath = [] then (cv_file e, Fatal (Errorf ''audit disable: cannot determine config directory''))
         else if cv_file e cfgPath = NotExist then (cv_file e, NotConfigured)
         else (case toggle_file writeErr False (cv_file e cfgPath) of
                 (f, Inl err) \<Rightarrow> (cv_file e, Fatal (Wrap ''audit disable'' err))
               | (f, Inr (changed, placeholder)) \<Rightarrow>
                   ((cv_file e)(cfgPath := f), if changed then Switched False else NoChange)))"

text \<open>
  \<open>audit serve\<close> up to listening, with the address and the collector: \<open>env\<close> is
  \<open>PTY_MCP_AUDIT_TOKEN\<close>, \<open>opened\<close> the outcome of opening a log.
\<close>

datatype collector = CollectorFlags flag_exit | CollectorError go_error | Collecting bytes audit_server

definition serve_flags :: flag_set where
  "serve_flags = [''port'' \<mapsto> FString ''8080'', ''log'' \<mapsto> FString []]"

definition runAuditServe :: "config_env \<Rightarrow> bytes \<Rightarrow> (bytes \<Rightarrow> bytes result) \<Rightarrow> bytes list \<Rightarrow> collector" where
  "runAuditServe e env opened args =
     (case parse_flags serve_flags args of
        Inl x \<Rightarrow> CollectorFlags x
      | Inr (fs, _) \<Rightarrow>
          (let logPath = string_flag fs ''log''
           in if logPath = [] then CollectorError (Errorf ''error: --log is required'')
              else case serveToken e env of
                     Inl err \<Rightarrow> CollectorError (Wrap ''pty-mcp'' err)
                   | Inr token \<Rightarrow>
                       (case NewServer token logPath (opened logPath) of
                          Inl err \<Rightarrow> CollectorError (Wrap ''audit server'' err)
                        | Inr srv \<Rightarrow> Collecting ('':'' @ string_flag fs ''port'') srv)))"

section \<open>pty-mcp\<close>

text \<open>How \<open>main\<close> serves: over HTTP with a token, with a warning when there is none.\<close>

datatype serving = Stdio | Http (http_address: bytes) (http_bearer: bytes) (http_warning: bool)

definition main_serving :: "bytes \<Rightarrow> bytes \<Rightarrow> bytes \<Rightarrow> serving" where
  "main_serving httpAddr flag env =
     (if httpAddr \<noteq> [] then let token = httpToken flag env in Http httpAddr token (token = []) else Stdio)"

definition main_flags :: flag_set where
  "main_flags = [''audit-url'' \<mapsto> FString [], ''audit-user'' \<mapsto> FString [], ''audit-mode'' \<mapsto> FString [],
     ''http-addr'' \<mapsto> FString [], ''http-token'' \<mapsto> FString [], ''version'' \<mapsto> FBool False]"

datatype main_outcome =
    RunAudit audit_command
  | PrintVersion
  | PrintUsage
  | FlagExit flag_exit
  | ConfigError go_error
  | Serving "audit_client option" serving

definition audit_client_of :: "Audit_config \<Rightarrow> audit_client" where
  "audit_client_of c = NewClient (cf_URL c) (cf_User c) (cf_Token c) (cf_Mode c)"

text \<open>After the flags are read; \<open>auditEnv\<close> and \<open>httpEnv\<close> are the variables with the two tokens.\<close>

definition main_run :: "config_env \<Rightarrow> bytes \<Rightarrow> bytes \<Rightarrow> flag_set \<Rightarrow> main_outcome" where
  "main_run e auditEnv httpEnv fs =
     (if bool_flag fs ''version'' then PrintVersion
      else case resolveAuditConfig e auditEnv (string_flag fs ''audit-url'') (string_flag fs ''audit-user'')
                  (string_flag fs ''audit-mode'') of
             Inl err \<Rightarrow> ConfigError (Wrap ''pty-mcp'' err)
           | Inr auditCfg \<Rightarrow>
               Serving (map_option audit_client_of auditCfg)
                 (main_serving (string_flag fs ''http-addr'') (string_flag fs ''http-token'') httpEnv))"

definition pty_mcp_main :: "config_env \<Rightarrow> bytes \<Rightarrow> bytes \<Rightarrow> bytes list \<Rightarrow> main_outcome" where
  "pty_mcp_main e auditEnv httpEnv args =
     (if length args \<ge> 2 \<and> args ! 1 = ''audit'' then RunAudit (runAudit (drop 2 args))
      else if length args > 1 \<and> args ! 1 = ''-v'' then PrintVersion
      else if length args > 1 \<and> args ! 1 = ''-h'' then PrintUsage
      else case parse_flags main_flags (drop 1 args) of
             Inl x \<Rightarrow> FlagExit x
           | Inr (fs, _) \<Rightarrow> main_run e auditEnv httpEnv fs)"

section \<open>A legacy configuration\<close>

lemma plain_init_off:
  assumes "plain_word username" "plain_word token" "length username < 1000" "length token < 1000"
  shows "readKV w path (File 384 (Inr (lines_text (init_lines username token)))) = Inr (Some [''audit-user'' \<mapsto> username,
     ''audit-mode'' \<mapsto> ''best-effort'', ''audit-token'' \<mapsto> token])"
proof -
  have same: "(init_lines username token)[4 := ''# audit-url=http://your-collector:9099''] = init_lines username token"
    by (simp add: init_lines_def)
  have "(Map.empty(''audit-url'' := None)) = (Map.empty :: bytes \<rightharpoonup> bytes)" by auto
  then show ?thesis
    using parse_init [OF assms(1,2), of None "''# audit-url=http://your-collector:9099''" path] same
    by (simp add: readKV_def scan_lines_text [OF init_lines_good [OF assms]] del: parse_lines.simps fun_upd_apply)
qed

lemma EncodeToString_plain: "plain_word (EncodeToString bs)" "length (EncodeToString bs) = 2 * length bs"
proof -
  have "plain_word (hex2 c)" for c
  proof -
    note code_bounds [of c]
    then have "0 \<le> code c div 16 \<and> code c div 16 < 16" "0 \<le> code c mod 16 \<and> code c mod 16 < 16" by auto
    moreover have "33 \<le> code (hex_digit n) \<and> code (hex_digit n) < 127" if "0 \<le> n \<and> n < 16" for n
      using that by (auto simp: hex_digit_def code_def of_char_of take_bit_int_eq_self)
    ultimately show ?thesis by (simp add: hex2_def)
  qed
  then show "plain_word (EncodeToString bs)" by (induction bs) (simp_all add: EncodeToString_def)
  show "length (EncodeToString bs) = 2 * length bs" by (induction bs) (simp_all add: EncodeToString_def hex2_def)
qed

text \<open>The commands look at the primary path only, while the settings are also loaded from the legacy one. Where only
  the legacy file exists and turns auditing on, \<open>audit disable\<close> reports that auditing is not configured and
  changes nothing, and \<open>audit enable\<close> creates a primary file, with which no settings are loaded any more: it
  turns auditing off.\<close>

theorem legacy_config_misreported:
  assumes "configPaths e = Some (primary, legacy)" "primary \<noteq> []" "cv_file e primary = NotExist"
    and "LoadAudit e = Inr (Some c)"
    and path: "cv_configDir e = Some base" "cv_join e [cv_join e [base, ''pty-mcp''], ''config''] = primary"
    and init: "ie_mkdir i = None" "ie_rand i = Inr b" "length b = 32" "ie_write i = None"
    and words: "plain_word (init_username i)" "length (init_username i) < 1000"
  shows "runAuditDisable writeErr e = (cv_file e, NotConfigured)
    \<and> (\<exists>files. runAuditEnable i writeErr e = (files, InitFirst (InitCreated primary (EncodeToString b)))
        \<and> LoadAudit (e\<lparr>cv_file := files\<rparr>) = Inr None)"
proof -
  have p: "PrimaryPath e = primary" using assms(1) by (simp add: PrimaryPath_def)
  let ?token = "EncodeToString b"
  let ?f = "File 384 (Inr (lines_text (init_lines (init_username i) ?token)))"
  have token: "plain_word ?token" "length ?token < 1000" using init(3) by (simp_all add: EncodeToString_plain)
  have "runAuditEnable i writeErr e = ((cv_file e)(primary := ?f), InitFirst (InitCreated primary ?token))"
    using assms(2,3) p path init by (simp add: runAuditEnable_def runAuditInit_def init_file_def Let_def bool_flag_def)
  moreover have "configPaths (e\<lparr>cv_file := g\<rparr>) = Some (primary, legacy)" for g
    using assms(1) by (cases "cv_home e"; cases "cv_configDir e") (simp_all add: configPaths_def Let_def)
  then have "LoadAudit (e\<lparr>cv_file := (cv_file e)(primary := ?f)\<rparr>) = Inr None"
    by (simp add: LoadAudit_def plain_init_off [OF words(1) token(1) words(2) token(2)] settings_of_def kv_get_def)
  moreover have "runAuditDisable writeErr e = (cv_file e, NotConfigured)"
    using assms(2,3) p by (simp add: runAuditDisable_def)
  ultimately show ?thesis by blast
qed

definition init_env_sample :: init_env where
  "init_env_sample = \<lparr>ie_USER = [], ie_current = Some ''ray'', ie_mkdir = None, ie_rand = Inr (replicate 32 CHR ''x''), ie_write = None\<rparr>"

lemma legacy_config_misreported_witness:
  "\<exists>files r. runAuditEnable init_env_sample
      None (config_env_sample (\<lambda>path. if path = ''/h/.pty-mcp'' then File 384 (Inr (lines_text [''audit-url=u''])) else NotExist)) = (files, InitFirst r)"
proof -
  let ?e = "config_env_sample (\<lambda>path. if path = ''/h/.pty-mcp'' then File 384 (Inr (lines_text [''audit-url=u''])) else NotExist)"
  have p: "configPaths ?e = Some (''/h/.config/pty-mcp/config'', ''/h/.pty-mcp'')" by code_simp
  have "readKV False ''/h/.pty-mcp'' (File 384 (Inr (lines_text [''audit-url=u'']))) = Inr (Some [''audit-url'' \<mapsto> ''u''])"
    using parse_one_setting [of "''audit-url''" "''u''" False "''/h/.pty-mcp''"] by simp
  then have l: "LoadAudit ?e = Inr (Some \<lparr>cf_URL = ''u'', cf_User = [], cf_Mode = [], cf_Token = []\<rparr>)"
    using p by (simp add: LoadAudit_def settings_of_def kv_get_def config_env_sample_def readKV_def [of _ _ NotExist])
  have f: "cv_file ?e ''/h/.config/pty-mcp/config'' = NotExist" by (simp add: config_env_sample_def)
  have d: "cv_configDir ?e = Some ''/h/.config''"
    "cv_join ?e [cv_join ?e [''/h/.config'', ''pty-mcp''], ''config''] = ''/h/.config/pty-mcp/config''"
    by (simp_all add: config_env_sample_def)
  have i: "ie_mkdir init_env_sample = None" "ie_rand init_env_sample = Inr (replicate 32 CHR ''x'')" "ie_write init_env_sample = None"
    "init_username init_env_sample = ''ray''"
    by (simp_all add: init_env_sample_def init_username_def)
  from legacy_config_misreported [OF p _ f l d i(1,2) _ i(3), of None] i(4) show ?thesis by auto
qed

text \<open>\<open>audit init\<close> needs the configuration directory only, the settings need the home directory too: where only the
  first is known (\<open>XDG_CONFIG_HOME\<close> without \<open>HOME\<close>), the file is created and reported, and never read.\<close>

theorem init_without_home_unused:
  assumes "cv_home e = None" and "cv_configDir e = Some base"
    and "ie_mkdir i = None" "ie_rand i = Inr b" "ie_write i = None"
    and "path = cv_join e [cv_join e [base, ''pty-mcp''], ''config'']" "cv_file e path = NotExist"
  shows "\<exists>files. runAuditInit i e [] = (files, InitCreated path (EncodeToString b)) \<and> files path \<noteq> NotExist
    \<and> LoadAudit (e\<lparr>cv_file := files\<rparr>) = Inr None \<and> PrimaryPath (e\<lparr>cv_file := files\<rparr>) = []"
  using assms by (simp add: runAuditInit_def init_file_def bool_flag_def Let_def LoadAudit_def PrimaryPath_def configPaths_def)

lemma init_without_home_unused_witness:
  "\<exists>files. runAuditInit init_env_sample ((config_env_sample (\<lambda>_. NotExist))\<lparr>cv_home := None\<rparr>) []
     = (files, InitCreated ''/h/.config/pty-mcp/config'' (EncodeToString (replicate 32 CHR ''x'')))"
  using init_without_home_unused [of "(config_env_sample (\<lambda>_. NotExist))\<lparr>cv_home := None\<rparr>" "''/h/.config''" init_env_sample
      "replicate 32 CHR ''x''" "''/h/.config/pty-mcp/config''"]
  by (auto simp: config_env_sample_def init_env_sample_def)

section \<open>The options of pty-mcp\<close>

fun setting_of :: "spelling \<Rightarrow> bytes \<times> flag_value" where
  "setting_of (Joined name v) = (name, FString v)"
| "setting_of (Spaced name v) = (name, FString v)"
| "setting_of (Switch name) = (name, FBool True)"

lemma fold_settings: "fold apply_flag fl fs = fold (\<lambda>(n, v) fs. fs(n \<mapsto> v)) (map setting_of fl) fs"
proof (induction fl arbitrary: fs)
  case (Cons f fl)
  then show ?case by (cases f) simp_all
qed simp

lemma fold_settings_order:
  assumes "distinct (map fst xs)" and "mset xs = mset ys"
  shows "fold (\<lambda>(n, v) fs. fs(n \<mapsto> v)) xs = fold (\<lambda>(n, v) fs. fs(n \<mapsto> v)) (ys :: (bytes \<times> flag_value) list)"
proof (rule fold_multiset_equiv [OF _ assms(2)])
  fix x y assume "x \<in> set xs" "y \<in> set xs"
  with assms(1) have "x = y \<or> fst x \<noteq> fst y" by (auto simp: distinct_map inj_on_def)
  then show "(\<lambda>(n, v) fs. fs(n \<mapsto> v)) x \<circ> (\<lambda>(n, v) fs. fs(n \<mapsto> v)) y
      = (\<lambda>(n, v) fs. fs(n \<mapsto> v)) y \<circ> (\<lambda>(n, v) fs. fs(n \<mapsto> v)) (x :: bytes \<times> flag_value)"
    by (cases x; cases y) (auto simp: fun_eq_iff)
qed

lemma main_no_command:
  "args = [] \<or> (\<exists>x. hd args = ''--'' @ x \<and> x \<noteq> []) \<Longrightarrow> pty_mcp_main e auditEnv httpEnv (self # args) =
     (case parse_flags main_flags args of Inl x \<Rightarrow> FlagExit x | Inr (fs, _) \<Rightarrow> main_run e auditEnv httpEnv fs)"
  by (cases args) (auto simp: pty_mcp_main_def)

lemma main_options:
  assumes "list_all (flag_fits main_flags) fl"
  shows "pty_mcp_main e auditEnv httpEnv (self # concat (map write_flag fl)) = main_run e auditEnv httpEnv (fold apply_flag fl main_flags)"
proof -
  let ?args = "concat (map write_flag fl)"
  have "?args = [] \<or> (\<exists>x. hd ?args = ''--'' @ x \<and> x \<noteq> [])"
  proof (cases fl)
    case (Cons f fl')
    with assms show ?thesis by (cases f) (auto simp: good_name_def)
  qed simp
  then show ?thesis using flags_roundtrip [OF assms, of "[]"] by (simp add: main_no_command)
qed

text \<open>Neither the order in which the options of \<open>pty-mcp\<close> are written nor their spelling (\<open>--name=value\<close>
  or \<open>--name value\<close>) matters: two command lines with the same settings, none given twice, make the program do the same.\<close>

theorem main_options_order:
  assumes "list_all (flag_fits main_flags) fl" and "list_all (flag_fits main_flags) fl'"
    and "distinct (map (fst \<circ> setting_of) fl)" and "mset (map setting_of fl) = mset (map setting_of fl')"
  shows "pty_mcp_main e auditEnv httpEnv (self # concat (map write_flag fl))
    = pty_mcp_main e auditEnv httpEnv (self # concat (map write_flag fl'))"
proof -
  have "fold apply_flag fl main_flags = fold apply_flag fl' main_flags"
    using fold_settings_order [OF _ assms(4)] assms(3) by (simp add: fold_settings)
  then show ?thesis by (simp add: main_options [OF assms(1)] main_options [OF assms(2)])
qed

lemma main_options_order_witness:
  "pty_mcp_main e [] [] [''pty-mcp'', ''--http-addr'', '':8080'', ''--http-token=t'']
   = pty_mcp_main e [] [] [''pty-mcp'', ''--http-token'', ''t'', ''--http-addr='' @ '':8080'']"
  using main_options_order [of "[Spaced ''http-addr'' '':8080'', Joined ''http-token'' ''t'']"
      "[Spaced ''http-token'' ''t'', Joined ''http-addr'' '':8080'']" e "[]" "[]" "''pty-mcp''"]
  by (simp add: main_flags_def good_name_def add_mset_commute)

text \<open>Options after a word that is none are ignored without a message: \<open>pty-mcp serve --http-addr :8080\<close>
  serves standard input and output like \<open>pty-mcp\<close> alone.\<close>

theorem options_after_word_ignored:
  assumes "\<not> is_flag w" and "w \<noteq> ''audit''"
  shows "pty_mcp_main e auditEnv httpEnv (self # w # args) = pty_mcp_main e auditEnv httpEnv [self]"
proof -
  have "w \<noteq> ''-v''" "w \<noteq> ''-h''" using assms(1) by (auto simp: is_flag_def)
  with assms show ?thesis by (simp add: pty_mcp_main_def parse_no_flag)
qed

lemma options_after_word_ignored_witness:
  "pty_mcp_main e [] [] [''pty-mcp'', ''serve'', ''--http-addr'', '':8080''] = pty_mcp_main e [] [] [''pty-mcp'']"
  using options_after_word_ignored [of "''serve''" e "[]" "[]" "''pty-mcp''" "[''--http-addr'', '':8080'']"]
  by (simp add: is_flag_def)

end
