(* ===== verification/Spec2Isabelle.thy ===== *)
theory Spec2Isabelle
  imports Create_Sessions Client_Bridge Serve_Shutdown Http_Transport Credentials Audit_Log Command_Line
begin

text \<open>
  Verification of pty-mcp, a server that lets an AI client drive interactive terminal sessions (local shells, SSH,
  serial devices, and sessions kept alive on a remote host by the daemon ai-tmux).

  \<^bold>\<open>The program and its parts.\<close> A client speaks JSON-RPC over standard input and output or over HTTP
  (\<open>internal/mcp/server.go\<close>, \<open>http.go\<close>). A request for a tool is decoded and dispatched to a handler
  (\<open>tools.go\<close>, \<open>credentials.go\<close>), which looks its session up in the manager
  (\<open>internal/session/session.go\<close>), takes the session's lock and works on the session: a terminal, an SSH
  shell, a serial port or a connection to a daemon. Every session writes its output into a ring buffer
  (\<open>internal/buffer/ring.go\<close>) from which the handlers read incrementally, wait for patterns, and classify what
  the terminal is waiting for. Secrets come from the operator through dialogs and are staged, typed, never answered.
  The daemon (\<open>internal/aitx\<close>) serves the same kind of sessions over a socket that the remote session talks to
  through SSH. What is typed is reported to an audit collector (\<open>internal/audit\<close>) that is configured by a file
  (\<open>internal/config\<close>, \<open>main.go\<close>).

  \<^bold>\<open>Theories\<close>, in the order of the calls; each opens with what it holds.
  \<^item> \<open>Prelude\<close>, \<open>Go_Strings\<close>, \<open>Go_Errors\<close>, \<open>Go_JSON\<close>, \<open>Go_Flags\<close>, \<open>Regex\<close>: what the
    program uses of Go. Strings are byte lists read as runes; indexing, slicing and division give \<open>None\<close> where
    Go panics; errors are the datatype \<open>go_error\<close>, results the sum \<open>go_error + 'a\<close>; JSON values with
    struct decoding; the command lines of the flag package; regular expressions as a datatype with an ordered matcher.
  \<^item> \<open>Ring_Buffer\<close> (\<open>RingBuffer\<close>), \<open>Terminal\<close> (\<open>internal/pty/helper.go\<close>): the abstract view is
    the whole history of output and a mark; \<open>Write\<close> refines appending, reads return the retained history after
    a cursor; \<open>StripANSI\<close> and the settle loop.
  \<^item> \<open>Pty_Session\<close> (\<open>aitx/ptysession.go\<close>), \<open>Aitx_Server\<close> (\<open>aitx/server.go\<close>,
    \<open>protocol.go\<close>), \<open>Daemon\<close> (\<open>RunServer\<close>, \<open>handleConn\<close>): a process on a pseudo terminal, the
    daemon's requests as functions of its state, connections and the socket path as a step relation over daemons.
    \<open>Client_Bridge\<close> (\<open>RunClient\<close>): the program that carries lines between a terminal and the daemon.
  \<^item> \<open>Remote_Session\<close>, \<open>Sessions\<close>, \<open>Session_Manager\<close>, \<open>Ssh_Client\<close>
    (\<open>internal/session\<close>): the client of the daemon, composed with the daemon's model; the session interface
    as a locale interpreted by the local, SSH and serial sessions; the registry, staged secrets and locks; how SSH
    connections are configured, opened and torn down, and how the version of a remote daemon is compared.
  \<^item> \<open>Wait_For\<close>, \<open>Classifier\<close>, \<open>Handlers\<close>, \<open>Secret_Prompt\<close>, \<open>Tool_Calls\<close>
    (\<open>mcp/tools.go\<close>, \<open>session/classifier.go\<close>): waiting for a pattern against the stream of lines; the
    handlers over a world of manager, heap of sessions, far ends and audit client; the dialogs; decoding and the JSON of results.
    \<open>Create_Sessions\<close>: the handlers that open a session, its log file and its entry in the manager.
  \<^item> \<open>Mcp_Server\<close>, \<open>Http_Transport\<close>, \<open>Credentials\<close>: the server loop as a step function whose
    events say which goroutine moves, so that a property of the reachable states holds under every interleaving; the
    HTTP transport over the same dispatch; sealed credentials. \<open>Serve_Shutdown\<close>: the end of the server loop.
  \<^item> \<open>Audit_Log\<close>, \<open>Log_Rotator\<close>, \<open>Config_File\<close>, \<open>Command_Line\<close>: redaction, the queue with
    its worker and retries, the collector; rotation over a disk; the configuration file and the commands that change it.
  \<^item> This theory: what only holds of several parts together.

  \<^bold>\<open>What the lemmas show.\<close> For each component an invariant that every operation keeps (\<open>holds\<close>,
  \<open>server_ok\<close>, \<open>mgr_ok\<close>, \<open>serve_ok\<close>, \<open>sound_daemons\<close>, the HTTP and queue invariants), the
  behaviour of every branch, and the contract it promises: refinement of a history (buffer, screen reads, log
  files), mutual exclusion of session locks and their release on every path, single use of secrets and credentials,
  exactly one answer per request or none when cancelled, bounded concurrency, queues and retries, termination of the
  waits and of the drained server, round trips of encodings and command lines, authorisation before any effect. Where
  the code does not keep its promise the theorem states what it does: output repeated after an overrun, output missed
  between two reads, prompts that leave their script, keys logged because they were cut, daemons that remove each
  other's socket, configurations that silently turn auditing off.

  \<^bold>\<open>The environment\<close> is explicit: clocks, devices, other goroutines, other connections, the operator and the
  network are arguments (lists of readings, answers per request, functions run while a call is queued) over which the
  properties are quantified. A loop that polls takes the list of what its turns see; such a list ends where the code's
  own test ends it. The select statements of Go take an argument for the branch chosen when several are ready.

  \<^bold>\<open>Bounds and fuel.\<close> The matcher of a repetition has as much fuel as there are runes left, which is enough as
  an iteration without progress is cut. \<open>postWithRetry\<close> recurses over its delays, the settle and wait loops over
  the turns of the environment, the version check over three numbers. Constants are the source's: 32 concurrent tool
  calls, 50 and 100 sessions, 64 queued responses, 256 queued audit entries, 2048 bytes of window and snippet, 64 KB of an audit entry.
  Integers are mathematical where the code's 64 bits cannot be exceeded, and written out where they can
  (\<open>wrap64\<close>, the 16 bits of a terminal's size, \<open>Atoi\<close>).

  \<^bold>\<open>Not modelled\<close>: the calls of the operating system that listen, dial, start processes and set their
  attributes and umask, of which the model takes the outcome; the text of JSON and of log lines, usage messages,
  signals; and packages outside the repository, which are parameters (\<open>mapstructure\<close>, the
  cryptography of sealed credentials, the SSH handshake, the regular expression a client sends). A remote session's
  polling is placed before the wait it accompanies, a handler's effect on the world inside the server loop is one step,
  and seconds given as floats are whole milliseconds.
\<close>

section \<open>From the operator to the terminal\<close>

text \<open>C23. A secret goes from the operator's dialog to the terminal and nowhere else: \<open>send_secret\<close> on a live local
  session that nobody holds and that has no staged secret types exactly the secret the prompting returned,
  followed by one carriage return, and answers success; when the prompting fails (dismissed everywhere, timed
  out, cancelled), its error is the reply and the session's terminal is untouched.\<close>

theorem operator_secret_typed:
  assumes "ev_queue e = id" and "ev_lockErr e = None" and "ev_ctxErr e = None" and "io_err (ev_io e) = None"
    and "m_sessions (wd_mgr w) ID = Some s" and "m_sessionLocks (wd_mgr w) ID \<noteq> Some True"
    and "m_pendingSecrets (wd_mgr w) ID = None"
    and "wd_heap w s = LocalS l" and "ps_alive l"
    and "ev_secret e = (\<lambda>text. snd (readSecretFromUser v text))"
  shows "\<exists>w' r. run_call e (C_SendSecret \<lparr>sn_SessionID = ID, sn_Prompt = prompt\<rparr>) w = Returns (w', r)
    \<and> (case snd (readSecretFromUser v (secret_prompt prompt)) of
         Inr secret \<Rightarrow> r = Inr Success \<and> (\<exists>l'. wd_heap w' s = LocalS l' \<and> ps_tty l' = ps_tty l @ secret @ [CR])
       | Inl err \<Rightarrow> r = Inl err \<and> wd_heap w' = wd_heap w)"
proof -
  have get: "\<exists>m'. Get now ID m = (m', Inr s) \<and> m_sessions m' = m_sessions m \<and> m_sessionLocks m' = m_sessionLocks m
      \<and> m_pendingSecrets m' = m_pendingSecrets m" if "m_sessions m ID = Some s" for now m
    using that by (auto simp: Get_def split: option.split)
  obtain m1 where m1: "Get (ev_now e) ID (wd_mgr w) = (m1, Inr s)" "m_sessions m1 ID = Some s"
      "m_sessionLocks m1 ID \<noteq> Some True" "m_pendingSecrets m1 ID = None"
    using get [OF assms(5)] assms(5-7) by metis
  have "\<exists>m2. LockSession None (ev_pick e) ID m1 = Some (m2, None) \<and> m_sessions m2 ID = Some s \<and> m_pendingSecrets m2 ID = None"
    using m1(2-4) by (cases "m_sessionLocks m1 ID") (auto simp: LockSession_def sessionLockChan_def)
  then obtain m2 where m2: "LockSession None (ev_pick e) ID m1 = Some (m2, None)" "m_sessions m2 ID = Some s"
      "m_pendingSecrets m2 ID = None" by blast
  obtain m3 where m3: "Get (ev_now e) ID m2 = (m3, Inr s)" "m_pendingSecrets m3 ID = None"
    using get [OF m2(2)] m2(3) by metis
  have take: "TakeSecret ID m3 = (m3, None)" using m3(2) by (simp add: TakeSecret_def)
  show ?thesis
    using assms(1-4,8-10) m1(1) m2(1) m3(1) take
    by (cases "snd (readSecretFromUser v (secret_prompt prompt))")
      (simp_all add: SendSecret_def send_secret_body_def fetch_locked_def fetch_def locked_def Let_def obj_WriteRaw_def pty_WriteRaw_def
        set_obj_def split: prod.split)
qed

definition typing_world :: "unit world" where
  "typing_world = world_sample\<lparr>wd_heap := (\<lambda>_. LocalS pty_sample)\<rparr>"

lemma operator_secret_typed_witness:
  "\<exists>w' r l'. run_call (call_env\<lparr>ev_secret := (\<lambda>text. snd (readSecretFromUser (prompt_sample\<lparr>pv_goos := ''darwin''\<rparr>) text))\<rparr>)
      (C_SendSecret \<lparr>sn_SessionID = ''p1'', sn_Prompt = ''pw''\<rparr>) typing_world = Returns (w', r) \<and> r = Inr Success
    \<and> wd_heap w' 1 = LocalS l' \<and> ps_tty l' = ''a, gave up:true'' @ [CR]"
proof -
  let ?v = "prompt_sample\<lparr>pv_goos := ''darwin''\<rparr>"
  let ?e = "call_env\<lparr>ev_secret := (\<lambda>text. snd (readSecretFromUser ?v text))\<rparr>"
  have "readSecretOsascript ?v ''pw'' = ([Ran ''osascript'' [''-e'', osascript_text ''pw''] None], Inr ''a, gave up:true'')"
    using parse_osascript_answer(1) [OF refl, of "''a, gave up:true''"]
    by (simp add: readSecretOsascript_def ask_def prompt_sample_def)
  then have secret: "snd (readSecretFromUser ?v (secret_prompt ''pw'')) = Inr ''a, gave up:true''"
    by (simp add: secret_prompt_def readSecretFromUser_def or_else_def final_def Let_def prompt_sample_def)
  have l: "ps_alive pty_sample" "ps_tty pty_sample = []" by (simp_all add: pty_sample_def)
  have e: "ev_queue ?e = id" "ev_lockErr ?e = None" "ev_ctxErr ?e = None" "io_err (ev_io ?e) = None"
    "ev_secret ?e = (\<lambda>text. snd (readSecretFromUser ?v text))"
    by (simp_all add: call_env_def io_quiet_def)
  have w: "m_sessions (wd_mgr typing_world) ''p1'' = Some 1" "m_sessionLocks (wd_mgr typing_world) ''p1'' \<noteq> Some True"
    "m_pendingSecrets (wd_mgr typing_world) ''p1'' = None" "wd_heap typing_world 1 = LocalS pty_sample"
    using world_sample_facts by (simp_all add: typing_world_def)
  from operator_secret_typed [OF e(1-4) w l(1) e(5), of "''pw''"] secret l(2) show ?thesis by auto
qed

section \<open>Auditing from the configuration to the collector\<close>

lemma runAuditServe_Collecting:
  assumes "runAuditServe es env opened args = Collecting addr srv"
  shows "as_token srv \<noteq> []" and "serveToken es env = Inr (as_token srv)"
  using assms by (auto simp: runAuditServe_def NewServer_def Let_def split: if_splits sum.splits)

lemma Serving_client:
  assumes "pty_mcp_main e auditEnv httpEnv args = Serving (Some c) mode"
  shows "\<exists>cfg. c = audit_client_of cfg"
  using assms by (auto simp: pty_mcp_main_def main_run_def split: if_splits sum.splits)





text \<open>A host set up with \<open>audit init\<close> and run with the URL as a flag is locked out: the file it was given has
  no URL line, so its token is not used, and the collector that runs with this very token refuses every entry,
  whatever it contains.\<close>

theorem flag_url_locked_out:
  assumes words: "plain_word username" "plain_word token" "length username < 1000" "length token < 1000"
    and "configPaths e = Some (primary, legacy)" and "url \<noteq> []"
    and "init_file force username token NotExist = Some (cv_file e primary)"
    and "NewServer token logPath opened = Inr srv"
  shows "\<exists>c. resolveAuditConfig e [] url [] [] = Inr (Some c)
    \<and> audit_ServeHTTP valid accepted (post_request (NewClient (cf_URL c) (cf_User c) (cf_Token c) (cf_Mode c)) body) srv = (srv, 401)"
proof -
  have f: "cv_file e primary = File 384 (Inr (lines_text (init_lines username token)))"
    using assms(7) by (simp add: init_file_def)
  have "LoadAudit e = Inr None"
    using assms(5) f by (simp add: LoadAudit_def plain_init_off [OF words] settings_of_def kv_get_def)
  then have "resolveAuditConfig e [] url [] [] = Inr (Some \<lparr>cf_URL = url, cf_User = [], cf_Mode = ''best-effort'', cf_Token = []\<rparr>)"
    using resolve_without_file [of e url "[]" "[]" "[]"] assms(6) by simp
  moreover have "\<not> checkToken srv ''Bearer ''" by (simp add: checkToken_def HasPrefix_def)
  ultimately show ?thesis by (simp add: audit_ServeHTTP_def post_request_def NewClient_def)
qed

lemma flag_url_locked_out_witness:
  "\<exists>c. resolveAuditConfig (config_env_sample init_sample) [] ''http://c:9099'' [] [] = Inr (Some c)
    \<and> snd (audit_ServeHTTP (\<lambda>_. True) None (post_request (NewClient (cf_URL c) (cf_User c) (cf_Token c) (cf_Mode c)) ''{}'')
        \<lparr>as_token = ''abc'', as_file = []\<rparr>) = 401"
proof -
  have p: "configPaths (config_env_sample init_sample) = Some (''/h/.config/pty-mcp/config'', ''/h/.pty-mcp'')" by code_simp
  have i: "init_file True ''ray'' ''abc'' NotExist = Some (cv_file (config_env_sample init_sample) ''/h/.config/pty-mcp/config'')"
    by (simp add: init_file_def config_env_sample_def init_sample_def)
  have s: "NewServer ''abc'' [] (Inr []) = Inr \<lparr>as_token = ''abc'', as_file = []\<rparr>" by (simp add: NewServer_def)
  have w: "plain_word ''ray''" "plain_word ''abc''" "length ''ray'' < 1000" "length ''abc'' < 1000" by simp_all
  from flag_url_locked_out [OF w p _ i s, of "''http://c:9099''" "\<lambda>_. True" None "''{}''"] show ?thesis by auto
qed

section \<open>Who is let in\<close>

text \<open>Started with an address for HTTP the program is open to everyone exactly when it has warned about it: with a token,
  from the flag or the environment, a request without it is refused, and without one every request is let in.\<close>

theorem http_open_iff_warned:
  assumes "pty_mcp_main e auditEnv httpEnv args = Serving client (Http addr token warned)"
  shows "(\<forall>r. authorized (newHTTPTransport token w) r) \<longleftrightarrow> warned"
proof -
  have warned: "warned \<longleftrightarrow> token = []"
    using assms by (auto simp: pty_mcp_main_def main_run_def main_serving_def Let_def split: if_splits sum.splits)
  show ?thesis
  proof (cases "token = []")
    case True
    with warned show ?thesis by (auto simp: authorized_def newHTTPTransport_def)
  next
    case False
    have "\<not> authorized (newHTTPTransport token w) (r\<lparr>hq_Authorization := []\<rparr>)" for r
      using False by (simp add: authorized_def newHTTPTransport_def HasPrefix_def)
    with False warned show ?thesis by auto
  qed
qed

lemma http_open_iff_warned_witness: "\<not> (\<forall>r. authorized (newHTTPTransport ''t'' ()) r)"
proof -
  let ?e = "config_env_sample (\<lambda>_. NotExist)"
  have n: "resolveAuditConfig ?e [] [] [] [] = Inr None" by code_simp
  have "pty_mcp_main ?e [] ''t'' [''pty-mcp'', ''--http-addr='' @ '':8080''] = Serving None (Http '':8080'' ''t'' False)"
    using main_options [of "[Joined ''http-addr'' '':8080'']" ?e "[]" "''t''" "''pty-mcp''"] n
    by (simp add: main_flags_def good_name_def main_run_def main_serving_def httpToken_def string_flag_def bool_flag_def)
  from http_open_iff_warned [OF this, of "()"] show ?thesis by simp
qed

end
